(* ===== verification/Net_Prelude.thy ===== *)
theory Net_Prelude
  imports Complex_Main "HOL-Library.Word" "HOL-Library.Signed_Division" "HOL-Library.Sublist"
begin

unbundle bit_operations_syntax

text \<open>
  What the components share: the machine types, the results an operation of the C++ code can have
  (a value, an exception, a call of exit, undefined behaviour, a read that never returns), C's
  integer conversions, the byte order of the hosts (little-endian) and of the network (big-endian),
  decimal printing, and generic lemmas on slices of byte lists. The locales of this file are
  contracts that several components meet: a preorder that operations change their state within, a
  prefix-free byte codec, an invariant of a step relation and a goal that can be reached.
\<close>

section \<open>Types\<close>

type_synonym u8 = "8 word"
type_synonym u16 = "16 word"
type_synonym u32 = "32 word"
type_synonym bytes = "u8 list"

named_theorems io_simps \<open>equations of the sequencing operators\<close>
named_theorems codec_simps \<open>sizes and round trips of the byte encodings\<close>

section \<open>Results of operations\<close>

text \<open>
  A call of the C++ code over a finite script of system-call results ends in one of five ways.
  \<open>Exit_Failure\<close> is a call of \<open>exit(EXIT_FAILURE)\<close>; \<open>Undefined\<close> is undefined behaviour of the
  language (a read or write out of bounds, signed overflow); \<open>Blocked\<close> says that the call is waiting
  in a system call when the script ends.
\<close>

datatype ('e, 'a) outcome =
    Ret (ret_val: 'a)
  | Throw 'e
  | Exit_Failure
  | Undefined
  | Blocked

type_synonym ('s, 'e, 'a) io = "'s \<Rightarrow> ('e, 'a) outcome \<times> 's"

definition ret :: "'a \<Rightarrow> ('s, 'e, 'a) io" where
  "ret x = (\<lambda>s. (Ret x, s))"

definition halt :: "('e, 'a) outcome \<Rightarrow> ('s, 'e, 'a) io" where
  "halt r = (\<lambda>s. (r, s))"

definition upd :: "('s \<Rightarrow> 's) \<Rightarrow> ('s, 'e, unit) io" where
  "upd f = (\<lambda>s. (Ret (), f s))"

fun pass :: "('e, 'a) outcome \<Rightarrow> ('e, 'b) outcome" where
  "pass (Ret x) = Undefined"
| "pass (Throw e) = Throw e"
| "pass Exit_Failure = Exit_Failure"
| "pass Undefined = Undefined"
| "pass Blocked = Blocked"

definition bind_io :: "('s, 'e, 'a) io \<Rightarrow> ('a \<Rightarrow> ('s, 'e, 'b) io) \<Rightarrow> ('s, 'e, 'b) io" where
  "bind_io m f = (\<lambda>s. case m s of (r, s') \<Rightarrow> (case r of Ret x \<Rightarrow> f x s' | _ \<Rightarrow> (pass r, s')))"

definition then_io :: "('s, 'e, unit) io \<Rightarrow> ('s, 'e, 'b) io \<Rightarrow> ('s, 'e, 'b) io" where
  "then_io m k = bind_io m (\<lambda>_. k)"

definition of_option :: "'a option \<Rightarrow> ('s, 'e, 'a) io" where
  "of_option x = (case x of None \<Rightarrow> halt Undefined | Some y \<Rightarrow> ret y)"

lemma ret_apply [io_simps]: "ret x s = (Ret x, s)"
  by (simp add: ret_def)

lemma halt_apply [io_simps]: "halt r s = (r, s)"
  by (simp add: halt_def)

lemma upd_apply [io_simps]: "upd f s = (Ret (), f s)"
  by (simp add: upd_def)

lemma of_option_simps [io_simps]:
  "of_option None s = (Undefined, s)"
  "of_option (Some x) s = (Ret x, s)"
  by (simp_all add: of_option_def ret_def halt_def)

lemma bind_io_Ret [io_simps]: "m s = (Ret x, s') \<Longrightarrow> bind_io m f s = f x s'"
  by (simp add: bind_io_def)

lemma bind_io_stop [io_simps]:
  "m s = (Throw e, s') \<Longrightarrow> bind_io m f s = (Throw e, s')"
  "m s = (Exit_Failure, s') \<Longrightarrow> bind_io m f s = (Exit_Failure, s')"
  "m s = (Undefined, s') \<Longrightarrow> bind_io m f s = (Undefined, s')"
  "m s = (Blocked, s') \<Longrightarrow> bind_io m f s = (Blocked, s')"
  by (simp_all add: bind_io_def)

lemma bind_io_cases:
  assumes "bind_io m f s = (r, t)"
  obtains x s' where "m s = (Ret x, s')" "f x s' = (r, t)"
  | q where "m s = (q, t)" "r = pass q" "\<And>x. q \<noteq> Ret x"
  using assms by (cases "m s"; cases "fst (m s)") (auto simp: bind_io_def)

lemma pass_keeps [simp]:
  assumes "\<forall>x. q \<noteq> Ret x"
  shows "pass q = Undefined \<longleftrightarrow> q = Undefined" and "pass q = Throw e \<longleftrightarrow> q = Throw e"
    and "pass q = Exit_Failure \<longleftrightarrow> q = Exit_Failure" and "pass q = Blocked \<longleftrightarrow> q = Blocked" and "pass q \<noteq> Ret y"
  using assms by (cases q; simp)+

lemma bind_io_not_Ret: "m s = (r, s') \<Longrightarrow> \<forall>x. r \<noteq> Ret x \<Longrightarrow> bind_io m f s = (pass r, s')"
  by (cases r) (simp_all add: bind_io_def)

lemma bind_io_RetE:
  assumes "bind_io m f s = (Ret y, t)"
  obtains x s' where "m s = (Ret x, s')" "f x s' = (Ret y, t)"
  using assms
proof (rule bind_io_cases)
  fix q
  assume "Ret y = pass q" and "\<And>x. q \<noteq> Ret x"
  then show thesis by (cases q) auto
qed

lemma bind_io_ret_left: "bind_io (ret x) f = f x"
  by (simp add: bind_io_def ret_def fun_eq_iff)

lemma bind_io_ret_right: "bind_io m ret = m"
  by (auto simp: bind_io_def ret_def fun_eq_iff split: prod.splits outcome.splits)

lemma bind_io_assoc: "bind_io (bind_io m f) g = bind_io m (\<lambda>x. bind_io (f x) g)"
  by (auto simp: bind_io_def fun_eq_iff split: prod.splits outcome.splits)

text \<open>
  An operation is framed by a relation if each of its runs changes the state within it. For a preorder the
  operators of the sequencing keep that, which is proved once here.
\<close>

definition framed :: "('s \<Rightarrow> 's \<Rightarrow> bool) \<Rightarrow> ('s, 'e, 'a) io \<Rightarrow> bool" where
  "framed R m \<longleftrightarrow> (\<forall>s q s'. m s = (q, s') \<longrightarrow> R s s')"

lemma framedD: "framed R m \<Longrightarrow> m s = (q, s') \<Longrightarrow> R s s'"
  by (simp add: framed_def)

locale io_frame =
  fixes R :: "'s \<Rightarrow> 's \<Rightarrow> bool"
  assumes unchanged: "R s s"
    and changed_twice: "R s s' \<Longrightarrow> R s' s'' \<Longrightarrow> R s s''"
begin

lemma frame_basic: "framed R (ret x)" "framed R (halt q)" "framed R (of_option v)"
  by (cases v; simp add: framed_def of_option_def ret_apply halt_apply unchanged)+

lemma frame_bind:
  assumes "framed R m" and "\<And>x. framed R (f x)"
  shows "framed R (bind_io m f)"
  unfolding framed_def
proof (intro allI impI)
  fix s q t assume "bind_io m f s = (q, t)"
  then show "R s t"
    by (rule bind_io_cases) (blast intro: changed_twice framedD [OF assms(1)] framedD [OF assms(2)])+
qed

lemma frame_then: "framed R m \<Longrightarrow> framed R k \<Longrightarrow> framed R (then_io m k)"
  unfolding then_io_def by (intro frame_bind) auto

lemma frame_if: "framed R m \<Longrightarrow> framed R k \<Longrightarrow> framed R (if b then m else k)"
  by simp

lemma frame_here: "(\<And>s0. framed R (m s0)) \<Longrightarrow> framed R (\<lambda>s. m s s)"
  by (simp add: framed_def)

lemma frame_upd: "(\<And>s. R s (f s)) \<Longrightarrow> framed R (upd f)"
  by (simp add: framed_def upd_apply)

lemmas frame_intros = frame_basic frame_bind frame_then frame_if

end

section \<open>C integers\<close>

text \<open>
  \<open>int\<close> has 32 bits: a value computed in \<open>int\<close> arithmetic is defined when it fits. A conversion to
  \<open>uint32_t\<close>, and one from a wider or unsigned type to \<open>int\<close>, is taken modulo \<open>2 ^ 32\<close>. Division and
  remainder truncate towards zero (\<open>sdiv\<close>, \<open>smod\<close>). A conversion of a \<open>double\<close> to \<open>int\<close> drops
  the fraction and is undefined outside the range.
\<close>

definition int_fits :: "int \<Rightarrow> bool" where
  "int_fits x \<longleftrightarrow> - (2 ^ 31) \<le> x \<and> x < 2 ^ 31"

definition checked_int :: "int \<Rightarrow> int option" where
  "checked_int x = (if int_fits x then Some x else None)"

definition to_uint32 :: "int \<Rightarrow> u32" where
  "to_uint32 x = word_of_int x"

definition uint32_to_int :: "u32 \<Rightarrow> int" where
  "uint32_to_int x = sint x"

definition narrow_to_int :: "int \<Rightarrow> int" where
  "narrow_to_int x = sint (word_of_int x :: u32)"

definition trunc_rat :: "rat \<Rightarrow> int" where
  "trunc_rat x = (if 0 \<le> x then \<lfloor>x\<rfloor> else \<lceil>x\<rceil>)"

definition double_to_int :: "rat \<Rightarrow> int option" where
  "double_to_int x = checked_int (trunc_rat x)"

lemma checked_int_Some [simp]: "int_fits x \<Longrightarrow> checked_int x = Some x"
  by (simp add: checked_int_def)

lemma narrow_to_int_fits: "int_fits x \<Longrightarrow> narrow_to_int x = x"
  by (simp add: narrow_to_int_def int_fits_def sint_word_ariths signed_take_bit_int_eq_self
      signed_of_int)

lemma uint32_to_int_to_uint32: "int_fits x \<Longrightarrow> uint32_to_int (to_uint32 x) = x"
  using narrow_to_int_fits [of x] by (simp add: narrow_to_int_def uint32_to_int_def to_uint32_def)

section \<open>Byte order\<close>

text \<open>
  The hosts are little-endian: \<open>memcpy\<close> of a 16 or 32 bit field gives its least significant byte
  first (\<open>le16\<close>, \<open>le32\<close>), and \<open>htons\<close>, \<open>ntohs\<close>, \<open>htonl\<close>, \<open>ntohl\<close> swap the bytes. \<open>be16\<close> and \<open>be32\<close>
  are the network order, which the composition of the two must give.
\<close>

definition le16 :: "u16 \<Rightarrow> bytes" where
  "le16 x = [ucast x, ucast (drop_bit 8 x)]"

definition of_le16 :: "u8 \<Rightarrow> u8 \<Rightarrow> u16" where
  "of_le16 a b = ucast a OR push_bit 8 (ucast b)"

definition htons :: "u16 \<Rightarrow> u16" where
  "htons x = push_bit 8 x OR drop_bit 8 x"

definition ntohs :: "u16 \<Rightarrow> u16" where
  "ntohs x = htons x"

definition be16 :: "u16 \<Rightarrow> bytes" where
  "be16 x = [ucast (drop_bit 8 x), ucast x]"

definition le32 :: "u32 \<Rightarrow> bytes" where
  "le32 x = [ucast x, ucast (drop_bit 8 x), ucast (drop_bit 16 x), ucast (drop_bit 24 x)]"

definition of_le32 :: "u8 \<Rightarrow> u8 \<Rightarrow> u8 \<Rightarrow> u8 \<Rightarrow> u32" where
  "of_le32 a b c d = ucast a OR push_bit 8 (ucast b) OR push_bit 16 (ucast c) OR push_bit 24 (ucast d)"

definition htonl :: "u32 \<Rightarrow> u32" where
  "htonl x = of_le32 (ucast (drop_bit 24 x)) (ucast (drop_bit 16 x)) (ucast (drop_bit 8 x)) (ucast x)"

definition ntohl :: "u32 \<Rightarrow> u32" where
  "ntohl x = htonl x"

definition be32 :: "u32 \<Rightarrow> bytes" where
  "be32 x = [ucast (drop_bit 24 x), ucast (drop_bit 16 x), ucast (drop_bit 8 x), ucast x]"

lemma of_le16_le16 [codec_simps]: "of_le16 (ucast x) (ucast (drop_bit 8 x)) = x"
  unfolding of_le16_def by (rule bit_word_eqI) (auto simp: bit_simps)

lemma htons_htons [simp]: "htons (htons x) = x"
  unfolding htons_def by (rule bit_word_eqI) (auto simp: bit_simps)

lemma ntohs_htons [codec_simps]: "ntohs (htons x) = x"
  by (simp add: ntohs_def)

lemma le16_htons: "le16 (htons x) = be16 x"
  unfolding le16_def htons_def be16_def
  by (auto intro!: bit_word_eqI simp: bit_simps)

lemma ntohs_of_le16: "ntohs (of_le16 x y) = word_of_nat (256 * unat x + unat y)"
proof -
  have "ntohs (of_le16 x y) = push_bit 8 (ucast x) OR ucast y"
    unfolding ntohs_def htons_def of_le16_def
    by (rule bit_word_eqI) (auto simp: bit_simps dest: bit_imp_le_length)
  also have "\<dots> = push_bit 8 (ucast x) + ucast y"
    by (rule disjunctive_add_eq_or [symmetric]) (rule bit_word_eqI, auto simp: bit_simps dest: bit_imp_le_length)
  also have "\<dots> = word_of_nat (256 * unat x + unat y)"
    by (simp add: push_bit_eq_mult unsigned_ucast_eq)
  finally show ?thesis .
qed

lemma unat_ntohs_of_le16: "unat (ntohs (of_le16 x y)) = 256 * unat x + unat y"
proof -
  have "unat x < 2 ^ LENGTH(8)" and "unat y < 2 ^ LENGTH(8)"
    by (rule unsigned_less)+
  then have "unat x < 256" and "unat y < 256" by simp_all
  then show ?thesis
    unfolding ntohs_of_le16 by (simp only: unat_of_nat) simp
qed

lemma length_le16 [codec_simps]: "length (le16 x) = 2"
  by (simp add: le16_def)

lemma bit_of_le32:
  "bit (of_le32 a b c d) n \<longleftrightarrow>
     (if n < 8 then bit a n else if n < 16 then bit b (n - 8)
      else if n < 24 then bit c (n - 16) else n < 32 \<and> bit d (n - 24))"
proof -
  have above: "\<not> bit w m" if "8 \<le> m" for w :: u8 and m
    using that bit_imp_le_length [of w m] by auto
  show ?thesis
    by (auto simp: of_le32_def bit_simps above)
qed

lemma of_le32_le32 [codec_simps]:
  "of_le32 (ucast x) (ucast (drop_bit 8 x)) (ucast (drop_bit 16 x)) (ucast (drop_bit 24 x)) = x"
  by (rule bit_word_eqI) (auto simp: bit_of_le32 bit_simps)

lemma of_le32_bytes:
  "ucast (of_le32 a b c d) = a"
  "ucast (drop_bit 8 (of_le32 a b c d)) = b"
  "ucast (drop_bit 16 (of_le32 a b c d)) = c"
  "ucast (drop_bit 24 (of_le32 a b c d)) = d"
  by (auto intro!: bit_word_eqI simp: bit_of_le32 bit_simps)

lemma le32_of_le32 [simp]: "le32 (of_le32 a b c d) = [a, b, c, d]"
  by (simp add: le32_def of_le32_bytes)

lemma htonl_htonl [simp]: "htonl (htonl x) = x"
  by (simp add: htonl_def of_le32_bytes of_le32_le32)

lemma ntohl_htonl [codec_simps]: "ntohl (htonl x) = x"
  by (simp add: ntohl_def)

lemma le32_htonl: "le32 (htonl x) = be32 x"
  by (simp add: le32_def htonl_def of_le32_bytes be32_def)

lemma length_le32 [codec_simps]: "length (le32 x) = 4"
  by (simp add: le32_def)

section \<open>Strings\<close>

text \<open>\<open>std::to_string\<close> of a non-negative integer, and text as bytes.\<close>

fun to_string_nat :: "nat \<Rightarrow> string" where
  "to_string_nat n =
     (if n < 10 then [char_of (48 + n)] else to_string_nat (n div 10) @ [char_of (48 + n mod 10)])"

declare to_string_nat.simps [simp del]

text \<open>
  \<open>std::stoul\<close> skips white space, takes a sign and the digits that follow, and ignores the rest. It throws
  \<open>invalid_argument\<close> without a digit and \<open>out_of_range\<close> when the number does not fit into 64 bits.
\<close>

definition is_space :: "char \<Rightarrow> bool" where
  "is_space c \<longleftrightarrow> (of_char c :: nat) = 32 \<or> 9 \<le> (of_char c :: nat) \<and> (of_char c :: nat) \<le> 13"

definition is_digit :: "char \<Rightarrow> bool" where
  "is_digit c \<longleftrightarrow> 48 \<le> (of_char c :: nat) \<and> (of_char c :: nat) \<le> 57"

definition digits_value :: "string \<Rightarrow> nat" where
  "digits_value s = foldl (\<lambda>n c. 10 * n + (of_char c - 48)) 0 s"

datatype number_error = Invalid_Argument | Out_Of_Range

definition stoul :: "string \<Rightarrow> number_error + 64 word" where
  "stoul s =
     (let t = dropWhile is_space s;
          negative = (t \<noteq> [] \<and> hd t = CHR ''-'');
          digits = takeWhile is_digit (if t \<noteq> [] \<and> (negative \<or> hd t = CHR ''+'') then tl t else t);
          n = digits_value digits
      in if digits = [] then Inl Invalid_Argument
         else if 2 ^ 64 \<le> n then Inl Out_Of_Range
         else Inr (if negative then - word_of_nat n else word_of_nat n))"

text \<open>\<open>std::stoi\<close> is the same for \<open>int\<close>.\<close>

definition stoi :: "string \<Rightarrow> number_error + int" where
  "stoi s =
     (let t = dropWhile is_space s;
          negative = (t \<noteq> [] \<and> hd t = CHR ''-'');
          digits = takeWhile is_digit (if t \<noteq> [] \<and> (negative \<or> hd t = CHR ''+'') then tl t else t);
          v = (if negative then - int (digits_value digits) else int (digits_value digits))
      in if digits = [] then Inl Invalid_Argument
         else if int_fits v then Inr v
         else Inl Out_Of_Range)"

definition text_bytes :: "string \<Rightarrow> bytes" where
  "text_bytes s = map (\<lambda>c. word_of_nat (of_char c)) s"

lemma length_text_bytes [simp]: "length (text_bytes s) = length s"
  by (simp add: text_bytes_def)

section \<open>Slices\<close>

text \<open>\<open>overlay d buf\<close> is the array \<open>buf\<close> after \<open>memcpy\<close> or \<open>recv\<close> wrote \<open>d\<close> to its beginning.\<close>

definition overlay :: "'a list \<Rightarrow> 'a list \<Rightarrow> 'a list" where
  "overlay d buf = d @ drop (length d) buf"

lemma length_overlay [simp]: "length d \<le> length buf \<Longrightarrow> length (overlay d buf) = length buf"
  by (simp add: overlay_def)

lemma overlay_full [simp]: "length d = length buf \<Longrightarrow> overlay d buf = d"
  by (simp add: overlay_def)

lemma in_set_butlast_or_last: "x \<in> set xs \<Longrightarrow> x \<in> set (butlast xs) \<or> x = last xs"
  by (induction xs) auto

lemma take_overlay: "n \<le> length d \<Longrightarrow> take n (overlay d buf) = take n d"
  by (simp add: overlay_def)

section \<open>Shared contracts\<close>

text \<open>
  A byte codec whose decoder recognises an encoding at the beginning of any longer input. Messages
  written one after the other can then be told apart.
\<close>

locale byte_codec =
  fixes enc :: "'a \<Rightarrow> bytes"
    and dec :: "bytes \<Rightarrow> 'a option"
    and wf :: "'a \<Rightarrow> bool"
  assumes dec_enc: "wf x \<Longrightarrow> dec (enc x @ rest) = Some x"
    and enc_nonempty: "wf x \<Longrightarrow> enc x \<noteq> []"
begin

lemma codec_prefix_free:
  assumes "wf x" and "wf y" and "enc x @ r = enc y @ s"
  shows "x = y \<and> r = s"
proof -
  have "Some x = Some y"
    using assms by (metis dec_enc)
  with assms(3) show ?thesis by simp
qed

lemma codec_inj: "wf x \<Longrightarrow> wf y \<Longrightarrow> enc x = enc y \<Longrightarrow> x = y"
  using codec_prefix_free [of x y "[]" "[]"] by simp

lemma codec_stream:
  assumes "list_all wf xs" and "list_all wf ys"
    and "concat (map enc xs) = concat (map enc ys)"
  shows "xs = ys"
  using assms
proof (induction xs arbitrary: ys)
  case Nil
  then show ?case by (cases ys) (auto simp: enc_nonempty)
next
  case (Cons x xs)
  then obtain y zs where ys: "ys = y # zs"
    by (cases ys) (auto simp: enc_nonempty)
  with Cons.prems have "x = y \<and> concat (map enc xs) = concat (map enc zs)"
    by (intro codec_prefix_free) auto
  with Cons.IH [of zs] Cons.prems ys show ?case by simp
qed

end

text \<open>
  An invariant of a step relation, and of every state a run reaches.
\<close>

locale step_invariant =
  fixes step :: "'s \<Rightarrow> 's \<Rightarrow> bool"
    and inv :: "'s \<Rightarrow> bool"
  assumes inv_step: "step s t \<Longrightarrow> inv s \<Longrightarrow> inv t"
begin

lemma inv_steps: "step\<^sup>*\<^sup>* s t \<Longrightarrow> inv s \<Longrightarrow> inv t"
  by (induction rule: rtranclp_induct) (auto intro: inv_step)

end

text \<open>
  A goal that can be reached: as long as it is not, some steps bring it nearer. (The steps need not
  happen; that they can is what a scheduler and the clients need.)
\<close>

locale progress =
  fixes step :: "'s \<Rightarrow> 's \<Rightarrow> bool"
    and ok :: "'s \<Rightarrow> bool"
    and goal :: "'s \<Rightarrow> bool"
    and distance :: "'s \<Rightarrow> nat"
  assumes nearer: "ok s \<Longrightarrow> \<not> goal s \<Longrightarrow> \<exists>t. step\<^sup>*\<^sup>* s t \<and> ok t \<and> distance t < distance s"
begin

lemma reaches_goal: "ok s \<Longrightarrow> \<exists>t. step\<^sup>*\<^sup>* s t \<and> ok t \<and> goal t"
proof (induction "distance s" arbitrary: s rule: less_induct)
  case less
  show ?case
  proof (cases "goal s")
    case True
    with less.prems show ?thesis by blast
  next
    case False
    from nearer [OF less.prems False] obtain t where t: "step\<^sup>*\<^sup>* s t" "ok t" "distance t < distance s" by blast
    from less.hyps [OF t(3,2)] t(1) show ?thesis by (meson rtranclp_trans)
  qed
qed

end

end
