(* ===== verification/Rdt_Segment.thy ===== *)
theory Rdt_Segment
  imports Net_Prelude
begin

text \<open>
  The segments of the reliable transport (\<open>RDTSegment.h\<close>, \<open>RDTSegment.cpp\<close> of project 4). The
  header is modelled as it lies in memory: \<open>payload_size\<close> holds the value after \<open>htons\<close>, and
  the struct has one byte of padding before it, whose value the code never sets. A \<open>std::span\<close> is
  the memory from its pointer on and its size; nothing stops a parsed segment's span from
  being longer than that memory, and a copy through it is then \<open>None\<close>, an access out of bounds.
\<close>

section \<open>Data\<close>

datatype RDTMessageType = RDT_DATA | RDT_ACK | RDT_CONN | RDT_CLOSE | RDT_UNKNOWN u8

record RDTHeader =
  hdr_sequence_number :: u8
  hdr_ack_number :: u8
  hdr_type :: RDTMessageType
  hdr_padding :: u8
  hdr_payload_size :: u16

record byte_span =
  span_mem :: bytes
  span_size :: nat

record RDTSegment =
  header :: RDTHeader
  payload :: byte_span

definition sizeof_RDTHeader :: nat where
  "sizeof_RDTHeader = 6"

definition MAX_SEG_SIZE :: nat where
  "MAX_SEG_SIZE = 1400"

definition MAX_DATA_SIZE :: nat where
  "MAX_DATA_SIZE = MAX_SEG_SIZE - sizeof_RDTHeader"

fun byte_of_type :: "RDTMessageType \<Rightarrow> u8" where
  "byte_of_type RDT_DATA = 0"
| "byte_of_type RDT_ACK = 1"
| "byte_of_type RDT_CONN = 2"
| "byte_of_type RDT_CLOSE = 3"
| "byte_of_type (RDT_UNKNOWN b) = b"

definition type_of_byte :: "u8 \<Rightarrow> RDTMessageType" where
  "type_of_byte b =
     (if b = 0 then RDT_DATA else if b = 1 then RDT_ACK else if b = 2 then RDT_CONN
      else if b = 3 then RDT_CLOSE else RDT_UNKNOWN b)"

definition header_bytes :: "RDTHeader \<Rightarrow> bytes" where
  "header_bytes h =
     [hdr_sequence_number h, hdr_ack_number h, byte_of_type (hdr_type h), hdr_padding h]
     @ le16 (hdr_payload_size h)"

fun header_of_bytes :: "bytes \<Rightarrow> RDTHeader option" where
  "header_of_bytes (s # a # t # p # x # y # _) =
     Some \<lparr>hdr_sequence_number = s, hdr_ack_number = a, hdr_type = type_of_byte t,
           hdr_padding = p, hdr_payload_size = of_le16 x y\<rparr>"
| "header_of_bytes _ = None"

section \<open>Operations\<close>

definition message_type_to_string :: "RDTMessageType \<Rightarrow> string option" where
  "message_type_to_string t =
     (if t = RDT_CONN then Some ''RDT_CONN''
      else if t = RDT_ACK then Some ''RDT_ACK''
      else if t = RDT_DATA then Some ''RDT_DATA''
      else if t = RDT_CLOSE then Some ''RDT_CLOSE''
      else None)"

definition segment_to_string :: "RDTSegment \<Rightarrow> string option" where
  "segment_to_string g =
     (case message_type_to_string (hdr_type (header g)) of
        None \<Rightarrow> None
      | Some t \<Rightarrow> Some (''{'' @ t
          @ '': seq='' @ to_string_nat (unat (hdr_sequence_number (header g)))
          @ '', ack='' @ to_string_nat (unat (hdr_ack_number (header g)))
          @ '', payload='' @ to_string_nat (unat (ntohs (hdr_payload_size (header g))))
          @ '' bytes}''))"

definition RDTSegment_control :: "u8 \<Rightarrow> u8 \<Rightarrow> u8 \<Rightarrow> RDTMessageType \<Rightarrow> RDTSegment" where
  "RDTSegment_control pad seq ack ty =
     \<lparr>header = \<lparr>hdr_sequence_number = seq, hdr_ack_number = ack, hdr_type = ty,
                hdr_padding = pad, hdr_payload_size = htons 0\<rparr>,
      payload = \<lparr>span_mem = [], span_size = 0\<rparr>\<rparr>"

definition RDTSegment_data :: "u8 \<Rightarrow> u8 \<Rightarrow> u8 \<Rightarrow> RDTMessageType \<Rightarrow> bytes \<Rightarrow> RDTSegment" where
  "RDTSegment_data pad seq ack ty data =
     \<lparr>header = \<lparr>hdr_sequence_number = seq, hdr_ack_number = ack, hdr_type = ty,
                hdr_padding = pad, hdr_payload_size = htons (word_of_nat (length data))\<rparr>,
      payload = \<lparr>span_mem = data, span_size = length data\<rparr>\<rparr>"

definition RDTSegment_parse :: "bytes \<Rightarrow> RDTSegment option" where
  "RDTSegment_parse source =
     (case header_of_bytes source of
        None \<Rightarrow> None
      | Some h \<Rightarrow> Some \<lparr>header = h,
          payload = \<lparr>span_mem = drop sizeof_RDTHeader source,
                     span_size = unat (ntohs (hdr_payload_size h))\<rparr>\<rparr>)"

definition copy_span :: "byte_span \<Rightarrow> bytes option" where
  "copy_span p = (if span_size p \<le> length (span_mem p) then Some (take (span_size p) (span_mem p)) else None)"

definition copy_to :: "RDTSegment \<Rightarrow> bytes \<Rightarrow> bytes option" where
  "copy_to g destination =
     (case copy_span (payload g) of
        None \<Rightarrow> None
      | Some p \<Rightarrow>
          if sizeof_RDTHeader + length p \<le> length destination
          then Some (overlay (header_bytes (header g) @ p) destination) else None)"

definition copy_payload_to :: "RDTSegment \<Rightarrow> bytes \<Rightarrow> bytes option" where
  "copy_payload_to g destination =
     (case copy_span (payload g) of
        None \<Rightarrow> None
      | Some p \<Rightarrow> if length p \<le> length destination then Some (overlay p destination) else None)"

definition get_sequence_number :: "RDTSegment \<Rightarrow> u8" where
  "get_sequence_number g = hdr_sequence_number (header g)"

definition get_ack_number :: "RDTSegment \<Rightarrow> u8" where
  "get_ack_number g = hdr_ack_number (header g)"

definition get_type :: "RDTSegment \<Rightarrow> RDTMessageType" where
  "get_type g = hdr_type (header g)"

definition get_total_size :: "RDTSegment \<Rightarrow> u16" where
  "get_total_size g = word_of_nat (sizeof_RDTHeader + span_size (payload g))"

definition get_payload_size :: "RDTSegment \<Rightarrow> u16" where
  "get_payload_size g = word_of_nat (span_size (payload g))"

lemmas segment_defs = RDTSegment_control_def RDTSegment_data_def get_sequence_number_def
  get_ack_number_def get_type_def get_payload_size_def get_total_size_def

section \<open>Types and headers\<close>

definition type_ok :: "RDTMessageType \<Rightarrow> bool" where
  "type_ok t \<longleftrightarrow> type_of_byte (byte_of_type t) = t"

lemma type_ok_simps [simp]: "type_ok RDT_DATA" "type_ok RDT_ACK" "type_ok RDT_CONN" "type_ok RDT_CLOSE"
  by (simp_all add: type_ok_def type_of_byte_def)

lemma byte_of_type_of_byte [simp]: "byte_of_type (type_of_byte b) = b"
  by (simp add: type_of_byte_def)

lemma type_ok_of_byte [simp]: "type_ok (type_of_byte b)"
  by (simp add: type_ok_def)

definition header_ok :: "RDTHeader \<Rightarrow> bool" where
  "header_ok h \<longleftrightarrow> type_ok (hdr_type h)"

lemma length_header_bytes [codec_simps]: "length (header_bytes h) = 6"
  by (simp add: header_bytes_def length_le16)

lemma header_of_header_bytes [codec_simps]:
  "header_ok h \<Longrightarrow> header_of_bytes (header_bytes h @ rest) = Some h"
  by (simp add: header_bytes_def le16_def of_le16_le16 header_ok_def type_ok_def)

interpretation header_codec: byte_codec header_bytes header_of_bytes header_ok
proof unfold_locales
  fix h :: RDTHeader
  show "header_bytes h \<noteq> []" by (simp add: header_bytes_def)
qed (rule header_of_header_bytes)

lemma header_of_bytes_defined: "(\<exists>h. header_of_bytes bs = Some h) \<longleftrightarrow> 6 \<le> length bs"
  by (cases bs rule: header_of_bytes.cases) auto

lemma header_of_bytes_append:
  "6 \<le> length d \<Longrightarrow> header_of_bytes (d @ r) = header_of_bytes d"
  by (cases d rule: header_of_bytes.cases) auto

section \<open>Frames: a segment as the network sees it\<close>

text \<open>
  A complete segment on the wire carries its type, its two numbers and its payload; the padding byte
  carries nothing. \<open>frame_of\<close> reads a datagram that way and is \<open>None\<close> on a datagram shorter than
  its header says.
\<close>

record frame =
  fr_type :: RDTMessageType
  fr_seq :: u8
  fr_ack :: u8
  fr_payload :: bytes

definition seg_frame :: "RDTSegment \<Rightarrow> frame option" where
  "seg_frame g =
     map_option (\<lambda>p. \<lparr>fr_type = get_type g, fr_seq = get_sequence_number g,
                       fr_ack = get_ack_number g, fr_payload = p\<rparr>) (copy_span (payload g))"

definition frame_of :: "bytes \<Rightarrow> frame option" where
  "frame_of d = Option.bind (RDTSegment_parse d) seg_frame"

definition wire :: "u8 \<Rightarrow> frame \<Rightarrow> bytes" where
  "wire pad f =
     [fr_seq f, fr_ack f, byte_of_type (fr_type f), pad] @ be16 (word_of_nat (length (fr_payload f)))
     @ fr_payload f"

definition frame_ok :: "frame \<Rightarrow> bool" where
  "frame_ok f \<longleftrightarrow> type_ok (fr_type f) \<and> length (fr_payload f) \<le> 65529"

lemma unat_of_small [simp]: "n < 65536 \<Longrightarrow> unat (word_of_nat n :: u16) = n"
  by (simp add: unat_of_nat take_bit_nat_eq_self)

lemma frame_of_wire [codec_simps]:
  assumes "frame_ok f"
  shows "frame_of (wire pad f @ rest) = Some f"
proof -
  let ?n = "word_of_nat (length (fr_payload f)) :: u16"
  let ?h = "\<lparr>hdr_sequence_number = fr_seq f, hdr_ack_number = fr_ack f, hdr_type = fr_type f,
             hdr_padding = pad, hdr_payload_size = htons ?n\<rparr>"
  have "wire pad f = header_bytes ?h @ fr_payload f"
    by (simp add: wire_def header_bytes_def le16_htons)
  moreover have "header_ok ?h" and "unat ?n = length (fr_payload f)"
    using assms by (auto simp: frame_ok_def header_ok_def)
  ultimately show ?thesis
    by (simp add: frame_of_def RDTSegment_parse_def header_of_header_bytes seg_frame_def
        copy_span_def ntohs_htons segment_defs sizeof_RDTHeader_def length_header_bytes)
qed

interpretation frame_codec: byte_codec "wire pad" frame_of frame_ok
  by unfold_locales (rule frame_of_wire, assumption, simp add: wire_def)

text \<open>The bytes a constructed segment is copied out as, into a buffer of its own total size.\<close>

definition seg_buffer :: "RDTSegment \<Rightarrow> bytes" where
  "seg_buffer g = replicate (unat (get_total_size g)) 0"

lemma copy_to_data:
  assumes "length data \<le> 65529"
  shows "copy_to (RDTSegment_data pad seq ack ty data)
      (seg_buffer (RDTSegment_data pad seq ack ty data)) =
    Some (wire pad \<lparr>fr_type = ty, fr_seq = seq, fr_ack = ack, fr_payload = data\<rparr>)"
proof -
  have "unat (word_of_nat (6 + length data) :: u16) = 6 + length data"
    using assms by (intro unat_of_small) simp
  then show ?thesis
    by (simp add: copy_to_def seg_buffer_def segment_defs copy_span_def sizeof_RDTHeader_def
        wire_def header_bytes_def le16_htons be16_def overlay_def)
qed

lemma copy_to_control:
  "copy_to (RDTSegment_control pad seq ack ty) (seg_buffer (RDTSegment_control pad seq ack ty)) =
    Some (wire pad \<lparr>fr_type = ty, fr_seq = seq, fr_ack = ack, fr_payload = []\<rparr>)"
  using copy_to_data [of "[]" pad seq ack ty] by (simp add: segment_defs)

text \<open>
  What a receiver reads after \<open>recv\<close> wrote a complete segment over the beginning of its buffer.
\<close>

lemma frame_of_length: "frame_of d = Some f \<Longrightarrow> length d \<ge> 6 + length (fr_payload f)"
  using header_of_bytes_defined [of d]
  by (auto simp: frame_of_def RDTSegment_parse_def seg_frame_def copy_span_def sizeof_RDTHeader_def
      split: option.splits if_splits)

lemma frame_of_parse:
  assumes "frame_of d = Some f"
  obtains g where "RDTSegment_parse (d @ r) = Some g" "seg_frame g = Some f"
    "get_type g = fr_type f" "get_sequence_number g = fr_seq f" "get_ack_number g = fr_ack f"
    "copy_span (payload g) = Some (fr_payload f)" "span_size (payload g) = length (fr_payload f)"
proof -
  from assms obtain h where h: "header_of_bytes d = Some h"
    and "RDTSegment_parse d = Some \<lparr>header = h, payload = \<lparr>span_mem = drop 6 d,
        span_size = unat (ntohs (hdr_payload_size h))\<rparr>\<rparr>"
    by (auto simp: frame_of_def RDTSegment_parse_def sizeof_RDTHeader_def split: option.splits)
  note parse = this
  have len: "6 \<le> length d"
    using h header_of_bytes_defined by blast
  define g where "g = \<lparr>header = h, payload = \<lparr>span_mem = drop 6 d @ r,
      span_size = unat (ntohs (hdr_payload_size h))\<rparr>\<rparr>"
  have "RDTSegment_parse (d @ r) = Some g"
    using h len by (simp add: RDTSegment_parse_def header_of_bytes_append g_def sizeof_RDTHeader_def)
  moreover have "seg_frame g = Some f"
    using assms parse(2) by (auto simp: frame_of_def seg_frame_def copy_span_def g_def segment_defs
        split: if_splits)
  ultimately show thesis
    by (intro that) (auto simp: seg_frame_def copy_span_def split: if_splits)
qed

end
