(* ===== verification/Rdt_Time.thy ===== *)
theory Rdt_Time
  imports Net_Prelude
begin

text \<open>
  The clock helpers of the reliable transport (\<open>rdt_time.cpp\<close>). \<open>gettimeofday\<close> is the parameter
  of \<open>current_msec\<close>: what it returns at its n-th call. \<open>tv_sec\<close> and \<open>tv_usec\<close> are 64 bit, so the
  milliseconds are computed there and then converted to the 32 bit \<open>int\<close> that is returned.
\<close>

record timeval =
  tv_sec :: int
  tv_usec :: int

definition timeval_to_msec :: "timeval \<Rightarrow> int" where
  "timeval_to_msec t = narrow_to_int (tv_sec t * 1000 + tv_usec t sdiv 1000)"

definition msec_to_timeval :: "int \<Rightarrow> timeval" where
  "msec_to_timeval millis = \<lparr>tv_sec = millis sdiv 1000, tv_usec = (millis smod 1000) * 1000\<rparr>"

definition current_msec :: "(nat \<Rightarrow> timeval) \<Rightarrow> nat \<Rightarrow> int" where
  "current_msec gettimeofday n = timeval_to_msec (gettimeofday n)"

lemma sdiv_smod_1000: "(m :: int) sdiv 1000 * 1000 + (m smod 1000) = m"
proof -
  have "m sdiv 1000 * 1000 + (m smod 1000) = sgn m * (\<bar>m\<bar> div 1000 * 1000 + \<bar>m\<bar> mod 1000)"
    by (simp only: signed_divide_int_def signed_modulo_int_def distrib_left mult.assoc) simp
  then show ?thesis by (simp add: sgn_mult_abs)
qed

lemma smod_1000_scaled: "((m :: int) smod 1000 * 1000) sdiv 1000 = m smod 1000"
  by (auto simp: signed_divide_int_def abs_mult sgn_mult mult_sgn_abs)

lemma smod_1000_bound: "\<bar>(m :: int) smod 1000\<bar> < 1000"
  by (auto simp: signed_modulo_int_def signed_divide_int_def sgn_if abs_if minus_mult_div_eq_mod
      [symmetric] pos_mod_bound)

text \<open>Converting any \<open>int\<close> of milliseconds (negative ones included) to a
  \<open>timeval\<close> and back gives it again, and the microseconds stay below one second in magnitude.\<close>

lemma msec_roundtrip:
  assumes "int_fits m"
  shows "timeval_to_msec (msec_to_timeval m) = m \<and> \<bar>tv_usec (msec_to_timeval m)\<bar> < 1000000"
proof
  show "timeval_to_msec (msec_to_timeval m) = m"
    using assms by (simp add: timeval_to_msec_def msec_to_timeval_def smod_1000_scaled
        sdiv_smod_1000 narrow_to_int_fits)
  show "\<bar>tv_usec (msec_to_timeval m)\<bar> < 1000000"
    using smod_1000_bound [of m] by (simp add: msec_to_timeval_def abs_mult)
qed

end
