(* ===== verification/Unreliable_Socket.thy ===== *)
theory Unreliable_Socket
  imports Rdt_Segment Rdt_Time
begin

text \<open>
  The UDP socket under the reliable transport (\<open>UnreliableSocket.cpp\<close>). The operating system is a
  parameter: \<open>os_env\<close> says which of the system calls fail, what the clock returns and what the
  bytes hold that the code never initialises, and an \<open>rx_event\<close> is the result of one \<open>recv\<close>. The
  record is the class, with the two facts about its descriptor that the code relies on: whether
  it is open, and the datagrams handed to the kernel so far, in order.
\<close>

datatype sock_exn = SocketTimeout | ConnectionClosed

datatype rx_event = RxDatagram bytes | RxAgain | RxError

record os_env =
  socket_fails :: bool
  send_fails :: "nat \<Rightarrow> bool"
  bind_fails :: bool
  connect_fails :: bool
  setsockopt_fails :: bool
  gettimeofday :: "nat \<Rightarrow> timeval"
  stack_byte :: "nat \<Rightarrow> u8"

record UnreliableSocket =
  timeout_length :: u32
  connected :: bool
  fd_open :: bool
  tx :: "bytes list"

type_synonym 'a sock_io = "(UnreliableSocket, sock_exn, 'a) io"

definition UnreliableSocket_new :: UnreliableSocket where
  "UnreliableSocket_new = \<lparr>timeout_length = 0, connected = False, fd_open = True, tx = []\<rparr>"

text \<open>The constructor ends the program when the system gives it no socket.\<close>

definition UnreliableSocket_create :: "os_env \<Rightarrow> (sock_exn, UnreliableSocket) outcome" where
  "UnreliableSocket_create env = (if socket_fails env then Exit_Failure else Ret UnreliableSocket_new)"

definition us_bind :: "os_env \<Rightarrow> unit sock_io" where
  "us_bind env = (if bind_fails env then halt Exit_Failure else ret ())"

definition us_connect :: "os_env \<Rightarrow> unit sock_io" where
  "us_connect env =
     (if connect_fails env then halt Exit_Failure else upd (\<lambda>u. u\<lparr>connected := True\<rparr>))"

definition get_timeout_length :: "UnreliableSocket \<Rightarrow> u32" where
  "get_timeout_length u = timeout_length u"

definition set_timeout_length :: "os_env \<Rightarrow> u32 \<Rightarrow> unit sock_io" where
  "set_timeout_length env ms =
     then_io (upd (\<lambda>u. u\<lparr>timeout_length := ms\<rparr>))
       (if setsockopt_fails env then halt Exit_Failure else ret ())"

definition receive_timeout :: "UnreliableSocket \<Rightarrow> timeval" where
  "receive_timeout u = msec_to_timeval (uint32_to_int (timeout_length u))"

definition us_send :: "os_env \<Rightarrow> bytes \<Rightarrow> unit sock_io" where
  "us_send env buffer = (\<lambda>u.
     if \<not> connected u then (Ret (), u)
     else if send_fails env (length (tx u)) then (Exit_Failure, u)
     else (Ret (), u\<lparr>tx := tx u @ [buffer]\<rparr>))"

fun us_receive :: "os_env \<Rightarrow> rx_event \<Rightarrow> bytes \<Rightarrow> (nat \<times> bytes) sock_io" where
  "us_receive env RxAgain buffer u = (Throw SocketTimeout, u)"
| "us_receive env RxError buffer u = (Exit_Failure, u)"
| "us_receive env (RxDatagram d) buffer u =
     (let got = take MAX_SEG_SIZE d in
      if length got = 0 then (Throw ConnectionClosed, u)
      else if connected u then (Ret (length got, overlay got buffer), u)
      else if connect_fails env then (Exit_Failure, u)
      else (Ret (length got, overlay got buffer), u\<lparr>connected := True\<rparr>))"

definition us_close :: "unit sock_io" where
  "us_close = upd (\<lambda>u. u\<lparr>fd_open := False\<rparr>)"

lemma us_send_connected:
  "connected u \<Longrightarrow> \<not> send_fails env (length (tx u)) \<Longrightarrow>
     us_send env b u = (Ret (), u\<lparr>tx := tx u @ [b]\<rparr>)"
  by (simp add: us_send_def)

lemma set_timeout_length_ok [io_simps]:
  "set_timeout_length env ms u =
     (if setsockopt_fails env then Exit_Failure else Ret (), u\<lparr>timeout_length := ms\<rparr>)"
  by (simp add: set_timeout_length_def then_io_def bind_io_def upd_def halt_def ret_def)

text \<open>A receive never sends, changes the timeout or closes the socket.\<close>

lemma us_receive_frame:
  "us_receive env e b u = (r, u') \<Longrightarrow>
     tx u' = tx u \<and> timeout_length u' = timeout_length u \<and> fd_open u' = fd_open u
     \<and> (connected u \<longrightarrow> connected u')"
  by (cases e) (auto simp: Let_def split: if_splits)

end
