(* ===== verification/Reliable_Socket.thy ===== *)
theory Reliable_Socket
  imports Unreliable_Socket
begin

text \<open>
  The reliable socket (\<open>ReliableSocket.cpp\<close>): a stop-and-wait sender and receiver with a three-way
  handshake, an adaptive timeout and a two-party close. Every method is a definition over the
  object's state. The script of a run is the list of results its \<open>recv\<close> calls get, in order; each
  \<open>while (true)\<close> loop of the class makes one \<open>recv\<close> per iteration, so \<open>recv_loop\<close> recurses on the
  script, and a call whose script ends is \<open>Blocked\<close> in \<open>recv\<close>.
\<close>

section \<open>State\<close>

datatype connection_status =
    INIT | WAIT_HS2 | WAIT_HS3 | WAIT_SEND | WAIT_DATA0 | WAIT_DATA1 | WAIT_ACK0 | WAIT_ACK1
  | CLOSING | CLOSED

text \<open>
  \<open>clock_reads\<close> counts the calls of \<open>current_msec\<close>; \<open>seg_buf\<close> is the local array that the running
  method hands to \<open>receive\<close>.
\<close>

record ReliableSocket =
  socket :: UnreliableSocket
  state :: connection_status
  sequence_number :: u8
  estimated_rtt :: int
  dev_rtt :: int
  clock_reads :: nat
  seg_buf :: bytes

type_synonym 'a rs_io = "(ReliableSocket, sock_exn, 'a) io"
type_synonym 'a script_io = "(rx_event list \<times> ReliableSocket, sock_exn, 'a) io"

definition ReliableSocket_new :: ReliableSocket where
  "ReliableSocket_new =
     \<lparr>socket = UnreliableSocket_new, state = INIT, sequence_number = 0,
      estimated_rtt = 200, dev_rtt = 10, clock_reads = 0, seg_buf = replicate MAX_SEG_SIZE 0\<rparr>"

definition ReliableSocket_create :: "os_env \<Rightarrow> (sock_exn, ReliableSocket) outcome" where
  "ReliableSocket_create env = (case UnreliableSocket_create env of
      Ret u \<Rightarrow> Ret (ReliableSocket_new\<lparr>socket := u\<rparr>)
    | q \<Rightarrow> pass q)"

lemma ReliableSocket_create_eq [simp]:
  "ReliableSocket_create env = (if socket_fails env then Exit_Failure else Ret ReliableSocket_new)"
  by (simp add: ReliableSocket_create_def UnreliableSocket_create_def ReliableSocket_new_def)

definition on_socket :: "'a sock_io \<Rightarrow> 'a rs_io" where
  "on_socket m = (\<lambda>s. case m (socket s) of (r, u) \<Rightarrow> (r, s\<lparr>socket := u\<rparr>))"

definition on_rs :: "'a rs_io \<Rightarrow> 'a script_io" where
  "on_rs m = (\<lambda>(evs, s). case m s of (r, s') \<Rightarrow> (r, (evs, s')))"

definition set_state :: "connection_status \<Rightarrow> unit rs_io" where
  "set_state st = upd (\<lambda>s. s\<lparr>state := st\<rparr>)"

definition fill_zero :: "unit rs_io" where
  "fill_zero = upd (\<lambda>s. s\<lparr>seg_buf := replicate MAX_SEG_SIZE 0\<rparr>)"

definition receive :: "os_env \<Rightarrow> rx_event \<Rightarrow> nat rs_io" where
  "receive env e = (\<lambda>s. case us_receive env e (seg_buf s) (socket s) of
      (Ret (n, b), u) \<Rightarrow> (Ret n, s\<lparr>socket := u, seg_buf := b\<rparr>)
    | (r, u) \<Rightarrow> (pass r, s\<lparr>socket := u\<rparr>))"

definition parse_received :: "RDTSegment rs_io" where
  "parse_received = (\<lambda>s. of_option (RDTSegment_parse (seg_buf s)) s)"

definition log_segment :: "RDTSegment \<Rightarrow> unit rs_io" where
  "log_segment g = (case segment_to_string g of None \<Rightarrow> halt Exit_Failure | Some _ \<Rightarrow> ret ())"

definition read_clock :: "os_env \<Rightarrow> int rs_io" where
  "read_clock env = (\<lambda>s. (Ret (current_msec (gettimeofday env) (clock_reads s)),
                          s\<lparr>clock_reads := Suc (clock_reads s)\<rparr>))"

definition padding :: "os_env \<Rightarrow> ReliableSocket \<Rightarrow> u8" where
  "padding env s = stack_byte env (length (tx (socket s)))"

section \<open>Sending and the timeout\<close>

definition get_estimated_rtt :: "ReliableSocket \<Rightarrow> u32" where
  "get_estimated_rtt s = to_uint32 (estimated_rtt s)"

definition send_buffer :: "os_env \<Rightarrow> bytes \<Rightarrow> unit rs_io" where
  "send_buffer env buf = on_socket (us_send env buf)"

definition send_ack :: "os_env \<Rightarrow> u8 \<Rightarrow> unit rs_io" where
  "send_ack env ack_number = (\<lambda>s.
     let ack_message = RDTSegment_control (padding env s) 0 ack_number RDT_ACK
     in bind_io (of_option (copy_to ack_message (seg_buffer ack_message))) (send_buffer env) s)"

definition set_timeout :: "os_env \<Rightarrow> int \<Rightarrow> unit rs_io" where
  "set_timeout env ms = on_socket (set_timeout_length env (to_uint32 ms))"

definition rtt_timeout :: "os_env \<Rightarrow> unit rs_io" where
  "rtt_timeout env = (\<lambda>s.
     bind_io (of_option (checked_int (4 * dev_rtt s)))
       (\<lambda>d. bind_io (of_option (checked_int (estimated_rtt s + d))) (set_timeout env)) s)"

text \<open>
  The weights of \<open>update_rtt\<close> are powers of two and its operands have at most 32 bits, so every
  \<open>double\<close> it computes is exact; the fraction is dropped where the result is stored in an \<open>int\<close>. The
  difference is taken in \<open>uint32_t\<close> and converted to the \<open>int\<close> that \<open>abs\<close> takes.
\<close>

definition update_rtt :: "os_env \<Rightarrow> u32 \<Rightarrow> unit rs_io" where
  "update_rtt env sample_rtt = (\<lambda>s.
     let alpha = 1 / 8; beta = 1 / 4 in
     bind_io (of_option (double_to_int ((1 - alpha) * of_int (estimated_rtt s)
                                        + alpha * of_int (uint sample_rtt))))
       (\<lambda>est. then_io (upd (\<lambda>s. s\<lparr>estimated_rtt := est\<rparr>))
         (bind_io (of_option (checked_int \<bar>uint32_to_int (sample_rtt - to_uint32 est)\<bar>))
           (\<lambda>a. bind_io (of_option (double_to_int ((1 - beta) * of_int (dev_rtt s) + beta * of_int a)))
             (\<lambda>dev. then_io (upd (\<lambda>s. s\<lparr>dev_rtt := dev\<rparr>)) (rtt_timeout env))))) s)"

section \<open>The receive loops\<close>

text \<open>
  One iteration: what the body does before \<open>receive\<close>, the receive, and what the body does with
  its result; the body gives \<open>None\<close> to go on and \<open>Some\<close> to leave the loop. A handler sees the
  exceptions of \<open>receive\<close> and passes on the ones its \<open>catch\<close> clauses do not name.
\<close>

fun recv_loop :: "os_env \<Rightarrow> 't rs_io \<Rightarrow> ('t \<Rightarrow> (sock_exn, nat) outcome \<Rightarrow> 'a option rs_io)
    \<Rightarrow> rx_event list \<Rightarrow> ReliableSocket \<Rightarrow> (sock_exn, 'a) outcome \<times> (rx_event list \<times> ReliableSocket)"
  where
  "recv_loop env pre body [] s =
     (case pre s of (Ret _, s1) \<Rightarrow> (Blocked, ([], s1)) | (q, s1) \<Rightarrow> (pass q, ([], s1)))"
| "recv_loop env pre body (e # evs) s =
     (case pre s of
        (Ret t, s1) \<Rightarrow>
          (case receive env e s1 of (r, s2) \<Rightarrow>
            (case body t r s2 of
               (Ret None, s3) \<Rightarrow> recv_loop env pre body evs s3
             | (Ret (Some x), s3) \<Rightarrow> (Ret x, (evs, s3))
             | (q, s3) \<Rightarrow> (pass q, (evs, s3))))
      | (q, s1) \<Rightarrow> (pass q, (e # evs, s1)))"

definition loop :: "os_env \<Rightarrow> 't rs_io \<Rightarrow> ('t \<Rightarrow> (sock_exn, nat) outcome \<Rightarrow> 'a option rs_io)
    \<Rightarrow> 'a script_io" where
  "loop env pre body = (\<lambda>(evs, s). recv_loop env pre body evs s)"

section \<open>Opening a connection\<close>

definition await_conn :: "unit \<Rightarrow> (sock_exn, nat) outcome \<Rightarrow> unit option rs_io" where
  "await_conn _ r = (case r of
      Ret _ \<Rightarrow> bind_io parse_received
        (\<lambda>seg. ret (if get_type seg = RDT_CONN then Some () else None))
    | q \<Rightarrow> halt (pass q))"

definition await_ack3 :: "os_env \<Rightarrow> unit \<Rightarrow> (sock_exn, nat) outcome \<Rightarrow> unit option rs_io" where
  "await_ack3 env _ r = (case r of
      Ret _ \<Rightarrow> bind_io parse_received
        (\<lambda>seg. if get_type seg = RDT_ACK \<and> get_ack_number seg = 3 then ret (Some ())
               else if get_type seg = RDT_CONN then then_io (send_ack env 2) (ret None)
               else ret None)
    | Throw SocketTimeout \<Rightarrow> then_io (send_ack env 2) (ret None)
    | q \<Rightarrow> halt (pass q))"

definition accept_ack2 :: "os_env \<Rightarrow> unit rs_io" where
  "accept_ack2 env = then_io (send_ack env 2) (rtt_timeout env)"

definition accept_connection :: "os_env \<Rightarrow> unit script_io" where
  "accept_connection env = (\<lambda>(evs, s).
     if state s \<noteq> INIT then (Exit_Failure, (evs, s))
     else then_io (on_rs (on_socket (us_bind env)))
       (then_io (loop env fill_zero await_conn)
         (then_io (on_rs (accept_ack2 env))
           (then_io (loop env fill_zero (await_ack3 env))
             (on_rs (set_state WAIT_DATA0))))) (evs, s))"

definition await_ack2 :: "unit \<Rightarrow> (sock_exn, nat) outcome \<Rightarrow> unit option rs_io" where
  "await_ack2 _ r = (case r of
      Ret _ \<Rightarrow> bind_io parse_received
        (\<lambda>seg. ret (if get_type seg = RDT_ACK \<and> get_ack_number seg = 2 then Some () else None))
    | Throw SocketTimeout \<Rightarrow> ret None
    | q \<Rightarrow> halt (pass q))"

definition connect_start :: "os_env \<Rightarrow> bytes rs_io" where
  "connect_start env = (\<lambda>s.
     let conn_message = RDTSegment_control (padding env s) 0 0 RDT_CONN in
     then_io (on_socket (us_connect env))
       (then_io (rtt_timeout env)
         (then_io (set_state WAIT_HS2)
           (of_option (copy_to conn_message (seg_buffer conn_message))))) s)"

definition connect_send :: "os_env \<Rightarrow> bytes \<Rightarrow> unit rs_io" where
  "connect_send env buf = then_io (send_buffer env buf) fill_zero"

definition connect_finish :: "os_env \<Rightarrow> unit rs_io" where
  "connect_finish env =
     then_io (set_state WAIT_HS3) (then_io (send_ack env 3) (set_state WAIT_SEND))"

definition connect_to_remote :: "os_env \<Rightarrow> unit script_io" where
  "connect_to_remote env = (\<lambda>(evs, s).
     if state s \<noteq> INIT then (Exit_Failure, (evs, s))
     else bind_io (on_rs (connect_start env))
       (\<lambda>buf. then_io (loop env (connect_send env buf) await_ack2) (on_rs (connect_finish env)))
       (evs, s))"

section \<open>Sending data\<close>

definition expected_ack :: "RDTSegment \<Rightarrow> u8 option" where
  "expected_ack g = (if get_type g = RDT_DATA then Some (get_sequence_number g)
                     else if get_type g = RDT_CLOSE then Some 4 else None)"

definition resend :: "os_env \<Rightarrow> bytes \<Rightarrow> int rs_io" where
  "resend env buf = bind_io (read_clock env)
     (\<lambda>time_sent. then_io (send_buffer env buf) (then_io fill_zero (ret time_sent)))"

definition await_ack :: "os_env \<Rightarrow> RDTSegment \<Rightarrow> u8 \<Rightarrow> int \<Rightarrow> (sock_exn, nat) outcome
    \<Rightarrow> unit option rs_io" where
  "await_ack env g expect_ack time_sent r = (case r of
      Ret _ \<Rightarrow> bind_io (read_clock env)
        (\<lambda>time_received. bind_io (of_option (checked_int (time_received - time_sent)))
          (\<lambda>rtt. bind_io parse_received
            (\<lambda>response. then_io (log_segment response)
              (if get_type response = RDT_ACK \<and> get_ack_number response = expect_ack
               then then_io (if get_type g = RDT_DATA then update_rtt env (to_uint32 rtt) else ret ())
                      (ret (Some ()))
               else ret None))))
    | Throw SocketTimeout \<Rightarrow> ret None
    | Throw ConnectionClosed \<Rightarrow> halt Exit_Failure
    | q \<Rightarrow> halt (pass q))"

definition send_until_acked :: "os_env \<Rightarrow> RDTSegment \<Rightarrow> unit script_io" where
  "send_until_acked env g =
     then_io (on_rs (log_segment g))
       (bind_io (of_option (copy_to g (seg_buffer g)))
         (\<lambda>buf. case expected_ack g of
             None \<Rightarrow> on_rs (send_buffer env buf)
           | Some a \<Rightarrow> loop env (resend env buf) (await_ack env g a)))"

definition data_segment :: "os_env \<Rightarrow> ReliableSocket \<Rightarrow> bytes \<Rightarrow> RDTSegment" where
  "data_segment env s data = RDTSegment_data (padding env s) (sequence_number s) 0 RDT_DATA data"

definition wait_ack_state :: "ReliableSocket \<Rightarrow> connection_status" where
  "wait_ack_state s = (if sequence_number s = 0 then WAIT_ACK0 else WAIT_ACK1)"

definition send_finish :: "unit rs_io" where
  "send_finish = upd (\<lambda>s. s\<lparr>sequence_number := 1 - sequence_number s, state := WAIT_SEND\<rparr>)"

definition send_data :: "os_env \<Rightarrow> bytes \<Rightarrow> unit script_io" where
  "send_data env data = (\<lambda>(evs, s).
     if state s \<noteq> WAIT_SEND then (Ret (), (evs, s))
     else then_io (on_rs (set_state (wait_ack_state s)))
       (then_io (send_until_acked env (data_segment env s data)) (on_rs send_finish)) (evs, s))"

section \<open>Receiving data\<close>

definition expected_seq :: "ReliableSocket \<Rightarrow> u8" where
  "expected_seq s = (if state s = WAIT_DATA0 then 0 else 1)"

definition flip_data_state :: "unit rs_io" where
  "flip_data_state = upd (\<lambda>s. s\<lparr>state := (if state s = WAIT_DATA0 then WAIT_DATA1 else WAIT_DATA0)\<rparr>)"

definition await_data :: "os_env \<Rightarrow> u8 \<Rightarrow> bytes \<Rightarrow> unit \<Rightarrow> (sock_exn, nat) outcome
    \<Rightarrow> (u16 \<times> bytes) option rs_io" where
  "await_data env expected buffer _ r = (case r of
      Ret _ \<Rightarrow> bind_io parse_received
        (\<lambda>seg. then_io (log_segment seg)
          (if get_type seg = RDT_DATA then
             (if get_sequence_number seg = expected then
                then_io (send_ack env expected)
                  (then_io flip_data_state
                    (bind_io (of_option (copy_payload_to seg buffer))
                      (\<lambda>b. ret (Some (get_payload_size seg, b)))))
              else then_io (send_ack env (1 - expected)) (ret None))
           else if get_type seg = RDT_CLOSE then
             then_io (send_ack env 4) (then_io (set_state CLOSING) (ret (Some (0, buffer))))
           else ret None))
    | Throw ConnectionClosed \<Rightarrow> halt Exit_Failure
    | q \<Rightarrow> halt (pass q))"

definition receive_start :: "os_env \<Rightarrow> unit rs_io" where
  "receive_start env = then_io fill_zero (set_timeout env 0)"

definition receive_data :: "os_env \<Rightarrow> bytes \<Rightarrow> (u16 \<times> bytes) script_io" where
  "receive_data env buffer = (\<lambda>(evs, s).
     if state s \<noteq> WAIT_DATA0 \<and> state s \<noteq> WAIT_DATA1 then (Ret (0, buffer), (evs, s))
     else then_io (on_rs (receive_start env))
       (loop env (ret ()) (await_data env (expected_seq s) buffer)) (evs, s))"

section \<open>Closing\<close>

definition await_quiet :: "os_env \<Rightarrow> unit \<Rightarrow> (sock_exn, nat) outcome \<Rightarrow> unit option rs_io" where
  "await_quiet env _ r = (case r of
      Ret _ \<Rightarrow> bind_io parse_received
        (\<lambda>seg. if get_type seg = RDT_CLOSE then then_io (send_ack env 4) (ret None) else ret None)
    | Throw _ \<Rightarrow> ret (Some ())
    | q \<Rightarrow> halt (pass q))"

definition close_segment :: "os_env \<Rightarrow> ReliableSocket \<Rightarrow> RDTSegment" where
  "close_segment env s = RDTSegment_control (padding env s) 4 0 RDT_CLOSE"

definition close_connection :: "os_env \<Rightarrow> unit script_io" where
  "close_connection env = (\<lambda>(evs, s).
     then_io
       (if state s = WAIT_SEND then
          then_io (send_until_acked env (close_segment env s)) (on_rs (set_state CLOSED))
        else if state s = CLOSING then
          then_io (on_rs (set_timeout env 2000))
            (then_io (loop env fill_zero (await_quiet env)) (on_rs (set_state CLOSED)))
        else ret ())
       (on_rs (on_socket us_close)) (evs, s))"

section \<open>What the small steps do\<close>

definition ack_frame :: "u8 \<Rightarrow> frame" where
  "ack_frame n = \<lparr>fr_type = RDT_ACK, fr_seq = 0, fr_ack = n, fr_payload = []\<rparr>"

text \<open>A send on a socket that is not connected is dropped with a warning.\<close>

lemma send_buffer_eq [io_simps]:
  "send_buffer env b s =
     (if \<not> connected (socket s) then (Ret (), s)
      else if send_fails env (length (tx (socket s))) then (Exit_Failure, s)
      else (Ret (), s\<lparr>socket := (socket s)\<lparr>tx := tx (socket s) @ [b]\<rparr>\<rparr>))"
  by (simp add: send_buffer_def on_socket_def us_send_def)

lemma send_ack_eq [io_simps]:
  "send_ack env n s =
     (if \<not> connected (socket s) then (Ret (), s)
      else if send_fails env (length (tx (socket s))) then (Exit_Failure, s)
      else (Ret (), s\<lparr>socket := (socket s)\<lparr>tx := tx (socket s) @ [wire (padding env s) (ack_frame n)]\<rparr>\<rparr>))"
  by (simp add: send_ack_def Let_def copy_to_control bind_io_def of_option_def ret_def
      ack_frame_def send_buffer_eq)

lemma pass_eq_self [simp]: "(\<And>x. q \<noteq> Ret x) \<Longrightarrow> pass q = q"
  by (cases q) auto

lemma then_io_split:
  "then_io m k st = (case m st of (Ret _, st') \<Rightarrow> k st' | (q, st') \<Rightarrow> (pass q, st'))"
  by (auto simp: then_io_def bind_io_def split: outcome.splits prod.splits)

lemma bind_io_split:
  "bind_io m f st = (case m st of (Ret x, st') \<Rightarrow> f x st' | (q, st') \<Rightarrow> (pass q, st'))"
  by (auto simp: bind_io_def split: outcome.splits prod.splits)

lemma log_segment_cases:
  obtains "log_segment g s = (Ret (), s)" | "log_segment g s = (Exit_Failure, s)"
  by (cases "segment_to_string g") (auto simp: log_segment_def io_simps)

lemma on_rs_apply [io_simps]: "on_rs m (evs, s) = (case m s of (r, s') \<Rightarrow> (r, (evs, s')))"
  by (simp add: on_rs_def)

lemma loop_apply: "loop env pre body (evs, s) = recv_loop env pre body evs s"
  by (simp add: loop_def)

lemma parse_received_state: "parse_received s = (r, s') \<Longrightarrow> s' = s"
  by (cases "RDTSegment_parse (seg_buf s)") (auto simp: parse_received_def io_simps)

lemma receive_state:
  "receive env e s = (r, s') \<Longrightarrow> state s' = state s \<and> tx (socket s') = tx (socket s)
     \<and> sequence_number s' = sequence_number s"
  using us_receive_frame
  by (fastforce simp: receive_def split: prod.splits outcome.splits)

text \<open>What every piece of a loop keeps, the loop keeps.\<close>

lemma recv_loop_keeps:
  assumes "recv_loop env pre body evs s = (q, (evs', s'))" and "P s"
    and pre: "\<And>s q s'. pre s = (q, s') \<Longrightarrow> P s \<Longrightarrow> P s'"
    and rcv: "\<And>e s q s'. receive env e s = (q, s') \<Longrightarrow> P s \<Longrightarrow> P s'"
    and body: "\<And>t r s q s'. body t r s = (q, s') \<Longrightarrow> P s \<Longrightarrow> P s'"
  shows "P s'"
  using assms(1,2)
proof (induction evs arbitrary: s)
  case Nil
  then show ?case by (auto split: outcome.splits prod.splits dest: pre)
next
  case (Cons e evs)
  show ?case
  proof (cases "pre s")
    case (Pair q1 s1)
    with Cons.prems have P1: "P s1" by (auto dest: pre)
    show ?thesis
    proof (cases "receive env e s1")
      case r: (Pair r s2)
      with P1 have P2: "P s2" by (auto dest: rcv)
      then have "body t r s2 = (q3, s3) \<Longrightarrow> P s3" for t q3 s3
        using body by blast
      with Cons.prems(1) Pair r P1 show ?thesis
        by (auto split: outcome.splits prod.splits option.splits dest: Cons.IH)
    qed
  qed
qed

end
