(* ===== verification/Rdt_Process.thy ===== *)
theory Rdt_Process
  imports Reliable_Socket
begin

text \<open>
  The two programs of project 4 (\<open>sender.cpp\<close>, \<open>receiver.cpp\<close>), first as the code composes them
  from the socket's methods, then as processes that wait in \<open>recv\<close> and react to its result. The
  processes are built from the same loop bodies; \<open>sender_refines\<close> and \<open>receiver_refines\<close> show
  that a process fed with a script ends as the program does on that script.
\<close>

section \<open>The programs\<close>

text \<open>
  \<open>sender.cpp\<close> reads the file in blocks of \<open>MAX_DATA_SIZE\<close> bytes until a read comes up short, which is
  what sets \<open>eof\<close>; the short block is sent too, whatever its length.
\<close>

function read_chunks :: "bytes \<Rightarrow> bytes list" where
  "read_chunks file =
     (if length file < MAX_DATA_SIZE then [file]
      else take MAX_DATA_SIZE file # read_chunks (drop MAX_DATA_SIZE file))"
  by pat_completeness auto
termination
  by (relation "measure length") (auto simp: MAX_DATA_SIZE_def MAX_SEG_SIZE_def sizeof_RDTHeader_def)

declare read_chunks.simps [simp del]

fun send_all :: "os_env \<Rightarrow> bytes list \<Rightarrow> unit script_io" where
  "send_all env [] = ret ()"
| "send_all env (c # cs) = then_io (send_data env c) (send_all env cs)"

definition sender_main :: "os_env \<Rightarrow> bytes \<Rightarrow> unit script_io" where
  "sender_main env file =
     then_io (connect_to_remote env) (then_io (send_all env (read_chunks file)) (close_connection env))"

lemma recv_loop_shorter:
  "recv_loop env pre body evs s = (Ret x, (evs', s')) \<Longrightarrow> length evs' < length evs"
proof (induction evs arbitrary: s)
  case Nil
  then show ?case by (auto split: outcome.splits prod.splits elim: pass.elims)
next
  case (Cons e evs)
  from Cons.prems show ?case
    by (auto split: outcome.splits prod.splits option.splits elim: pass.elims dest: Cons.IH)
qed

lemma receive_data_shorter:
  assumes "receive_data env buf (evs, s) = (Ret (n, b), (evs', s'))" and "n \<noteq> 0"
  shows "length evs' < length evs"
  using assms recv_loop_shorter
  by (auto simp: receive_data_def then_io_def loop_def on_rs_apply split: if_splits prod.splits
      elim!: bind_io_RetE)

function receive_all :: "os_env \<Rightarrow> bytes \<Rightarrow> rx_event list \<Rightarrow> ReliableSocket \<Rightarrow> bytes
    \<Rightarrow> (sock_exn, unit) outcome \<times> bytes \<times> (rx_event list \<times> ReliableSocket)" where
  "receive_all env buf evs s out =
     (case receive_data env buf (evs, s) of
        (Ret (n, b), (evs', s')) \<Rightarrow>
          if n = 0 then (Ret (), (out, (evs', s')))
          else receive_all env b evs' s' (out @ take (unat n) b)
      | (q, st) \<Rightarrow> (pass q, (out, st)))"
  by pat_completeness auto
termination
  by (relation "measure (\<lambda>(env, buf, evs, s, out). length evs)") (auto dest: receive_data_shorter [OF sym])

declare receive_all.simps [simp del]

text \<open>\<open>receiver.cpp\<close>: the result, and the bytes written to the output file.\<close>

definition receiver_main :: "os_env \<Rightarrow> bytes \<Rightarrow> rx_event list \<times> ReliableSocket
    \<Rightarrow> (sock_exn, unit) outcome \<times> bytes \<times> (rx_event list \<times> ReliableSocket)" where
  "receiver_main env segment st =
     (case accept_connection env st of
        (Ret _, (evs, s)) \<Rightarrow>
          (case receive_all env segment evs s [] of
             (Ret _, (out, st')) \<Rightarrow> (case close_connection env st' of (r, st'') \<Rightarrow> (r, (out, st'')))
           | res \<Rightarrow> res)
      | (q, st') \<Rightarrow> (q, ([], st')))"

section \<open>Processes waiting in recv\<close>

text \<open>
  \<open>enter\<close> runs a loop up to its \<open>receive\<close>; \<open>iterate\<close> hands it one result of \<open>recv\<close> and runs it to
  the next \<open>receive\<close>, or to what follows the loop (\<open>fin\<close>). A configuration is made by \<open>mk\<close>
  (waiting) or \<open>stop\<close> (the program ended, or was ended).
\<close>

datatype 'p proc = Wait 'p | Stop "(sock_exn, unit) outcome"

definition enter :: "'t rs_io \<Rightarrow> ('t \<Rightarrow> ReliableSocket \<Rightarrow> 'c)
    \<Rightarrow> ((sock_exn, unit) outcome \<Rightarrow> ReliableSocket \<Rightarrow> 'c) \<Rightarrow> ReliableSocket \<Rightarrow> 'c" where
  "enter pre mk stop s = (case pre s of (Ret t, s1) \<Rightarrow> mk t s1 | (q, s1) \<Rightarrow> stop (pass q) s1)"

definition iterate :: "os_env \<Rightarrow> 't rs_io \<Rightarrow> ('t \<Rightarrow> (sock_exn, nat) outcome \<Rightarrow> 'a option rs_io)
    \<Rightarrow> ('t \<Rightarrow> ReliableSocket \<Rightarrow> 'c) \<Rightarrow> ((sock_exn, unit) outcome \<Rightarrow> ReliableSocket \<Rightarrow> 'c)
    \<Rightarrow> ('a \<Rightarrow> ReliableSocket \<Rightarrow> 'c) \<Rightarrow> 't \<Rightarrow> rx_event \<Rightarrow> ReliableSocket \<Rightarrow> 'c" where
  "iterate env pre body mk stop fin t e s =
     (case receive env e s of (r, s2) \<Rightarrow>
       (case body t r s2 of
          (Ret None, s3) \<Rightarrow> enter pre mk stop s3
        | (Ret (Some x), s3) \<Rightarrow> fin x s3
        | (q, s3) \<Rightarrow> stop (pass q) s3))"

text \<open>
  The contract between a loop and the process that runs it. \<open>obs\<close> is what is seen of a configuration
  when the script ends.
\<close>

locale loop_process =
  fixes env :: os_env
    and pre :: "'t rs_io"
    and body :: "'t \<Rightarrow> (sock_exn, nat) outcome \<Rightarrow> 'a option rs_io"
    and react :: "rx_event \<Rightarrow> 'c \<Rightarrow> 'c"
    and mk :: "'t \<Rightarrow> ReliableSocket \<Rightarrow> 'c"
    and stop :: "(sock_exn, unit) outcome \<Rightarrow> ReliableSocket \<Rightarrow> 'c"
    and fin :: "'a \<Rightarrow> ReliableSocket \<Rightarrow> 'c"
    and obs :: "'c \<Rightarrow> 'r"
    and res :: "(sock_exn, unit) outcome \<Rightarrow> ReliableSocket \<Rightarrow> 'r"
  assumes react_mk: "react e (mk t s) = iterate env pre body mk stop fin t e s"
    and react_stop: "react e (stop q s) = stop q s"
    and obs_mk: "obs (mk t s) = res Blocked s"
    and obs_stop: "obs (stop q s) = res q s"
begin

lemma stopped: "fold react evs (stop q s) = stop q s"
  by (induction evs) (simp_all add: react_stop)

lemma loop_run:
  "obs (fold react evs (enter pre mk stop s)) =
     (case recv_loop env pre body evs s of
        (Ret x, (evs', s')) \<Rightarrow> obs (fold react evs' (fin x s'))
      | (q, (_, s')) \<Rightarrow> res (pass q) s')"
proof (induction evs arbitrary: s)
  case Nil
  show ?case
    by (auto simp: enter_def obs_mk obs_stop split: outcome.splits prod.splits)
next
  case (Cons e evs)
  have stay: "obs (fold react (e # evs) (stop q s')) = res q s'" for q s'
    using stopped [of "e # evs" q s'] by (simp add: obs_stop)
  have one: "obs (fold react evs (iterate env pre body mk stop fin t e s1)) =
      (case receive env e s1 of (r, s2) \<Rightarrow>
        (case body t r s2 of
           (Ret None, s3) \<Rightarrow> obs (fold react evs (enter pre mk stop s3))
         | (Ret (Some x), s3) \<Rightarrow> obs (fold react evs (fin x s3))
         | (q, s3) \<Rightarrow> res (pass q) s3))" for t s1
    by (auto simp: iterate_def stopped obs_stop split: outcome.splits prod.splits option.splits)
  have go: "fold react (e # evs) (mk t s') =
      fold react evs (iterate env pre body mk stop fin t e s')" for t s'
    by (simp add: react_mk)
  show ?case
  proof (cases "pre s")
    case (Pair q s1)
    then have start: "enter pre mk stop s = (case q of Ret t \<Rightarrow> mk t s1 | _ \<Rightarrow> stop (pass q) s1)"
      by (simp add: enter_def split: outcome.split)
    show ?thesis
      by (cases q) (auto simp: start Pair stay go one Cons.IH
          simp del: fold.simps split: outcome.splits prod.splits option.splits)
  qed
qed

end

section \<open>The sender as a process\<close>

text \<open>
  The places where the sender waits: in \<open>connect_to_remote\<close>, in \<open>send_until_acked\<close> for a data
  segment (with the buffer it resends, the segment, the acknowledgement it wants, the time of the last
  transmission and the blocks still to send), and in \<open>send_until_acked\<close> for the close request.
\<close>

datatype sender_pc =
    SConnect bytes
  | SData bytes RDTSegment u8 int "bytes list"
  | SClose bytes RDTSegment u8 int

type_synonym sender_cfg = "sender_pc proc \<times> ReliableSocket"

definition sender_stop :: "(sock_exn, unit) outcome \<Rightarrow> ReliableSocket \<Rightarrow> sender_cfg" where
  "sender_stop q s = (Stop q, s)"

definition enter_acked :: "os_env \<Rightarrow> (bytes \<Rightarrow> u8 \<Rightarrow> int \<Rightarrow> sender_pc) \<Rightarrow> RDTSegment
    \<Rightarrow> ReliableSocket \<Rightarrow> sender_cfg" where
  "enter_acked env mk g s =
     (case (log_segment g s, copy_to g (seg_buffer g), expected_ack g) of
        ((Ret _, s1), Some buf, Some a) \<Rightarrow>
          enter (resend env buf) (\<lambda>t s2. (Wait (mk buf a t), s2)) sender_stop s1
      | ((Ret _, s1), _, _) \<Rightarrow> sender_stop Undefined s1
      | ((q, s1), _, _) \<Rightarrow> sender_stop q s1)"

fun sender_next :: "os_env \<Rightarrow> bytes list \<Rightarrow> ReliableSocket \<Rightarrow> sender_cfg" where
  "sender_next env [] s = enter_acked env (\<lambda>buf a t. SClose buf (close_segment env s) a t) (close_segment env s) s"
| "sender_next env (c # cs) s =
     enter_acked env (\<lambda>buf a t. SData buf (data_segment env s c) a t cs) (data_segment env s c)
       (s\<lparr>state := wait_ack_state s\<rparr>)"

definition sender_connected :: "os_env \<Rightarrow> bytes list \<Rightarrow> unit \<Rightarrow> ReliableSocket \<Rightarrow> sender_cfg" where
  "sender_connected env chunks _ s = enter (connect_finish env) (\<lambda>_. sender_next env chunks) sender_stop s"

definition sender_acked :: "os_env \<Rightarrow> bytes list \<Rightarrow> unit \<Rightarrow> ReliableSocket \<Rightarrow> sender_cfg" where
  "sender_acked env cs _ s = enter send_finish (\<lambda>_. sender_next env cs) sender_stop s"

definition sender_closed :: "unit \<Rightarrow> ReliableSocket \<Rightarrow> sender_cfg" where
  "sender_closed _ s =
     enter (then_io (set_state CLOSED) (on_socket us_close)) (\<lambda>_. sender_stop (Ret ())) sender_stop s"

fun sender_react :: "os_env \<Rightarrow> bytes list \<Rightarrow> rx_event \<Rightarrow> sender_cfg \<Rightarrow> sender_cfg" where
  "sender_react env chunks e (Wait (SConnect buf), s) =
     iterate env (connect_send env buf) await_ack2 (\<lambda>_ s. (Wait (SConnect buf), s)) sender_stop
       (sender_connected env chunks) () e s"
| "sender_react env chunks e (Wait (SData buf g a t cs), s) =
     iterate env (resend env buf) (await_ack env g a) (\<lambda>t s. (Wait (SData buf g a t cs), s))
       sender_stop (sender_acked env cs) t e s"
| "sender_react env chunks e (Wait (SClose buf g a t), s) =
     iterate env (resend env buf) (await_ack env g a) (\<lambda>t s. (Wait (SClose buf g a t), s))
       sender_stop sender_closed t e s"
| "sender_react env chunks e (Stop q, s) = (Stop q, s)"

definition sender_start :: "os_env \<Rightarrow> sender_cfg" where
  "sender_start env = (case connect_start env ReliableSocket_new of
      (Ret buf, s1) \<Rightarrow> enter (connect_send env buf) (\<lambda>_ s. (Wait (SConnect buf), s)) sender_stop s1
    | (q, s1) \<Rightarrow> sender_stop (pass q) s1)"

fun proc_outcome :: "'p proc \<Rightarrow> (sock_exn, unit) outcome" where
  "proc_outcome (Wait p) = Blocked"
| "proc_outcome (Stop q) = q"

definition sender_obs :: "sender_cfg \<Rightarrow> (sock_exn, unit) outcome \<times> ReliableSocket" where
  "sender_obs c = (proc_outcome (fst c), snd c)"

interpretation connect_loop: loop_process env "connect_send env buf" await_ack2
    "sender_react env chunks" "\<lambda>_ s. (Wait (SConnect buf), s)" sender_stop
    "sender_connected env chunks" sender_obs Pair
  for env chunks buf
  by unfold_locales (simp_all add: sender_stop_def sender_obs_def)

interpretation data_loop: loop_process env "resend env buf" "await_ack env g a"
    "sender_react env chunks" "\<lambda>t s. (Wait (SData buf g a t cs), s)" sender_stop
    "sender_acked env cs" sender_obs Pair
  for env chunks buf g a cs
  by unfold_locales (simp_all add: sender_stop_def sender_obs_def)

interpretation close_loop: loop_process env "resend env buf" "await_ack env g a"
    "sender_react env chunks" "\<lambda>t s. (Wait (SClose buf g a t), s)" sender_stop
    sender_closed sender_obs Pair
  for env chunks buf g a
  by unfold_locales (simp_all add: sender_stop_def sender_obs_def)

text \<open>What is seen of a program's result when the script ends.\<close>

definition seen :: "(sock_exn, unit) outcome \<times> (rx_event list \<times> ReliableSocket)
    \<Rightarrow> (sock_exn, unit) outcome \<times> ReliableSocket" where
  "seen x = (fst x, snd (snd x))"

lemma enter_acked_run:
  assumes "\<And>buf. loop_process env (resend env buf) (await_ack env g a) react
      (\<lambda>t s. (Wait (mk buf a t), s)) sender_stop fin sender_obs Pair"
    and "expected_ack g = Some a"
  shows "sender_obs (fold react evs (enter_acked env mk g s)) =
    (case send_until_acked env g (evs, s) of
       (Ret x, (evs', s')) \<Rightarrow> sender_obs (fold react evs' (fin x s'))
     | (q, (_, s')) \<Rightarrow> (pass q, s'))"
proof -
  have stay: "sender_obs (fold react evs (sender_stop q s')) = (q, s')" for q s'
    using loop_process.stopped [OF assms(1)] by (simp add: sender_obs_def sender_stop_def)
  show ?thesis
  proof (rule log_segment_cases [of g s])
    assume ok: "log_segment g s = (Ret (), s)"
    show ?thesis
    proof (cases "copy_to g (seg_buffer g)")
      case None
      with ok show ?thesis
        by (simp add: enter_acked_def stay send_until_acked_def then_io_split bind_io_split
            on_rs_apply io_simps assms(2))
    next
      case (Some buf)
      with ok have "enter_acked env mk g s =
          enter (resend env buf) (\<lambda>t s. (Wait (mk buf a t), s)) sender_stop s"
        by (simp add: enter_acked_def assms(2))
      with Some ok loop_process.loop_run [OF assms(1), of evs buf s] show ?thesis
        by (simp add: send_until_acked_def then_io_split bind_io_split on_rs_apply io_simps
            assms(2) loop_def)
    qed
  next
    assume "log_segment g s = (Exit_Failure, s)"
    then show ?thesis
      by (simp add: enter_acked_def stay send_until_acked_def then_io_split on_rs_apply)
  qed
qed

lemma expected_ack_close [simp]: "expected_ack (close_segment env s) = Some 4"
  by (simp add: expected_ack_def close_segment_def segment_defs)

lemma expected_ack_data [simp]: "expected_ack (data_segment env s c) = Some (sequence_number s)"
  by (simp add: expected_ack_def data_segment_def segment_defs)

lemma sender_stop_run:
  "sender_obs (fold (sender_react env chunks) evs (sender_stop q s)) = (q, s)"
  using close_loop.stopped [of env chunks evs q s] by (simp add: sender_obs_def sender_stop_def)

lemma sender_next_run:
  assumes "state s = WAIT_SEND"
  shows "sender_obs (fold (sender_react env chunks) evs (sender_next env cs s)) =
    seen (then_io (send_all env cs) (close_connection env) (evs, s))"
  using assms
proof (induction cs arbitrary: evs s)
  case Nil
  have "sender_obs (fold (sender_react env chunks) evs' (sender_closed x s')) =
      (Ret (), s'\<lparr>state := CLOSED, socket := (socket s')\<lparr>fd_open := False\<rparr>\<rparr>)" for evs' x s'
    by (simp add: sender_closed_def enter_def then_io_split set_state_def us_close_def
        on_socket_def io_simps sender_stop_run)
  note fin = this
  let ?g = "close_segment env s"
  have "sender_obs (fold (sender_react env chunks) evs (sender_next env [] s)) =
    (case send_until_acked env ?g (evs, s) of
       (Ret x, (evs', s')) \<Rightarrow> sender_obs (fold (sender_react env chunks) evs' (sender_closed x s'))
     | (q, (_, s')) \<Rightarrow> (pass q, s'))"
    unfolding sender_next.simps
    by (rule enter_acked_run [OF close_loop.loop_process_axioms]) simp
  with Nil.prems show ?case
    by (auto simp: fin close_connection_def then_io_split on_rs_apply set_state_def
        us_close_def on_socket_def io_simps seen_def split: outcome.splits prod.splits)
next
  case (Cons c cs)
  have fin: "sender_obs (fold (sender_react env chunks) evs' (sender_acked env cs x s')) =
      seen (then_io (send_all env cs) (close_connection env)
        (evs', s'\<lparr>sequence_number := 1 - sequence_number s', state := WAIT_SEND\<rparr>))" for evs' x s'
    by (simp add: sender_acked_def enter_def send_finish_def io_simps Cons.IH)
  let ?g = "data_segment env s c"
  let ?s = "s\<lparr>state := wait_ack_state s\<rparr>"
  have "sender_obs (fold (sender_react env chunks) evs (sender_next env (c # cs) s)) =
    (case send_until_acked env ?g (evs, ?s) of
       (Ret x, (evs', s')) \<Rightarrow> sender_obs (fold (sender_react env chunks) evs' (sender_acked env cs x s'))
     | (q, (_, s')) \<Rightarrow> (pass q, s'))"
    unfolding sender_next.simps
    by (rule enter_acked_run [OF data_loop.loop_process_axioms]) simp
  with Cons.prems show ?case
    by (auto simp: fin send_data_def then_io_split on_rs_apply set_state_def
        send_finish_def io_simps seen_def split: outcome.splits prod.splits)
qed

text \<open>C9: Fed with the results of its receives one at a time, the sender process ends as
  the sender program does on the whole list: same result, same socket, same datagrams sent.\<close>

theorem sender_refines:
  "seen (sender_main env file (evs, ReliableSocket_new)) =
     sender_obs (fold (sender_react env (read_chunks file)) evs (sender_start env))"
proof -
  let ?cs = "read_chunks file"
  have fin: "sender_obs (fold (sender_react env ?cs) evs' (sender_connected env ?cs x s')) =
      seen (then_io (on_rs (connect_finish env))
        (then_io (send_all env ?cs) (close_connection env)) (evs', s'))" for evs' x s'
    by (auto simp: sender_connected_def enter_def connect_finish_def then_io_split set_state_def
        on_rs_apply io_simps seen_def sender_stop_run sender_next_run split: outcome.splits prod.splits)
  show ?thesis
  proof (cases "connect_start env ReliableSocket_new")
    case (Pair q s1)
    then show ?thesis
      using connect_loop.loop_run [of env ?cs evs _ s1]
      by (cases q) (auto simp: sender_main_def sender_start_def connect_to_remote_def
          ReliableSocket_new_def then_io_split bind_io_split on_rs_apply fin loop_def
          sender_stop_run seen_def split: outcome.splits prod.splits)
  qed
qed

section \<open>The receiver as a process\<close>

text \<open>
  The receiver waits for a connection, for the third message of the handshake, for data (with the
  number it expects and the array the program passed), or for the line to stay quiet before it
  closes. Beside its socket it has the bytes written to the output file. \<open>segment0\<close> is what the
  program's array holds before the first call.
\<close>

datatype receiver_pc = RConn bytes | RAck3 bytes | RData u8 bytes | RQuiet

type_synonym receiver_cfg = "receiver_pc proc \<times> ReliableSocket \<times> bytes"

definition receiver_stop :: "bytes \<Rightarrow> (sock_exn, unit) outcome \<Rightarrow> ReliableSocket \<Rightarrow> receiver_cfg" where
  "receiver_stop out q s = (Stop q, s, out)"

definition receiver_close :: "os_env \<Rightarrow> bytes \<Rightarrow> ReliableSocket \<Rightarrow> receiver_cfg" where
  "receiver_close env out s =
     (if state s = CLOSING then
        enter (then_io (set_timeout env 2000) fill_zero) (\<lambda>_ s. (Wait RQuiet, s, out)) (receiver_stop out) s
      else enter (on_socket us_close) (\<lambda>_. receiver_stop out (Ret ())) (receiver_stop out) s)"

definition receiver_data :: "os_env \<Rightarrow> bytes \<Rightarrow> bytes \<Rightarrow> ReliableSocket \<Rightarrow> receiver_cfg" where
  "receiver_data env buf out s =
     enter (receive_start env) (\<lambda>_ s1. (Wait (RData (expected_seq s) buf), s1, out)) (receiver_stop out) s"

definition receiver_got :: "os_env \<Rightarrow> bytes \<Rightarrow> u16 \<times> bytes \<Rightarrow> ReliableSocket \<Rightarrow> receiver_cfg" where
  "receiver_got env out = (\<lambda>(n, b) s.
     if n = 0 then receiver_close env out s
     else if state s = WAIT_DATA0 \<or> state s = WAIT_DATA1
     then receiver_data env b (out @ take (unat n) b) s
     else receiver_close env (out @ take (unat n) b) s)"

definition receiver_requested :: "os_env \<Rightarrow> bytes \<Rightarrow> unit \<Rightarrow> ReliableSocket \<Rightarrow> receiver_cfg" where
  "receiver_requested env buf _ s =
     enter (then_io (accept_ack2 env) fill_zero) (\<lambda>_ s. (Wait (RAck3 buf), s, [])) (receiver_stop []) s"

definition receiver_opened :: "os_env \<Rightarrow> bytes \<Rightarrow> unit \<Rightarrow> ReliableSocket \<Rightarrow> receiver_cfg" where
  "receiver_opened env buf _ s = receiver_data env buf [] (s\<lparr>state := WAIT_DATA0\<rparr>)"

definition receiver_quiet :: "bytes \<Rightarrow> unit \<Rightarrow> ReliableSocket \<Rightarrow> receiver_cfg" where
  "receiver_quiet out _ s =
     enter (then_io (set_state CLOSED) (on_socket us_close)) (\<lambda>_. receiver_stop out (Ret ()))
       (receiver_stop out) s"

fun receiver_react :: "os_env \<Rightarrow> rx_event \<Rightarrow> receiver_cfg \<Rightarrow> receiver_cfg" where
  "receiver_react env e (Wait (RConn buf), s, out) =
     iterate env fill_zero await_conn (\<lambda>_ s. (Wait (RConn buf), s, [])) (receiver_stop [])
       (receiver_requested env buf) () e s"
| "receiver_react env e (Wait (RAck3 buf), s, out) =
     iterate env fill_zero (await_ack3 env) (\<lambda>_ s. (Wait (RAck3 buf), s, [])) (receiver_stop [])
       (receiver_opened env buf) () e s"
| "receiver_react env e (Wait (RData a buf), s, out) =
     iterate env (ret ()) (await_data env a buf) (\<lambda>_ s. (Wait (RData a buf), s, out))
       (receiver_stop out) (receiver_got env out) () e s"
| "receiver_react env e (Wait RQuiet, s, out) =
     iterate env fill_zero (await_quiet env) (\<lambda>_ s. (Wait RQuiet, s, out)) (receiver_stop out)
       (receiver_quiet out) () e s"
| "receiver_react env e (Stop q, s, out) = (Stop q, s, out)"

definition receiver_start :: "os_env \<Rightarrow> bytes \<Rightarrow> receiver_cfg" where
  "receiver_start env segment0 =
     enter (then_io (on_socket (us_bind env)) fill_zero) (\<lambda>_ s. (Wait (RConn segment0), s, []))
       (receiver_stop []) ReliableSocket_new"

definition receiver_obs :: "receiver_cfg \<Rightarrow> (sock_exn, unit) outcome \<times> bytes \<times> ReliableSocket" where
  "receiver_obs c = (case c of (p, s, out) \<Rightarrow> (proc_outcome p, out, s))"

interpretation conn_loop: loop_process env fill_zero await_conn
    "receiver_react env" "\<lambda>_ s. (Wait (RConn buf), s, [])" "receiver_stop []"
    "receiver_requested env buf" receiver_obs "\<lambda>q s. (q, [], s)"
  for env buf
  by unfold_locales (simp_all add: receiver_stop_def receiver_obs_def)

interpretation ack3_loop: loop_process env fill_zero "await_ack3 env"
    "receiver_react env" "\<lambda>_ s. (Wait (RAck3 buf), s, [])" "receiver_stop []"
    "receiver_opened env buf" receiver_obs "\<lambda>q s. (q, [], s)"
  for env buf
  by unfold_locales (simp_all add: receiver_stop_def receiver_obs_def)

interpretation recv_data_loop: loop_process env "ret ()" "await_data env a buf"
    "receiver_react env" "\<lambda>_ s. (Wait (RData a buf), s, out)" "receiver_stop out"
    "receiver_got env out" receiver_obs "\<lambda>q s. (q, out, s)"
  for env a buf out
  by unfold_locales (simp_all add: receiver_stop_def receiver_obs_def)

interpretation quiet_loop: loop_process env fill_zero "await_quiet env"
    "receiver_react env" "\<lambda>_ s. (Wait RQuiet, s, out)" "receiver_stop out"
    "receiver_quiet out" receiver_obs "\<lambda>q s. (q, out, s)"
  for env out
  by unfold_locales (simp_all add: receiver_stop_def receiver_obs_def)

lemma receiver_stop_run:
  "receiver_obs (fold (receiver_react env) evs (receiver_stop out q s)) = (q, out, s)"
  using recv_data_loop.stopped [where evs = evs and out = out and env = env and q = q and s = s] by (simp add: receiver_obs_def receiver_stop_def)

text \<open>A receive leaves the socket waiting for data or closing.\<close>

definition receiving_state :: "ReliableSocket \<Rightarrow> bool" where
  "receiving_state s \<longleftrightarrow> state s \<in> {WAIT_DATA0, WAIT_DATA1, CLOSING}"

lemma log_segment_state: "log_segment g s = (q, s') \<Longrightarrow> s' = s"
  by (rule log_segment_cases [of g s]) auto

lemma send_ack_state: "send_ack env n s = (q, s') \<Longrightarrow> state s' = state s"
  by (auto simp: io_simps split: if_splits)

lemma of_option_state: "of_option x s = (q, s') \<Longrightarrow> s' = s"
  by (cases x) (auto simp: io_simps)

lemma await_data_receiving:
  assumes "await_data env a b t r s = (q, s')" and "receiving_state s"
  shows "receiving_state s'"
proof (cases r)
  case (Ret n)
  have flip: "receiving_state s3" if "flip_data_state s2 = (q3, s3)" for s2 s3 q3
    using that by (auto simp: flip_data_state_def io_simps receiving_state_def split: if_splits)
  have closing: "receiving_state s3" if "set_state CLOSING s2 = (q3, s3)" for s2 s3 q3
    using that by (auto simp: set_state_def io_simps receiving_state_def)
  from Ret assms show ?thesis
    unfolding receiving_state_def
    by (auto simp: await_data_def then_io_split bind_io_split io_simps(1)
        split: outcome.splits prod.splits if_splits
        dest!: parse_received_state log_segment_state send_ack_state of_option_state
          flip [unfolded receiving_state_def] closing [unfolded receiving_state_def])
qed (use assms in \<open>auto simp: await_data_def io_simps split: sock_exn.splits\<close>)

lemma receive_data_receiving:
  assumes "receive_data env buf (evs, s) = (q, (evs', s'))" and "receiving_state s"
  shows "receiving_state s'"
proof -
  have start: "receive_start env s = (q1, s1) \<Longrightarrow> receiving_state s1" for q1 s1
    using assms(2) by (auto simp: receive_start_def then_io_split fill_zero_def set_timeout_def
        on_socket_def io_simps receiving_state_def split: if_splits)
  have "recv_loop env (ret ()) (await_data env a buf) evs s1 = (q1, (evs1, s2)) \<Longrightarrow>
      receiving_state s1 \<Longrightarrow> receiving_state s2" for a s1 q1 evs1 s2
    by (erule recv_loop_keeps [where P = receiving_state])
      (auto simp: io_simps receiving_state_def dest: receive_state await_data_receiving
        [unfolded receiving_state_def])
  with assms start show ?thesis
    by (auto simp: receive_data_def then_io_split on_rs_apply loop_def
        split: if_splits outcome.splits prod.splits)
qed

lemma receiver_close_run:
  assumes "state s \<noteq> WAIT_SEND"
  shows "receiver_obs (fold (receiver_react env) evs (receiver_close env out s)) =
    (case close_connection env (evs, s) of (r, (_, s')) \<Rightarrow> (r, out, s'))"
proof -
  have fin: "receiver_obs (fold (receiver_react env) evs' (receiver_quiet out x s')) =
      (Ret (), out, s'\<lparr>state := CLOSED, socket := (socket s')\<lparr>fd_open := False\<rparr>\<rparr>)" for evs' x s'
    by (simp add: receiver_quiet_def enter_def then_io_split set_state_def us_close_def
        on_socket_def io_simps receiver_stop_run)
  show ?thesis
  proof (cases "state s = CLOSING")
    case True
    have start: "enter (then_io (set_timeout env 2000) fill_zero) mk (receiver_stop out) s =
        (case set_timeout env 2000 s of
           (Ret _, s1) \<Rightarrow> enter fill_zero mk (receiver_stop out) s1
         | (q, s1) \<Rightarrow> receiver_stop out q s1)" for mk
      by (auto simp: enter_def then_io_split split: prod.splits outcome.splits)
    from True quiet_loop.loop_run [where evs = evs and out = out and env = env] show ?thesis
      by (auto simp: receiver_close_def start close_connection_def then_io_split on_rs_apply loop_def
          fin receiver_stop_run set_state_def us_close_def on_socket_def io_simps
          split: outcome.splits prod.splits)
  next
    case False
    with assms show ?thesis
      by (simp add: receiver_close_def enter_def close_connection_def then_io_split on_rs_apply
          us_close_def on_socket_def io_simps receiver_stop_run)
  qed
qed

definition receiver_tail :: "os_env \<Rightarrow> (sock_exn, unit) outcome \<times> bytes \<times> (rx_event list \<times> ReliableSocket)
    \<Rightarrow> (sock_exn, unit) outcome \<times> bytes \<times> ReliableSocket" where
  "receiver_tail env res = (case res of
      (Ret _, (out, st)) \<Rightarrow> (case close_connection env st of (r, (_, s')) \<Rightarrow> (r, out, s'))
    | (q, (out, (_, s'))) \<Rightarrow> (q, out, s'))"

lemma receiver_data_run:
  assumes "receiving_state s" and "state s \<noteq> CLOSING"
  shows "receiver_obs (fold (receiver_react env) evs (receiver_data env buf out s)) =
    receiver_tail env (receive_all env buf evs s out)"
  using assms
proof (induction evs arbitrary: buf s out rule: length_induct)
  case (1 evs)
  have got: "receiver_obs (fold (receiver_react env) evs' (receiver_got env out (n, b) s')) =
      (if n = 0 then (case close_connection env (evs', s') of (r, (_, s'')) \<Rightarrow> (r, out, s''))
       else receiver_tail env (receive_all env b evs' s' (out @ take (unat n) b)))"
    if "length evs' < length evs" and "receiving_state s'" for evs' n b s'
  proof (cases "state s' = CLOSING")
    case True
    then have "receive_all env b evs' s' o' = (Ret (), (o', (evs', s')))" for o'
      by (simp add: receive_all.simps receive_data_def)
    with True show ?thesis
      by (simp add: receiver_got_def receiver_close_run receiver_tail_def)
  next
    case False
    with that "1.IH" show ?thesis
      by (auto simp: receiver_got_def receiver_close_run receiving_state_def)
  qed
  let ?rd = "receive_data env buf (evs, s)"
  have run: "receiver_obs (fold (receiver_react env) evs (receiver_data env buf out s)) =
    (case ?rd of
       (Ret x, (evs', s')) \<Rightarrow> receiver_obs (fold (receiver_react env) evs' (receiver_got env out x s'))
     | (q, (_, s')) \<Rightarrow> (pass q, out, s'))"
  proof (cases "receive_start env s")
    case (Pair q s1)
    have "enter (ret ()) (\<lambda>_ s. (Wait (RData (expected_seq s0) buf), s, out)) (receiver_stop out) s1 =
        (Wait (RData (expected_seq s0) buf), s1, out)" for s0
      by (simp add: enter_def io_simps)
    with Pair recv_data_loop.loop_run [where evs = evs and out = out and env = env and buf = buf and a = "expected_seq s" and s = s1] "1.prems"
    show ?thesis
      by (cases q) (auto simp: receiver_data_def enter_def receive_data_def then_io_split on_rs_apply
          loop_def receiver_stop_run receiving_state_def)
  qed
  show ?case
  proof (cases ?rd)
    case (fields q evs' s')
    with "1.prems"(1) have rs: "receiving_state s'"
      by (auto dest: receive_data_receiving)
    have shorter: "length evs' < length evs" if "q = Ret x" for x
      using fields that "1.prems"(2) recv_loop_shorter "1.prems"(1)
      by (auto simp: receive_data_def then_io_split on_rs_apply loop_def receiving_state_def
          split: if_splits outcome.splits prod.splits)
    show ?thesis
    proof (cases q)
      case (Ret x)
      then obtain n b where "q = Ret (n, b)" by (cases x) auto
      with fields rs shorter show ?thesis
        by (simp add: run got receive_all.simps [of env buf evs s out] receiver_tail_def)
    qed (use fields in \<open>simp_all add: run receive_all.simps [of env buf evs s out] receiver_tail_def\<close>)
  qed
qed

lemma receiver_opened_run:
  "receiver_obs (fold (receiver_react env) evs (receiver_opened env buf x s)) =
     receiver_tail env (receive_all env buf evs (s\<lparr>state := WAIT_DATA0\<rparr>) [])"
  using receiver_data_run [of "s\<lparr>state := WAIT_DATA0\<rparr>" env evs buf "[]"]
  by (simp add: receiver_opened_def receiving_state_def)

text \<open>C10: The receiver process ends as the receiver program does on the same list of
  receive results: same result, same socket, same bytes written to the output file.\<close>

theorem receiver_refines:
  "(case receiver_main env segment0 (evs, ReliableSocket_new) of (r, (out, (_, s))) \<Rightarrow> (r, out, s)) =
     receiver_obs (fold (receiver_react env) evs (receiver_start env segment0))"
proof -
  let ?run = "\<lambda>evs c. receiver_obs (fold (receiver_react env) evs c)"
  have main: "(case receiver_main env segment0 (evs, ReliableSocket_new) of (r, (out, (_, s))) \<Rightarrow> (r, out, s)) =
    (case accept_connection env (evs, ReliableSocket_new) of
       (Ret _, (evs', s)) \<Rightarrow> receiver_tail env (receive_all env segment0 evs' s [])
     | (q, (_, s)) \<Rightarrow> (q, [], s))"
    by (auto simp: receiver_main_def receiver_tail_def split: outcome.splits prod.splits)
  have requested: "?run evs' (receiver_requested env segment0 () s) =
    (case then_io (on_rs (accept_ack2 env)) (then_io (loop env fill_zero (await_ack3 env))
        (on_rs (set_state WAIT_DATA0))) (evs', s) of
       (Ret _, (evs'', s')) \<Rightarrow> receiver_tail env (receive_all env segment0 evs'' s' [])
     | (q, (_, s')) \<Rightarrow> (q, [], s'))" for evs' s
  proof -
    have start: "receiver_requested env segment0 () s =
        (case accept_ack2 env s of
           (Ret _, s1) \<Rightarrow> enter fill_zero (\<lambda>_ s. (Wait (RAck3 segment0), s, [])) (receiver_stop []) s1
         | (q, s1) \<Rightarrow> receiver_stop [] q s1)"
      by (auto simp: receiver_requested_def enter_def then_io_split split: prod.splits outcome.splits)
    show ?thesis
    proof (cases "accept_ack2 env s")
      case (Pair q s1)
      then show ?thesis
        using ack3_loop.loop_run [where env = env and evs = evs' and buf = segment0 and s = s1]
        by (cases q) (auto simp: start then_io_split on_rs_apply loop_def receiver_opened_run set_state_def io_simps
            receiver_stop_run split: outcome.splits prod.splits)
    qed
  qed
  let ?s0 = "ReliableSocket_new"
  have init: "state ?s0 = INIT" and same: "?s0\<lparr>socket := socket ?s0\<rparr> = ?s0"
    by (simp_all add: ReliableSocket_new_def)
  show ?thesis
  proof (cases "bind_fails env")
    case True
    then show ?thesis
      by (simp add: main accept_connection_def init same receiver_start_def enter_def then_io_split
          on_rs_apply on_socket_def us_bind_def io_simps receiver_stop_run)
  next
    case False
    let ?rest = "then_io (on_rs (accept_ack2 env)) (then_io (loop env fill_zero (await_ack3 env))
        (on_rs (set_state WAIT_DATA0)))"
    from False have accept: "accept_connection env (evs, ?s0) =
        (case recv_loop env fill_zero await_conn evs ?s0 of
           (Ret _, st) \<Rightarrow> ?rest st | (q, st) \<Rightarrow> (pass q, st))"
      by (simp add: accept_connection_def init same then_io_split [of _ "then_io _ _" "(evs, ?s0)"]
          then_io_split [of "loop env fill_zero await_conn"] on_rs_apply on_socket_def us_bind_def
          io_simps loop_apply)
    from False have start: "receiver_start env segment0 =
        enter fill_zero (\<lambda>_ s. (Wait (RConn segment0), s, [])) (receiver_stop []) ?s0"
      by (simp add: receiver_start_def enter_def then_io_split on_socket_def us_bind_def io_simps same)
    note run = conn_loop.loop_run [where env = env and evs = evs and buf = segment0 and s = ?s0]
    show ?thesis
      unfolding main accept start run
      by (auto simp: requested split: outcome.split prod.split)
  qed
qed

end
