(* ===== verification/Rdt_Steps.thy ===== *)
theory Rdt_Steps
  imports Rdt_Process
begin

text \<open>
  What one result of \<open>recv\<close> does to a waiting sender or receiver, at the level of frames: which
  datagrams are sent, and when the process moves on. The network model rests on these lemmas and
  looks no further into the socket.
\<close>

section \<open>Steps that send nothing\<close>

definition quiet_step :: "ReliableSocket \<Rightarrow> ReliableSocket \<Rightarrow> bool" where
  "quiet_step s s' \<longleftrightarrow> state s' = state s \<and> sequence_number s' = sequence_number s
     \<and> tx (socket s') = tx (socket s)"

lemma quiet_step_refl [simp]: "quiet_step s s"
  by (simp add: quiet_step_def)

lemma quiet_step_trans [trans]: "quiet_step s s' \<Longrightarrow> quiet_step s' s'' \<Longrightarrow> quiet_step s s''"
  by (simp add: quiet_step_def)

abbreviation quiet :: "'a rs_io \<Rightarrow> bool" where
  "quiet \<equiv> framed quiet_step"

interpretation quiet: io_frame quiet_step
  by unfold_locales (auto intro: quiet_step_trans)

named_theorems quiet_intros \<open>operations that send nothing and keep the status\<close>

lemmas quietD = framedD [where R = quiet_step]

lemmas quiet_basic [quiet_intros] = quiet.frame_intros quiet.frame_upd

lemma quiet_fill_zero [quiet_intros]: "quiet fill_zero"
  unfolding fill_zero_def by (rule quiet.frame_upd) (simp add: quiet_step_def)

lemma quiet_parse_received [quiet_intros]: "quiet parse_received"
  unfolding parse_received_def by (rule quiet.frame_here, intro quiet_intros)

lemma quiet_log_segment [quiet_intros]: "quiet (log_segment g)"
  by (auto simp: log_segment_def intro: quiet_intros split: option.split)

lemma quiet_read_clock [quiet_intros]: "quiet (read_clock env)"
  by (simp add: framed_def read_clock_def quiet_step_def)

lemma quiet_set_timeout [quiet_intros]: "quiet (set_timeout env ms)"
  by (simp add: framed_def set_timeout_def on_socket_def io_simps quiet_step_def)

lemma quiet_rtt_timeout [quiet_intros]: "quiet (rtt_timeout env)"
  unfolding rtt_timeout_def by (rule quiet.frame_here, intro quiet_intros)

lemma quiet_update_rtt [quiet_intros]: "quiet (update_rtt env x)"
  unfolding update_rtt_def Let_def
  by (rule quiet.frame_here, intro quiet_intros) (auto simp: quiet_step_def)

lemma quiet_receive [quiet_intros]: "quiet (receive env e)"
  by (auto simp: framed_def quiet_step_def dest: receive_state)

lemma quiet_await_ack [quiet_intros]: "quiet (await_ack env g a t r)"
  by (auto simp: await_ack_def split: outcome.split sock_exn.split intro!: quiet_intros)

lemma quiet_await_ack2 [quiet_intros]: "quiet (await_ack2 t r)"
  by (auto simp: await_ack2_def split: outcome.split sock_exn.split intro!: quiet_intros)

lemma quiet_await_conn [quiet_intros]: "quiet (await_conn t r)"
  by (auto simp: await_conn_def split: outcome.split intro!: quiet_intros)

section \<open>Receiving a frame\<close>

text \<open>A buffer that a parse reads as a segment with frame \<open>f\<close>.\<close>

definition holds_frame :: "ReliableSocket \<Rightarrow> frame \<Rightarrow> bool" where
  "holds_frame s f \<longleftrightarrow> (\<exists>g. RDTSegment_parse (seg_buf s) = Some g \<and> get_type g = fr_type f
     \<and> get_sequence_number g = fr_seq f \<and> get_ack_number g = fr_ack f
     \<and> copy_span (payload g) = Some (fr_payload f) \<and> span_size (payload g) = length (fr_payload f))"

lemma receive_frame:
  assumes "receive env (RxDatagram d) s = (Ret n, s')" and "frame_of d = Some f"
    and "length d \<le> MAX_SEG_SIZE"
  shows "holds_frame s' f"
proof -
  from frame_of_length [OF assms(2)] have "length d \<noteq> 0" by auto
  with assms(1,3) have "\<exists>r. seg_buf s' = d @ r"
    by (auto simp: receive_def Let_def overlay_def split: if_splits)
  then show ?thesis
    using frame_of_parse [OF assms(2)] by (metis holds_frame_def)
qed

text \<open>What a body that got a datagram sees.\<close>

definition rx_frame :: "rx_event \<Rightarrow> frame option" where
  "rx_frame e = (case e of RxDatagram d \<Rightarrow> if length d \<le> MAX_SEG_SIZE then frame_of d else None
     | _ \<Rightarrow> None)"

text \<open>The results of \<open>recv\<close> that the peer's protocol produces: whole frames, timeouts, errors.\<close>

definition rx_ok :: "rx_event \<Rightarrow> bool" where
  "rx_ok e \<longleftrightarrow> (\<exists>d. e = RxDatagram d) \<longrightarrow> rx_frame e \<noteq> None"

lemma receive_cases:
  assumes "receive env e s = (r, s')" and "rx_ok e"
  obtains f n where "r = Ret n" "rx_frame e = Some f" "holds_frame s' f" "quiet_step s s'"
  | "r = Throw SocketTimeout" "e = RxAgain" "s' = s"
  | "r = Exit_Failure" "quiet_step s s'"
proof -
  have q: "quiet_step s s'" using assms(1) by (rule quietD [OF quiet_receive])
  show thesis
  proof (cases e)
    case (RxDatagram d)
    with assms(2) obtain f where f: "frame_of d = Some f" "length d \<le> MAX_SEG_SIZE"
      by (auto simp: rx_ok_def rx_frame_def split: if_splits)
    with RxDatagram have rf: "rx_frame e = Some f" by (simp add: rx_frame_def)
    from frame_of_length [OF f(1)] have "length d \<noteq> 0" by auto
    with assms(1) RxDatagram f(2) have "r = Exit_Failure \<or> (\<exists>n. r = Ret n)"
      by (auto simp: receive_def Let_def MAX_SEG_SIZE_def split: if_splits)
    then show thesis
    proof
      assume "\<exists>n. r = Ret n"
      then obtain n where n: "r = Ret n" ..
      then show thesis
        using that(1) [OF n rf _ q] receive_frame f assms(1) RxDatagram by simp
    qed (use that(3) q in simp)
  qed (use assms(1) q that(2,3) in \<open>auto simp: receive_def\<close>)
qed

lemma parse_holds: 
  assumes "holds_frame s f"
  obtains g where "parse_received s = (Ret g, s)" "get_type g = fr_type f"
    "get_sequence_number g = fr_seq f" "get_ack_number g = fr_ack f"
    "copy_span (payload g) = Some (fr_payload f)" "span_size (payload g) = length (fr_payload f)"
  using assms by (auto simp: holds_frame_def parse_received_def io_simps)

section \<open>The bodies of the sender\<close>

lemma await_ack2_step:
  assumes "await_ack2 t r s = (Ret (Some x), s')" and "holds_frame s f"
  shows "fr_type f = RDT_ACK \<and> fr_ack f = 2"
  using assms(2)
proof (rule parse_holds)
  fix g assume "parse_received s = (Ret g, s)" "get_type g = fr_type f" "get_ack_number g = fr_ack f"
  with assms(1) show ?thesis
    by (auto simp: await_ack2_def io_simps split: outcome.splits sock_exn.splits if_splits)
qed

lemma await_ack_step:
  assumes "await_ack env g a t (Ret n) s = (Ret (Some x), s')" and "holds_frame s f"
  shows "fr_type f = RDT_ACK \<and> fr_ack f = a"
proof (rule parse_holds [OF assms(2)])
  fix h assume h: "parse_received s = (Ret h, s)" "get_type h = fr_type f" "get_ack_number h = fr_ack f"
  have "parse_received (s\<lparr>clock_reads := Suc (clock_reads s)\<rparr>) = (Ret h, s\<lparr>clock_reads := Suc (clock_reads s)\<rparr>)"
    using h(1) by (cases "RDTSegment_parse (seg_buf s)") (auto simp: parse_received_def io_simps)
  with assms(1) h(2,3) show ?thesis
    by (auto simp: await_ack_def bind_io_split then_io_split read_clock_def io_simps
        split: outcome.splits prod.splits if_splits dest!: of_option_state)
qed

end
