(* ===== verification/Rdt_Roles.thy ===== *)
theory Rdt_Roles
  imports Rdt_Steps
begin

text \<open>
  The exchange that transfers a list of blocks, numbered: message 0 is the connection request, 1 the
  third message of the handshake, \<open>k + 2\<close> the \<open>k\<close>-th block, and the last one the close request. A
  sender that waits for the acknowledgement of message \<open>c\<close> is at \<open>c\<close>, a receiver that waits for
  message \<open>r\<close> is at \<open>r\<close>. The numbers on the wire are only a byte (0 and 1 for blocks); the theorems
  \<open>sender_step\<close> and \<open>receiver_step\<close> say what each side does with a message or an acknowledgement,
  in terms of the full numbers.
\<close>

section \<open>The messages of a transfer\<close>

definition parity :: "nat \<Rightarrow> u8" where
  "parity k = (if even k then 0 else 1)"

definition msg :: "bytes list \<Rightarrow> nat \<Rightarrow> frame" where
  "msg cs k =
     (if k = 0 then \<lparr>fr_type = RDT_CONN, fr_seq = 0, fr_ack = 0, fr_payload = []\<rparr>
      else if k = 1 then ack_frame 3
      else if k < length cs + 2
      then \<lparr>fr_type = RDT_DATA, fr_seq = parity k, fr_ack = 0, fr_payload = cs ! (k - 2)\<rparr>
      else \<lparr>fr_type = RDT_CLOSE, fr_seq = 4, fr_ack = 0, fr_payload = []\<rparr>)"

definition ackno :: "bytes list \<Rightarrow> nat \<Rightarrow> u8" where
  "ackno cs k = (if k = 0 then 2 else if k < length cs + 2 then parity k else 4)"

definition is_frame :: "frame \<Rightarrow> bytes \<Rightarrow> bool" where
  "is_frame f d \<longleftrightarrow> rx_frame (RxDatagram d) = Some f"

definition is_msg :: "bytes list \<Rightarrow> nat \<Rightarrow> bytes \<Rightarrow> bool" where
  "is_msg cs k d \<longleftrightarrow> is_frame (msg cs k) d"

definition is_ack :: "bytes list \<Rightarrow> nat \<Rightarrow> bytes \<Rightarrow> bool" where
  "is_ack cs k d \<longleftrightarrow> is_frame (ack_frame (ackno cs k)) d"

definition blocks_ok :: "bytes list \<Rightarrow> bool" where
  "blocks_ok cs \<longleftrightarrow> list_all (\<lambda>c. length c \<le> MAX_DATA_SIZE) cs \<and> cs \<noteq> [] \<and> [] \<notin> set (butlast cs)"

lemma max_sizes: "MAX_DATA_SIZE = 1394" "MAX_SEG_SIZE = 1400" "sizeof_RDTHeader = 6"
  by (simp_all add: MAX_DATA_SIZE_def MAX_SEG_SIZE_def sizeof_RDTHeader_def)

lemma parity_simps [simp]:
  "1 - parity k = parity (Suc k)" "parity k \<noteq> 2" "parity k \<noteq> 3" "parity k \<noteq> 4"
  "parity k = parity m \<longleftrightarrow> (even k \<longleftrightarrow> even m)" "parity k = 0 \<longleftrightarrow> even k" "parity (Suc (Suc k)) = parity k"
  by (auto simp: parity_def)

lemma is_frame_wire: "frame_ok f \<Longrightarrow> length (fr_payload f) \<le> MAX_DATA_SIZE \<Longrightarrow> is_frame f (wire pad f)"
  using frame_of_wire [of f pad "[]"]
  by (simp add: is_frame_def rx_frame_def max_sizes wire_def be16_def)

lemma is_frame_ack: "is_frame (ack_frame n) (wire pad (ack_frame n))"
  by (rule is_frame_wire) (simp_all add: ack_frame_def frame_ok_def)

section \<open>What was sent\<close>

definition sends :: "(nat \<Rightarrow> bytes \<Rightarrow> bool) \<Rightarrow> nat list \<Rightarrow> ReliableSocket \<Rightarrow> ReliableSocket \<Rightarrow> bool" where
  "sends C ks s s' \<longleftrightarrow> (\<exists>ds. tx (socket s') = tx (socket s) @ ds \<and> list_all2 C ks ds)"

lemma sends_quiet: "quiet_step s s' \<Longrightarrow> sends C [] s s'"
  by (simp add: sends_def quiet_step_def)

lemma sends_one: "tx (socket s') = tx (socket s) @ [d] \<Longrightarrow> C k d \<Longrightarrow> sends C [k] s s'"
  by (simp add: sends_def)

lemma sends_trans: "sends C ks s s' \<Longrightarrow> sends C ks' s' s'' \<Longrightarrow> sends C (ks @ ks') s s''"
  unfolding sends_def by (metis append.assoc list_all2_appendI)

lemma sends_after_quiet: "quiet_step s s' \<Longrightarrow> sends C ks s' s'' \<Longrightarrow> sends C ks s s''"
  by (simp add: sends_def quiet_step_def)

lemma sends_before_quiet: "sends C ks s s' \<Longrightarrow> quiet_step s' s'' \<Longrightarrow> sends C ks s s''"
  by (simp add: sends_def quiet_step_def)

text \<open>At most one datagram, always the same.\<close>

definition may_send :: "(nat \<Rightarrow> bytes \<Rightarrow> bool) \<Rightarrow> nat \<Rightarrow> ReliableSocket \<Rightarrow> ReliableSocket \<Rightarrow> bool" where
  "may_send C k s s' \<longleftrightarrow> sequence_number s' = sequence_number s \<and> state s' = state s
     \<and> (sends C [] s s' \<or> sends C [k] s s')"

lemma may_send_quiet: "quiet_step s s' \<Longrightarrow> may_send C k s s'"
  by (simp add: may_send_def sends_quiet quiet_step_def)

lemma may_send_after_quiet: "quiet_step s s' \<Longrightarrow> may_send C k s' s'' \<Longrightarrow> may_send C k s s''"
  by (auto simp: may_send_def quiet_step_def sends_def)

lemma may_send_before_quiet: "may_send C k s s' \<Longrightarrow> quiet_step s' s'' \<Longrightarrow> may_send C k s s''"
  by (auto simp: may_send_def quiet_step_def sends_def)

lemma send_buffer_may_send: "send_buffer env b s = (q, s') \<Longrightarrow> C k b \<Longrightarrow> may_send C k s s'"
  by (auto simp: send_buffer_eq may_send_def sends_def split: if_splits)

lemma send_ack_may_send:
  "send_ack env a s = (q, s') \<Longrightarrow> C k (wire (padding env s) (ack_frame a)) \<Longrightarrow> may_send C k s s'"
  by (auto simp: send_ack_eq may_send_def sends_def split: if_splits)

lemma resend_may_send:
  assumes "resend env b s = (q, s')" and "C k b"
  shows "may_send C k s s'"
proof -
  obtain q1 s1 where r: "read_clock env s = (q1, s1)" by (cases "read_clock env s")
  then have q1: "quiet_step s s1" by (rule quietD [OF quiet_read_clock])
  obtain q2 s2 where b: "send_buffer env b s1 = (q2, s2)" by (cases "send_buffer env b s1")
  then have m: "may_send C k s1 s2" using assms(2) by (rule send_buffer_may_send)
  have "s' = s1 \<or> s' = s2 \<or> (\<exists>q3. fill_zero s2 = (q3, s'))"
    using assms(1) r b by (auto simp: resend_def bind_io_split then_io_split io_simps
        split: outcome.splits prod.splits)
  then show ?thesis
    using may_send_quiet [OF q1] may_send_after_quiet [OF q1 m]
      may_send_before_quiet [OF may_send_after_quiet [OF q1 m]] quietD [OF quiet_fill_zero] by blast
qed

lemma connect_send_may_send:
  assumes "connect_send env b s = (q, s')" and "C k b"
  shows "may_send C k s s'"
proof -
  obtain q2 s2 where b: "send_buffer env b s = (q2, s2)" by (cases "send_buffer env b s")
  then have m: "may_send C k s s2" using assms(2) by (rule send_buffer_may_send)
  have "s' = s2 \<or> (\<exists>q3. fill_zero s2 = (q3, s'))"
    using assms(1) b by (auto simp: connect_send_def then_io_split io_simps
        split: outcome.splits prod.splits)
  then show ?thesis
    using m may_send_before_quiet [OF m] quietD [OF quiet_fill_zero] by blast
qed

section \<open>Rules for the process steps\<close>

lemma pass_not_Ret: "(\<And>x. q \<noteq> Ret x) \<Longrightarrow> pass q \<noteq> Ret y"
  by (cases q) auto

lemma enter_rule:
  assumes "\<And>t s'. pre s = (Ret t, s') \<Longrightarrow> Q (mk t s')"
    and "\<And>p q s'. pre s = (p, s') \<Longrightarrow> q \<noteq> Ret () \<Longrightarrow> Q (stop q s')"
  shows "Q (enter pre mk stop s)"
  using assms by (cases "pre s"; cases "fst (pre s)") (auto simp: enter_def)

lemma iterate_rule:
  assumes "\<And>r s2 q s3. receive env e s = (r, s2) \<Longrightarrow> body t r s2 = (Ret None, s3) \<Longrightarrow> Q (enter pre mk stop s3)"
    and "\<And>r s2 x s3. receive env e s = (r, s2) \<Longrightarrow> body t r s2 = (Ret (Some x), s3) \<Longrightarrow> Q (fin x s3)"
    and "\<And>r s2 p q s3. receive env e s = (r, s2) \<Longrightarrow> body t r s2 = (p, s3) \<Longrightarrow> (\<And>x. p \<noteq> Ret x)
      \<Longrightarrow> q \<noteq> Ret () \<Longrightarrow> Q (stop q s3)"
  shows "Q (iterate env pre body mk stop fin t e s)"
proof -
  obtain r s2 where r: "receive env e s = (r, s2)" by (cases "receive env e s")
  obtain p s3 where p: "body t r s2 = (p, s3)" by (cases "body t r s2")
  show ?thesis
  proof (cases p)
    case (Ret o')
    with assms(1,2) r p show ?thesis by (cases o') (auto simp: iterate_def)
  qed (use assms(3) [OF r p] r p in \<open>auto simp: iterate_def\<close>)
qed

section \<open>The sender\<close>

fun sender_at :: "bytes list \<Rightarrow> nat \<Rightarrow> sender_cfg \<Rightarrow> bool" where
  "sender_at cs c (Wait (SConnect buf), s) \<longleftrightarrow>
     c = 0 \<and> is_msg cs 0 buf \<and> sequence_number s = 0"
| "sender_at cs c (Wait (SData buf g a t rest), s) \<longleftrightarrow>
     2 \<le> c \<and> c < length cs + 2 \<and> is_msg cs c buf \<and> a = parity c \<and> sequence_number s = parity c
     \<and> rest = drop (c - 1) cs"
| "sender_at cs c (Wait (SClose buf g a t), s) \<longleftrightarrow> c = length cs + 2 \<and> is_msg cs c buf \<and> a = 4"
| "sender_at cs c (Stop q, s) \<longleftrightarrow> c \<noteq> 1 \<and> c \<le> length cs + 3 \<and> (q = Ret () \<longrightarrow> c = length cs + 3)"

lemma sender_at_bound: "sender_at cs c (p, s) \<Longrightarrow> c \<le> length cs + 3"
  by (cases "(cs, c, p, s)" rule: sender_at.cases) auto

definition following :: "nat \<Rightarrow> nat" where
  "following c = (if c = 0 then 2 else Suc c)"

text \<open>
  The sender is at \<open>c'\<close> and sent messages numbered \<open>ks\<close>. Stopped on the way, it may not have sent
  all that it was about to.
\<close>

definition sender_sent :: "bytes list \<Rightarrow> nat \<Rightarrow> nat set \<Rightarrow> ReliableSocket \<Rightarrow> sender_cfg \<Rightarrow> bool" where
  "sender_sent cs c' M s S \<longleftrightarrow> sender_at cs c' S \<and>
     (\<exists>ks. sorted ks \<and> set ks \<subseteq> M \<inter> {..length cs + 2} \<and> sends (is_msg cs) ks s (snd S))"

lemma sender_sent_stop:
  "q \<noteq> Ret () \<Longrightarrow> c \<noteq> 1 \<Longrightarrow> c \<le> length cs + 3 \<Longrightarrow> quiet_step s s' \<Longrightarrow> sender_sent cs c M s (sender_stop q s')"
  by (auto simp: sender_sent_def sender_stop_def intro!: exI [of _ "[]"] sends_quiet)

lemma sender_sent_may:
  assumes "may_send (is_msg cs) c s s'" and "c \<in> M" and "c \<le> length cs + 2" and "sender_at cs c' (p, s')"
  shows "sender_sent cs c' M s (p, s')"
  using assms unfolding sender_sent_def may_send_def by (auto intro: exI [of _ "[]"] exI [of _ "[c]"])

lemma sender_sent_after_quiet:
  "quiet_step s s' \<Longrightarrow> sender_sent cs c M s' S \<Longrightarrow> sender_sent cs c M s S"
  unfolding sender_sent_def by (metis sends_after_quiet)

lemma sender_sent_after:
  assumes "sends (is_msg cs) ks s s'" and "sender_sent cs c M s' S" and "sorted ks"
    and "set ks \<subseteq> M' \<inter> {..length cs + 2}" and "\<And>i j. i \<in> M' \<Longrightarrow> j \<in> M \<Longrightarrow> i \<le> j"
  shows "sender_sent cs c (M' \<union> M) s S"
proof -
  from assms(2) obtain ks' where ks': "sorted ks'" "set ks' \<subseteq> M \<inter> {..length cs + 2}"
    "sends (is_msg cs) ks' s' (snd S)" and S: "sender_at cs c S"
    by (auto simp: sender_sent_def)
  have "sorted (ks @ ks')"
    unfolding sorted_append using assms(3-5) ks'(1,2) by (meson IntD1 subsetD)
  moreover have "set (ks @ ks') \<subseteq> (M' \<union> M) \<inter> {..length cs + 2}"
    using assms(4) ks'(2) by auto
  ultimately show ?thesis
    using sends_trans [OF assms(1) ks'(3)] S unfolding sender_sent_def by blast
qed

text \<open>Entering \<open>send_until_acked\<close> with a segment whose copy is message \<open>c\<close>.\<close>

lemma enter_acked_step:
  assumes "copy_to g (seg_buffer g) = Some buf" and "expected_ack g = Some a" and "is_msg cs c buf"
    and c: "2 \<le> c" "c \<le> length cs + 2"
    and at: "\<And>t s'. sequence_number s' = sequence_number s \<Longrightarrow> sender_at cs c (Wait (mk buf a t), s')"
  shows "sender_sent cs c {c} s (enter_acked env mk g s)"
proof (rule log_segment_cases [of g s])
  assume "log_segment g s = (Ret (), s)"
  then have eq: "enter_acked env mk g s = enter (resend env buf) (\<lambda>t s. (Wait (mk buf a t), s)) sender_stop s"
    by (simp add: enter_acked_def assms(1,2))
  show ?thesis
    unfolding eq
  proof (rule enter_rule)
    fix t s' assume "resend env buf s = (Ret t, s')"
    then have m: "may_send (is_msg cs) c s s'" using assms(3) by (rule resend_may_send)
    then show "sender_sent cs c {c} s (Wait (mk buf a t), s')"
      using c at by (intro sender_sent_may) (auto simp: may_send_def)
  next
    fix p s' and q :: "(sock_exn, unit) outcome" assume r: "resend env buf s = (p, s')" and q: "q \<noteq> Ret ()"
    have m: "may_send (is_msg cs) c s s'" using r assms(3) by (rule resend_may_send)
    then show "sender_sent cs c {c} s (sender_stop q s')"
      unfolding sender_stop_def using c q by (intro sender_sent_may) auto
  qed
next
  assume "log_segment g s = (Exit_Failure, s)"
  then have "enter_acked env mk g s = sender_stop Exit_Failure s"
    by (simp add: enter_acked_def)
  with c show ?thesis by (simp add: sender_sent_stop)
qed

lemma drop_Cons_nth: "drop k xs = y # ys \<Longrightarrow> k < length xs \<and> xs ! k = y \<and> ys = drop (Suc k) xs"
  by (metis drop_eq_Nil2 leI list.distinct(1) nth_via_drop drop_Suc tl_drop list.sel(3))

lemma sender_next_step:
  assumes "blocks_ok cs" and c: "1 \<le> c" "c < length cs + 2"
    and seq: "sequence_number s = parity (Suc c)"
  shows "sender_sent cs (Suc c) {Suc c} s (sender_next env (drop (c - 1) cs) s)"
proof (cases "drop (c - 1) cs")
  case Nil
  let ?g = "close_segment env s"
  from Nil c have "c = length cs + 1" by auto
  moreover have "is_msg cs (length cs + 2) (wire (padding env s) (msg cs (length cs + 2)))"
    unfolding is_msg_def by (rule is_frame_wire) (simp_all add: msg_def frame_ok_def)
  moreover have "copy_to ?g (seg_buffer ?g) = Some (wire (padding env s) (msg cs (length cs + 2)))"
    by (simp add: close_segment_def copy_to_control msg_def)
  ultimately have "sender_sent cs (Suc c) {Suc c} s
      (enter_acked env (\<lambda>buf a t. SClose buf ?g a t) ?g s)"
    by (intro enter_acked_step) auto
  with Nil show ?thesis by simp
next
  case (Cons b rest)
  let ?g = "data_segment env s b"
  let ?s = "s\<lparr>state := wait_ack_state s\<rparr>"
  from drop_Cons_nth [OF Cons] c have b: "c - 1 < length cs" "b = cs ! (c - 1)" "rest = drop c cs"
    by auto
  with assms(1) have len: "length b \<le> 1394"
    by (auto simp: blocks_ok_def list_all_length max_sizes)
  have m: "msg cs (Suc c) = \<lparr>fr_type = RDT_DATA, fr_seq = sequence_number s, fr_ack = 0, fr_payload = b\<rparr>"
    using b c seq by (auto simp: msg_def numeral_2_eq_2)
  have "copy_to ?g (seg_buffer ?g) = Some (wire (padding env s) (msg cs (Suc c)))"
    using len by (simp add: data_segment_def copy_to_data m)
  moreover have "is_msg cs (Suc c) (wire (padding env s) (msg cs (Suc c)))"
    unfolding is_msg_def using len by (intro is_frame_wire) (simp_all add: m frame_ok_def max_sizes)
  ultimately have "sender_sent cs (Suc c) {Suc c} ?s
      (enter_acked env (\<lambda>buf a t. SData buf ?g a t rest) ?g ?s)"
    using b c seq by (intro enter_acked_step) auto
  then have "sender_sent cs (Suc c) {Suc c} s
      (enter_acked env (\<lambda>buf a t. SData buf ?g a t rest) ?g ?s)"
    by (simp add: sender_sent_def sends_def)
  with Cons show ?thesis by simp
qed

lemma sender_again:
  assumes quiet: "quiet_step s s3" and c: "c \<noteq> 1" "c \<le> length cs + 2"
    and pre: "\<And>q s'. pre s3 = (q, s') \<Longrightarrow> may_send (is_msg cs) c s3 s'"
    and at: "\<And>t s'. sequence_number s' = sequence_number s \<Longrightarrow> sender_at cs c (Wait (pc t), s')"
  shows "sender_sent cs c {c} s (enter pre (\<lambda>t s. (Wait (pc t), s)) sender_stop s3)"
proof (rule enter_rule)
  fix t s' assume "pre s3 = (Ret t, s')"
  then have m: "may_send (is_msg cs) c s s'"
    by (intro may_send_after_quiet [OF quiet] pre)
  then show "sender_sent cs c {c} s (Wait (pc t), s')"
    using c at by (intro sender_sent_may) (auto simp: may_send_def)
next
  fix p s' and q :: "(sock_exn, unit) outcome"
  assume "pre s3 = (p, s')" and q: "q \<noteq> Ret ()"
  then have m: "may_send (is_msg cs) c s s'"
    by (intro may_send_after_quiet [OF quiet] pre)
  then show "sender_sent cs c {c} s (sender_stop q s')"
    unfolding sender_stop_def using c q by (intro sender_sent_may) auto
qed

lemma connect_finish_sends:
  assumes "connect_finish env s = (q, s')"
  shows "sequence_number s' = sequence_number s \<and> (\<exists>ks. sorted ks \<and> set ks \<subseteq> {1} \<and> sends (is_msg cs) ks s s')"
proof -
  have m1: "is_msg cs 1 (wire pad (ack_frame 3))" for pad
    using is_frame_ack [of 3 pad] by (simp add: is_msg_def msg_def)
  have "tx (socket s') = tx (socket s) \<or> (\<exists>pad. tx (socket s') = tx (socket s) @ [wire pad (ack_frame 3)])"
    and "sequence_number s' = sequence_number s"
    using assms by (auto simp: connect_finish_def then_io_split set_state_def io_simps split: if_splits)
  then have "sends (is_msg cs) [] s s' \<or> sends (is_msg cs) [1] s s'"
    using m1 by (auto simp: sends_def)
  with \<open>sequence_number s' = sequence_number s\<close> show ?thesis
    by (auto intro: exI [of _ "[]"] exI [of _ "[1]"])
qed

lemma sender_connected_step:
  assumes "blocks_ok cs" and "sequence_number s = 0"
  shows "sender_sent cs 2 {1..2} s (sender_connected env cs () s)"
  unfolding sender_connected_def
proof (rule enter_rule)
  fix t s' assume "connect_finish env s = (Ret t, s')"
  from connect_finish_sends [OF this, of cs] obtain ks where ks: "sequence_number s' = sequence_number s"
    "sorted ks" "set ks \<subseteq> {1}" "sends (is_msg cs) ks s s'" by auto
  have "sender_sent cs (Suc 1) {Suc 1} s' (sender_next env (drop (1 - 1) cs) s')"
    using ks(1) assms by (intro sender_next_step) (auto simp: parity_def)
  then have "sender_sent cs (Suc 1) ({1} \<union> {Suc 1}) s (sender_next env (drop (1 - 1) cs) s')"
    using ks by (intro sender_sent_after [OF ks(4)]) auto
  moreover have "{1} \<union> {Suc 1} = {1..2::nat}" by auto
  ultimately show "sender_sent cs 2 {1..2} s (sender_next env cs s')"
    by (simp add: numeral_2_eq_2)
next
  fix p s' and q :: "(sock_exn, unit) outcome"
  assume "connect_finish env s = (p, s')" and q: "q \<noteq> Ret ()"
  from connect_finish_sends [OF this(1), of cs] obtain ks where
    "sorted ks" "set ks \<subseteq> {1}" "sends (is_msg cs) ks s s'" by auto
  with q show "sender_sent cs 2 {1..2} s (sender_stop q s')"
    by (auto simp: sender_sent_def sender_stop_def intro!: exI [of _ ks])
qed

definition acknowledges :: "bytes list \<Rightarrow> nat \<Rightarrow> rx_event \<Rightarrow> bool" where
  "acknowledges cs c e \<longleftrightarrow> (\<exists>f. rx_frame e = Some f \<and> fr_type f = RDT_ACK \<and> fr_ack f = ackno cs c)"

lemma receive_body_quiet:
  "receive env e s = (r, s2) \<Longrightarrow> body t r s2 = (q, s3) \<Longrightarrow> (\<And>r. quiet (body t r)) \<Longrightarrow> quiet_step s s3"
  using quietD [OF quiet_receive] quietD quiet_step_trans by blast

lemma await_ack_accepts:
  assumes "receive env e s = (r, s2)" and "rx_ok e" and "await_ack env g a t r s2 = (Ret (Some x), s3)"
    and "a = ackno cs c"
  shows "acknowledges cs c e"
  using assms(1,2)
proof (cases rule: receive_cases)
  case (1 f n)
  with assms(3,4) await_ack_step show ?thesis
    by (metis acknowledges_def)
qed (use assms(3) in \<open>simp_all add: await_ack_def io_simps\<close>)

lemma await_ack2_accepts:
  assumes "receive env e s = (r, s2)" and "rx_ok e" and "await_ack2 t r s2 = (Ret (Some x), s3)"
  shows "acknowledges cs 0 e"
  using assms(1,2)
proof (cases rule: receive_cases)
  case (1 f n)
  with assms(3) await_ack2_step show ?thesis
    by (metis acknowledges_def ackno_def)
qed (use assms(3) in \<open>simp_all add: await_ack2_def io_simps\<close>)

definition sender_moves :: "bytes list \<Rightarrow> nat \<Rightarrow> rx_event \<Rightarrow> ReliableSocket \<Rightarrow> sender_cfg \<Rightarrow> bool" where
  "sender_moves cs c e s S \<longleftrightarrow> sender_sent cs c {c} s S \<or>
     acknowledges cs c e \<and> sender_sent cs (following c) {c<..following c} s S"

lemma sender_stays: "sender_sent cs c {c} s S \<Longrightarrow> sender_moves cs c e s S"
  by (simp add: sender_moves_def)

lemma sender_advances:
  "acknowledges cs c e \<Longrightarrow> sender_sent cs (following c) {c<..following c} s S \<Longrightarrow> sender_moves cs c e s S"
  by (simp add: sender_moves_def)

lemma sender_step_connect:
  assumes ok: "blocks_ok cs" "rx_ok e" and at: "sender_at cs c (Wait (SConnect buf), s)"
  shows "sender_moves cs c e s (sender_react env cs e (Wait (SConnect buf), s))"
proof -
  from at have c: "c = 0" and buf: "is_msg cs 0 buf" and seq: "sequence_number s = 0" by auto
  have "sender_moves cs c e s (iterate env (connect_send env buf) await_ack2 (\<lambda>_ s. (Wait (SConnect buf), s)) sender_stop
     (sender_connected env cs) () e s)"
  proof (rule iterate_rule)
    fix r s2 q s3 assume "receive env e s = (r, s2)" "await_ack2 () r s2 = (Ret None, s3)"
    then have quiet: "quiet_step s s3" by (rule receive_body_quiet) (rule quiet_await_ack2)
    have "sender_sent cs c {c} s (enter (connect_send env buf) (\<lambda>_ s. (Wait (SConnect buf), s)) sender_stop s3)"
      using buf c seq by (intro sender_again [OF quiet] connect_send_may_send) auto
    then show "sender_moves cs c e s (enter (connect_send env buf) (\<lambda>_ s. (Wait (SConnect buf), s)) sender_stop s3)" by (rule sender_stays)
  next
    fix r s2 x s3 assume r: "receive env e s = (r, s2)" "await_ack2 () r s2 = (Ret (Some x), s3)"
    then have quiet: "quiet_step s s3" by (rule receive_body_quiet) (rule quiet_await_ack2)
    then have "sender_sent cs 2 {1..2} s (sender_connected env cs () s3)"
      using ok seq by (intro sender_sent_after_quiet [OF quiet] sender_connected_step) (auto simp: quiet_step_def)
    moreover have "{0<..2} = {1..2::nat}" by auto
    ultimately show "sender_moves cs c e s (sender_connected env cs x s3)"
      using await_ack2_accepts [OF r(1) ok(2) r(2)] c by (intro sender_advances) (simp_all add: following_def)
  next
    fix r s2 p s3 and q :: "(sock_exn, unit) outcome" assume "receive env e s = (r, s2)" "await_ack2 () r s2 = (p, s3)" "q \<noteq> Ret ()"
    then show "sender_moves cs c e s (sender_stop q s3)"
      using c by (intro sender_stays sender_sent_stop) (auto intro: receive_body_quiet quiet_await_ack2)
  qed
  with c show ?thesis by simp
qed

lemma sender_step_data:
  assumes ok: "blocks_ok cs" "rx_ok e" and at: "sender_at cs c (Wait (SData buf g a t rest), s)"
  shows "sender_moves cs c e s (sender_react env cs e (Wait (SData buf g a t rest), s))"
proof -
  from at have c: "2 \<le> c" "c < length cs + 2" and buf: "is_msg cs c buf"
    and a: "a = parity c" and seq: "sequence_number s = parity c" and rest: "rest = drop (c - 1) cs" by auto
  from c a have ack: "a = ackno cs c" by (simp add: ackno_def)
  have "sender_moves cs c e s (iterate env (resend env buf) (await_ack env g a) (\<lambda>t s. (Wait (SData buf g a t rest), s))
     sender_stop (sender_acked env rest) t e s)"
  proof (rule iterate_rule)
    fix r s2 q s3 assume "receive env e s = (r, s2)" "await_ack env g a t r s2 = (Ret None, s3)"
    then have quiet: "quiet_step s s3" by (rule receive_body_quiet) (rule quiet_await_ack)
    have "sender_sent cs c {c} s (enter (resend env buf) (\<lambda>t s. (Wait (SData buf g a t rest), s)) sender_stop s3)"
      using buf c a seq rest by (intro sender_again [OF quiet] resend_may_send) auto
    then show "sender_moves cs c e s (enter (resend env buf) (\<lambda>t s. (Wait (SData buf g a t rest), s)) sender_stop s3)" by (rule sender_stays)
  next
    fix r s2 x s3 assume r: "receive env e s = (r, s2)" "await_ack env g a t r s2 = (Ret (Some x), s3)"
    then have quiet: "quiet_step s s3" by (rule receive_body_quiet) (rule quiet_await_ack)
    let ?s = "s3\<lparr>sequence_number := 1 - sequence_number s3, state := WAIT_SEND\<rparr>"
    have "sender_sent cs (Suc c) {Suc c} ?s (sender_next env rest ?s)"
      unfolding rest using ok c seq quiet by (intro sender_next_step) (auto simp: quiet_step_def)
    then have "sender_sent cs (Suc c) {Suc c} s3 (sender_acked env rest x s3)"
      by (simp add: sender_acked_def enter_def send_finish_def io_simps sender_sent_def sends_def)
    moreover have "{Suc c} = {c<..following c}" using c by (auto simp: following_def)
    ultimately show "sender_moves cs c e s (sender_acked env rest x s3)"
      using await_ack_accepts [OF r(1) ok(2) r(2) ack] c sender_sent_after_quiet [OF quiet]
      by (intro sender_advances) (simp_all add: following_def)
  next
    fix r s2 p s3 and q :: "(sock_exn, unit) outcome" assume "receive env e s = (r, s2)" "await_ack env g a t r s2 = (p, s3)" "q \<noteq> Ret ()"
    then show "sender_moves cs c e s (sender_stop q s3)"
      using c by (intro sender_stays sender_sent_stop) (auto intro: receive_body_quiet quiet_await_ack)
  qed
  then show ?thesis by simp
qed

lemma sender_step_close:
  assumes ok: "rx_ok e" and at: "sender_at cs c (Wait (SClose buf g a t), s)"
  shows "sender_moves cs c e s (sender_react env cs e (Wait (SClose buf g a t), s))"
proof -
  from at have c: "c = length cs + 2" and buf: "is_msg cs c buf" and a: "a = 4" by auto
  then have ack: "a = ackno cs c" by (simp add: ackno_def)
  have "sender_moves cs c e s (iterate env (resend env buf) (await_ack env g a) (\<lambda>t s. (Wait (SClose buf g a t), s))
     sender_stop sender_closed t e s)"
  proof (rule iterate_rule)
    fix r s2 q s3 assume "receive env e s = (r, s2)" "await_ack env g a t r s2 = (Ret None, s3)"
    then have quiet: "quiet_step s s3" by (rule receive_body_quiet) (rule quiet_await_ack)
    have "sender_sent cs c {c} s (enter (resend env buf) (\<lambda>t s. (Wait (SClose buf g a t), s)) sender_stop s3)"
      using buf c a by (intro sender_again [OF quiet] resend_may_send) auto
    then show "sender_moves cs c e s (enter (resend env buf) (\<lambda>t s. (Wait (SClose buf g a t), s)) sender_stop s3)" by (rule sender_stays)
  next
    fix r s2 x s3 assume r: "receive env e s = (r, s2)" "await_ack env g a t r s2 = (Ret (Some x), s3)"
    then have quiet: "quiet_step s s3" by (rule receive_body_quiet) (rule quiet_await_ack)
    then have "sender_sent cs (following c) {c<..following c} s (sender_closed x s3)"
      using c by (auto simp: sender_closed_def enter_def then_io_split set_state_def us_close_def
          on_socket_def io_simps sender_stop_def sender_sent_def following_def sends_def quiet_step_def
          intro!: exI [of _ "[]"])
    then show "sender_moves cs c e s (sender_closed x s3)"
      using await_ack_accepts [OF r(1) ok r(2) ack] by (intro sender_advances) auto
  next
    fix r s2 p s3 and q :: "(sock_exn, unit) outcome" assume "receive env e s = (r, s2)" "await_ack env g a t r s2 = (p, s3)" "q \<noteq> Ret ()"
    then show "sender_moves cs c e s (sender_stop q s3)"
      using c by (intro sender_stays sender_sent_stop) (auto intro: receive_body_quiet quiet_await_ack)
  qed
  then show ?thesis by simp
qed

theorem sender_step:
  assumes "blocks_ok cs" "rx_ok e" "sender_at cs c (p, s)"
  shows "sender_moves cs c e s (sender_react env cs e (p, s))"
proof (cases p)
  case (Stop q)
  with assms(3) show ?thesis
    by (auto simp: sender_sent_def intro!: sender_stays exI [of _ "[]"] sends_quiet)
next
  case (Wait pc)
  with assms show ?thesis
    by (cases pc) (auto intro: sender_step_connect sender_step_data sender_step_close simp del: sender_react.simps sender_at.simps)
qed

section \<open>The receiver\<close>

definition data_state :: "nat \<Rightarrow> connection_status" where
  "data_state r = (if even r then WAIT_DATA0 else WAIT_DATA1)"

text \<open>The bytes of the blocks before message \<open>r\<close>.\<close>

definition written :: "bytes list \<Rightarrow> nat \<Rightarrow> bytes" where
  "written cs r = concat (take (r - 2) cs)"

fun receiver_at :: "bytes list \<Rightarrow> nat \<Rightarrow> receiver_cfg \<Rightarrow> bool" where
  "receiver_at cs r (Wait (RConn buf), s, out) \<longleftrightarrow> r = 0 \<and> out = [] \<and> length buf = MAX_DATA_SIZE"
| "receiver_at cs r (Wait (RAck3 buf), s, out) \<longleftrightarrow> r = 1 \<and> out = [] \<and> length buf = MAX_DATA_SIZE"
| "receiver_at cs r (Wait (RData a buf), s, out) \<longleftrightarrow>
     2 \<le> r \<and> r \<le> length cs + 2 \<and> a = parity r \<and> state s = data_state r \<and> length buf = MAX_DATA_SIZE
     \<and> out = written cs r \<and> [] \<notin> set (take (r - 2) cs)"
| "receiver_at cs r (Wait RQuiet, s, out) \<longleftrightarrow> r = length cs + 3 \<and> out = written cs r \<and> [] \<notin> set cs"
| "receiver_at cs r (Stop q, s, out) \<longleftrightarrow>
     r \<le> length cs + 3 \<and> out = written cs r \<and> (r = length cs + 3 \<longrightarrow> [] \<notin> set cs)
     \<and> (q = Ret () \<longrightarrow> length cs + 2 \<le> r)"

text \<open>The acknowledgement that a receiver at \<open>r\<close> sends, if any.\<close>

definition acked :: "nat \<Rightarrow> nat set" where
  "acked r = (if r = 0 then {} else {r - 1}) - {1}"

definition receiver_sent :: "bytes list \<Rightarrow> nat \<Rightarrow> ReliableSocket \<Rightarrow> receiver_cfg \<Rightarrow> bool" where
  "receiver_sent cs r s R \<longleftrightarrow> receiver_at cs r R \<and>
     (\<exists>ks. sorted ks \<and> set ks \<subseteq> acked r \<and> sends (is_ack cs) ks s (fst (snd R)))"

lemma receiver_sent_quiet:
  "receiver_at cs r (p, s', out) \<Longrightarrow> quiet_step s s' \<Longrightarrow> receiver_sent cs r s (p, s', out)"
  by (auto simp: receiver_sent_def intro!: exI [of _ "[]"] sends_quiet)

lemma receiver_sent_may:
  "receiver_at cs r (p, s', out) \<Longrightarrow> may_send (is_ack cs) k s s' \<Longrightarrow> k \<in> acked r
     \<Longrightarrow> receiver_sent cs r s (p, s', out)"
  unfolding receiver_sent_def may_send_def by (auto intro: exI [of _ "[]"] exI [of _ "[k]"])

lemma receiver_sent_after:
  assumes "sends (is_ack cs) ks s s'" and "set ks \<subseteq> acked r" and "receiver_sent cs r s' R"
  shows "receiver_sent cs r s R"
proof -
  from assms(3) obtain ks' where ks': "set ks' \<subseteq> acked r" "sends (is_ack cs) ks' s' (fst (snd R))"
    and at: "receiver_at cs r R" by (auto simp: receiver_sent_def)
  have "\<forall>i\<in>acked r. \<forall>j\<in>acked r. i \<le> j" by (auto simp: acked_def)
  then have "sorted_wrt (\<le>) (ks @ ks')"
    using assms(2) ks'(1) by (intro sorted_wrt_mono_rel [OF _ sorted_wrt_true]) auto
  with sends_trans [OF assms(1) ks'(2)] assms(2) ks'(1) at show ?thesis
    unfolding receiver_sent_def by (intro conjI exI [of _ "ks @ ks'"]) auto
qed

lemma receiver_sent_may_after:
  "may_send (is_ack cs) k s s' \<Longrightarrow> k \<in> acked r \<Longrightarrow> receiver_sent cs r s' R \<Longrightarrow> receiver_sent cs r s R"
  by (auto simp: may_send_def intro: receiver_sent_after [of _ "[]"] receiver_sent_after [of _ "[k]"])

lemma receiver_sent_after_quiet:
  "quiet_step s s' \<Longrightarrow> receiver_sent cs r s' R \<Longrightarrow> receiver_sent cs r s R"
  by (rule receiver_sent_after [of _ "[]"]) (simp_all add: sends_quiet)

lemma receiver_sent_state:
  "receiver_sent cs r (s\<lparr>state := st\<rparr>) R \<Longrightarrow> receiver_sent cs r s R"
  by (simp add: receiver_sent_def sends_def)

text \<open>A step on a datagram that holds message \<open>i\<close>: the receiver stays, or \<open>i\<close> was the one it waits for.\<close>

definition receiver_moves :: "bytes list \<Rightarrow> nat \<Rightarrow> nat \<Rightarrow> ReliableSocket \<Rightarrow> receiver_cfg \<Rightarrow> bool" where
  "receiver_moves cs r i s R \<longleftrightarrow> receiver_sent cs r s R \<or> i = r \<and> receiver_sent cs (Suc r) s R"

lemma receiver_stays: "receiver_sent cs r s R \<Longrightarrow> receiver_moves cs r i s R"
  by (simp add: receiver_moves_def)

lemma receiver_advances: "i = r \<Longrightarrow> receiver_sent cs (Suc r) s R \<Longrightarrow> receiver_moves cs r i s R"
  by (simp add: receiver_moves_def)

definition may_ack :: "bytes list \<Rightarrow> nat \<Rightarrow> 'a rs_io \<Rightarrow> bool" where
  "may_ack cs k m \<longleftrightarrow> (\<forall>s q s'. m s = (q, s') \<longrightarrow> may_send (is_ack cs) k s s')"

lemma may_ack_send: "a = ackno cs k \<Longrightarrow> may_ack cs k (send_ack env a)"
  unfolding may_ack_def using is_frame_ack by (auto intro!: send_ack_may_send simp: is_ack_def)

lemma may_ack_then: "may_ack cs k m \<Longrightarrow> quiet m' \<Longrightarrow> may_ack cs k (then_io m m')"
  unfolding may_ack_def framed_def then_io_split
  by (fastforce split: prod.splits outcome.splits intro: may_send_before_quiet)

lemma may_ackD: "may_ack cs k m \<Longrightarrow> m s = (q, s') \<Longrightarrow> may_send (is_ack cs) k s s'"
  by (simp add: may_ack_def)

lemma msg_type:
  "fr_type (msg cs i) = RDT_CONN \<longleftrightarrow> i = 0"
  "fr_type (msg cs i) = RDT_ACK \<longleftrightarrow> i = 1"
  "fr_type (msg cs i) = RDT_DATA \<longleftrightarrow> 2 \<le> i \<and> i < length cs + 2"
  "fr_type (msg cs i) = RDT_CLOSE \<longleftrightarrow> length cs + 2 \<le> i"
  by (auto simp: msg_def ack_frame_def)

lemma await_conn_step:
  assumes "await_conn t r s = (Ret (Some x), s')" and "holds_frame s f"
  shows "fr_type f = RDT_CONN"
  using assms(2)
proof (rule parse_holds)
  fix g assume "parse_received s = (Ret g, s)" "get_type g = fr_type f"
  with assms(1) show ?thesis
    by (auto simp: await_conn_def io_simps split: outcome.splits if_splits)
qed

lemma receiver_enter:
  assumes "\<And>q s'. pre s = (q, s') \<Longrightarrow> quiet_step s s' \<or> (\<exists>k\<in>acked r. may_send (is_ack cs) k s s')"
    and "\<And>t s'. state s' = state s \<Longrightarrow> receiver_at cs r (Wait (pc t), s', out)"
    and "\<And>q s'. q \<noteq> Ret () \<Longrightarrow> receiver_at cs r (Stop q, s', out)"
  shows "receiver_sent cs r s (enter pre (\<lambda>t s. (Wait (pc t), s, out)) (receiver_stop out) s)"
proof -
  have sent: "receiver_sent cs r s (p, s', out)"
    if "pre s = (q, s')" and "receiver_at cs r (p, s', out)" for p q s'
    using assms(1) [OF that(1)] that(2) by (auto intro: receiver_sent_quiet receiver_sent_may)
  have "state s' = state s" if "pre s = (q, s')" for q s'
    using assms(1) [OF that] by (auto simp: quiet_step_def may_send_def)
  with sent assms(2,3) show ?thesis
    by (intro enter_rule [where Q = "receiver_sent cs r s"]) (auto simp: receiver_stop_def)
qed

lemma receiver_step_conn:
  assumes "rx_ok e" and at: "receiver_at cs r (Wait (RConn buf), s, out)"
    and i: "\<And>f. rx_frame e = Some f \<Longrightarrow> f = msg cs i"
  shows "receiver_moves cs r i s (receiver_react env e (Wait (RConn buf), s, out))"
proof -
  from at have r: "r = 0" and buf: "length buf = MAX_DATA_SIZE" by auto
  have "receiver_moves cs r i s (iterate env fill_zero await_conn (\<lambda>_ s. (Wait (RConn buf), s, []))
      (receiver_stop []) (receiver_requested env buf) () e s)"
  proof (rule iterate_rule)
    fix p s2 q s3 assume "receive env e s = (p, s2)" "await_conn () p s2 = (Ret None, s3)"
    then have quiet: "quiet_step s s3" by (rule receive_body_quiet) (rule quiet_await_conn)
    show "receiver_moves cs r i s (enter fill_zero (\<lambda>_ s. (Wait (RConn buf), s, [])) (receiver_stop []) s3)"
      using r buf quietD [OF quiet_fill_zero]
      by (intro receiver_stays receiver_sent_after_quiet [OF quiet] receiver_enter) (auto simp: written_def)
  next
    fix p s2 x s3 assume rcv: "receive env e s = (p, s2)" and b: "await_conn () p s2 = (Ret (Some x), s3)"
    then have quiet: "quiet_step s s3" by (rule receive_body_quiet) (rule quiet_await_conn)
    from rcv assms(1) have "i = 0"
    proof (cases rule: receive_cases)
      case (1 f n)
      with i b await_conn_step show ?thesis by (metis msg_type(1))
    qed (use b in \<open>simp_all add: await_conn_def io_simps\<close>)
    have ack: "may_ack cs 0 (then_io (accept_ack2 env) fill_zero)"
      unfolding accept_ack2_def by (intro may_ack_then may_ack_send quiet_intros) (simp add: ackno_def)
    have "receiver_sent cs 1 s3 (receiver_requested env buf () s3)"
      unfolding receiver_requested_def
      using may_ackD [OF ack] by (intro receiver_enter) (auto simp: buf written_def acked_def)
    then show "receiver_moves cs r i s (receiver_requested env buf x s3)"
      using r \<open>i = 0\<close> by (intro receiver_advances receiver_sent_after_quiet [OF quiet]) auto
  next
    fix p s2 u s3 and q :: "(sock_exn, unit) outcome"
    assume rcv: "receive env e s = (p, s2)" "await_conn () p s2 = (u, s3)" and q: "q \<noteq> Ret ()"
    from rcv have quiet: "quiet_step s s3" by (rule receive_body_quiet) (rule quiet_await_conn)
    show "receiver_moves cs r i s (receiver_stop [] q s3)"
      using r q quiet unfolding receiver_stop_def
      by (intro receiver_stays receiver_sent_quiet) (auto simp: written_def)
  qed
  then show ?thesis by simp
qed

lemma receiver_data_sent:
  assumes "2 \<le> r" "r \<le> length cs + 2" "state s = data_state r" "length buf = MAX_DATA_SIZE"
    and "out = written cs r" "[] \<notin> set (take (r - 2) cs)"
  shows "receiver_sent cs r s (receiver_data env buf out s)"
proof -
  have "quiet (receive_start env)"
    unfolding receive_start_def by (intro quiet_intros)
  then show ?thesis
    using assms quietD unfolding receiver_data_def
    by (intro receiver_enter) (auto simp: expected_seq_def parity_def data_state_def)
qed

text \<open>What the receiver does while it waits for the third message of the handshake.\<close>

lemma await_ack3_step:
  assumes "await_ack3 env t p s = (q, s')"
  shows "may_send (is_ack cs) 0 s s'"
    and "q = Ret (Some x) \<Longrightarrow> quiet_step s s'"
    and "q = Ret (Some x) \<Longrightarrow> \<exists>n. p = Ret n"
    and "q = Ret (Some x) \<Longrightarrow> holds_frame s f \<Longrightarrow> fr_type f = RDT_ACK \<and> fr_ack f = 3"
proof -
  have ack: "may_send (is_ack cs) 0 s s'" if "then_io (send_ack env 2) (ret z) s = (q, s')" for z :: "unit option"
    using that by (intro may_ackD [where m = "then_io (send_ack env 2) (ret z)"] may_ack_then may_ack_send quiet_intros)
      (simp_all add: ackno_def)
  show "may_send (is_ack cs) 0 s s'"
    using assms ack [of None] by (auto simp: await_ack3_def bind_io_split io_simps(1,2)
        split: outcome.splits sock_exn.splits prod.splits if_splits
        dest!: parse_received_state intro: may_send_quiet)
  show "q = Ret (Some x) \<Longrightarrow> quiet_step s s'" and "q = Ret (Some x) \<Longrightarrow> \<exists>n. p = Ret n"
    using assms by (auto simp: await_ack3_def bind_io_split then_io_split io_simps(1,2)
        split: outcome.splits sock_exn.splits prod.splits if_splits dest!: parse_received_state)
  assume "q = Ret (Some x)" and "holds_frame s f"
  from this(2) show "fr_type f = RDT_ACK \<and> fr_ack f = 3"
  proof (rule parse_holds)
    fix g assume "parse_received s = (Ret g, s)" "get_type g = fr_type f" "get_ack_number g = fr_ack f"
    with assms \<open>q = Ret (Some x)\<close> show ?thesis
      by (auto simp: await_ack3_def bind_io_split then_io_split io_simps(1,2)
          split: outcome.splits sock_exn.splits prod.splits if_splits)
  qed
qed

lemma receiver_step_ack3:
  assumes ok: "blocks_ok cs" "rx_ok e" and at: "receiver_at cs r (Wait (RAck3 buf), s, out)"
    and i: "\<And>f. rx_frame e = Some f \<Longrightarrow> f = msg cs i"
  shows "receiver_moves cs r i s (receiver_react env e (Wait (RAck3 buf), s, out))"
proof -
  from at have r: "r = 1" and buf: "length buf = MAX_DATA_SIZE" by auto
  have k: "0 \<in> acked r" using r by (simp add: acked_def)
  have "receiver_moves cs r i s (iterate env fill_zero (await_ack3 env) (\<lambda>_ s. (Wait (RAck3 buf), s, []))
      (receiver_stop []) (receiver_opened env buf) () e s)"
  proof (rule iterate_rule)
    fix p s2 s3 assume "receive env e s = (p, s2)" and b: "await_ack3 env () p s2 = (Ret None, s3)"
    then have quiet: "quiet_step s s2" by (intro quietD [OF quiet_receive])
    from await_ack3_step(1) [OF b] have may: "may_send (is_ack cs) 0 s s3"
      by (rule may_send_after_quiet [OF quiet])
    have "receiver_sent cs r s3 (enter fill_zero (\<lambda>_ s. (Wait (RAck3 buf), s, [])) (receiver_stop []) s3)"
      using r buf quietD [OF quiet_fill_zero] by (intro receiver_enter) (auto simp: written_def)
    then show "receiver_moves cs r i s (enter fill_zero (\<lambda>_ s. (Wait (RAck3 buf), s, [])) (receiver_stop []) s3)"
      by (intro receiver_stays receiver_sent_may_after [OF may k])
  next
    fix p s2 x s3 assume rcv: "receive env e s = (p, s2)" and b: "await_ack3 env () p s2 = (Ret (Some x), s3)"
    note step = await_ack3_step(2-) [OF b refl]
    have quiet: "quiet_step s s3"
      using quietD [OF quiet_receive rcv] step(1) by (rule quiet_step_trans)
    from rcv ok(2) have "i = 1"
    proof (cases rule: receive_cases)
      case (1 f n)
      with i step(3) show ?thesis by (metis msg_type(2))
    qed (use step(2) in auto)
    have "receiver_sent cs 2 (s3\<lparr>state := WAIT_DATA0\<rparr>) (receiver_opened env buf x s3)"
      unfolding receiver_opened_def using buf ok(1)
      by (intro receiver_data_sent) (auto simp: data_state_def written_def blocks_ok_def)
    then have "receiver_sent cs (Suc r) s (receiver_opened env buf x s3)"
      using receiver_sent_after_quiet [OF quiet receiver_sent_state] r by (simp add: numeral_2_eq_2)
    then show "receiver_moves cs r i s (receiver_opened env buf x s3)"
      using r \<open>i = 1\<close> by (intro receiver_advances) auto
  next
    fix p s2 u s3 and q :: "(sock_exn, unit) outcome"
    assume "receive env e s = (p, s2)" and b: "await_ack3 env () p s2 = (u, s3)" and q: "q \<noteq> Ret ()"
    then have quiet: "quiet_step s s2" by (intro quietD [OF quiet_receive])
    from await_ack3_step(1) [OF b] have "may_send (is_ack cs) 0 s s3"
      by (rule may_send_after_quiet [OF quiet])
    then show "receiver_moves cs r i s (receiver_stop [] q s3)"
      using r q k unfolding receiver_stop_def
      by (intro receiver_stays receiver_sent_may [OF _ _ k]) (auto simp: written_def)
  qed
  then show ?thesis by simp
qed

text \<open>What the receiver does with a frame while it waits for data.\<close>

definition flipped :: "ReliableSocket \<Rightarrow> ReliableSocket" where
  "flipped s = s\<lparr>state := (if state s = WAIT_DATA0 then WAIT_DATA1 else WAIT_DATA0)\<rparr>"

lemma send_ack_fails: "send_ack env n s = (q, s') \<Longrightarrow> q = Ret () \<or> q = Exit_Failure \<and> s' = s"
  by (auto simp: io_simps split: if_splits)

lemma await_data_frame:
  assumes "await_data env a buf t (Ret n) s = (q, s')" and "holds_frame s f"
    and "length (fr_payload f) \<le> length buf"
  obtains (stop) "\<And>x. q \<noteq> Ret x" "s' = s"
  | (data) s1 where "fr_type f = RDT_DATA" "fr_seq f = a" "send_ack env a s = (Ret (), s1)"
      "s' = flipped s1" "q = Ret (Some (word_of_nat (length (fr_payload f)), overlay (fr_payload f) buf))"
  | (old) "fr_type f = RDT_DATA" "fr_seq f \<noteq> a" "send_ack env (1 - a) s = (Ret (), s')" "q = Ret None"
  | (close) s1 where "fr_type f = RDT_CLOSE" "send_ack env 4 s = (Ret (), s1)"
      "s' = s1\<lparr>state := CLOSING\<rparr>" "q = Ret (Some (0, buf))"
  | (other) "s' = s" "q = Ret None"
proof (rule parse_holds [OF assms(2)])
  fix g assume g: "parse_received s = (Ret g, s)" "get_type g = fr_type f"
    "get_sequence_number g = fr_seq f" "copy_span (payload g) = Some (fr_payload f)"
    "span_size (payload g) = length (fr_payload f)"
  have copy: "copy_payload_to g buf = Some (overlay (fr_payload f) buf)"
    using g(4) assms(3) by (simp add: copy_payload_to_def)
  have size: "get_payload_size g = word_of_nat (length (fr_payload f))"
    by (simp add: get_payload_size_def g(5))
  obtain q1 s1 where a: "send_ack env a s = (q1, s1)" by (cases "send_ack env a s")
  obtain q2 s2 where b: "send_ack env (1 - a) s = (q2, s2)" by (cases "send_ack env (1 - a) s")
  obtain q3 s3 where c: "send_ack env 4 s = (q3, s3)" by (cases "send_ack env 4 s")
  note acks = send_ack_fails [OF a] send_ack_fails [OF b] send_ack_fails [OF c]
  note run = await_data_def then_io_split bind_io_split io_simps(1-5) g copy size a b c
    flip_data_state_def flipped_def set_state_def
  show thesis
  proof (rule log_segment_cases [of g s])
    assume l: "log_segment g s = (Exit_Failure, s)"
    with assms(1) show thesis by (intro stop) (auto simp: run l)
  next
    assume l: "log_segment g s = (Ret (), s)"
    consider "fr_type f = RDT_DATA" "fr_seq f = a" | "fr_type f = RDT_DATA" "fr_seq f \<noteq> a"
      | "fr_type f = RDT_CLOSE" | "fr_type f \<noteq> RDT_DATA" "fr_type f \<noteq> RDT_CLOSE" by blast
    then show thesis
    proof cases
      case 1
      with assms(1) l acks(1) show thesis
        by (elim disjE; intro data stop) (auto simp: run)
    next
      case 2
      with assms(1) l acks(2) show thesis
        by (elim disjE; intro old stop) (auto simp: run)
    next
      case 3
      with assms(1) l acks(3) show thesis
        by (elim disjE; intro close stop) (auto simp: run)
    next
      case 4
      with assms(1) l show thesis by (intro other) (auto simp: run)
    qed
  qed
qed

lemma written_Suc:
  "2 \<le> r \<Longrightarrow> r < length cs + 2 \<Longrightarrow> written cs (Suc r) = written cs r @ cs ! (r - 2)"
  using take_Suc_conv_app_nth [of "r - 2" cs] by (simp add: written_def Suc_diff_le [symmetric])

lemma written_all: "length cs + 2 \<le> r \<Longrightarrow> written cs r = concat cs"
  by (simp add: written_def)

lemma empty_block_last:
  assumes "blocks_ok cs" and "k < length cs" and "cs ! k = []"
  shows "Suc k = length cs"
proof (rule ccontr)
  assume "Suc k \<noteq> length cs"
  with assms(2) have "k < length (butlast cs)" by auto
  then have "butlast cs ! k \<in> set (butlast cs)" and "butlast cs ! k = cs ! k"
    by (rule nth_mem, rule nth_butlast)
  with assms(1,3) show False by (simp add: blocks_ok_def)
qed

lemma receiver_close_data:
  "state s \<noteq> CLOSING \<Longrightarrow> receiver_close env out s =
     (Stop (Ret ()), s\<lparr>socket := (socket s)\<lparr>fd_open := False\<rparr>\<rparr>, out)"
  by (simp add: receiver_close_def enter_def on_socket_def us_close_def io_simps receiver_stop_def)

lemma receiver_got_block:
  assumes ok: "blocks_ok cs" and r: "2 \<le> r" "r < length cs + 2" and c: "c = cs ! (r - 2)"
    and st: "state s = data_state (Suc r)" and buf: "length buf = MAX_DATA_SIZE"
    and before: "[] \<notin> set (take (r - 2) cs)"
  shows "receiver_sent cs (Suc r) s
    (receiver_got env (written cs r) (word_of_nat (length c), overlay c buf) s)"
proof -
  have k: "r - 2 < length cs" using r by auto
  then have len: "length c \<le> 1394"
    using ok c by (auto simp: blocks_ok_def list_all_length max_sizes)
  then have size: "unat (word_of_nat (length c) :: u16) = length c" by simp
  then have zero: "(word_of_nat (length c) :: u16) = 0 \<longleftrightarrow> c = []"
    by (simp flip: unat_eq_zero)
  show ?thesis
  proof (cases "c = []")
    case True
    with empty_block_last [OF ok k] c r have "Suc r = length cs + 2" by simp
    moreover have close: "state s \<noteq> CLOSING" using st by (simp add: data_state_def)
    moreover have "quiet_step s (s\<lparr>socket := (socket s)\<lparr>fd_open := False\<rparr>\<rparr>)"
      by (simp add: quiet_step_def)
    ultimately show ?thesis
      using True written_Suc [OF r] c
      by (simp add: receiver_got_def receiver_close_data receiver_sent_quiet)
  next
    case False
    have "set (take (Suc r - 2) cs) = insert c (set (take (r - 2) cs))"
      using take_Suc_conv_app_nth [OF k] r c by (simp add: Suc_diff_le [symmetric])
    with False before have "[] \<notin> set (take (Suc r - 2) cs)" by simp
    then have "receiver_sent cs (Suc r) s (receiver_data env (overlay c buf) (written cs (Suc r)) s)"
      using r st len buf by (intro receiver_data_sent) (auto simp: max_sizes)
    moreover have "take (length c) (overlay c buf) = c"
      using take_overlay [of "length c" c buf] by simp
    ultimately show ?thesis
      using False st zero size written_Suc [OF r] c by (simp add: receiver_got_def data_state_def)
  qed
qed

lemma receiver_got_close:
  assumes "state s = CLOSING" and "[] \<notin> set cs" and "r = length cs + 2"
  shows "receiver_sent cs (Suc r) s (receiver_got env (written cs r) (0, buf) s)"
proof -
  have q: "quiet (then_io (set_timeout env 2000) fill_zero)"
    by (intro quiet_intros)
  have "receiver_sent cs (Suc r) s (enter (then_io (set_timeout env 2000) fill_zero)
      (\<lambda>_ s. (Wait RQuiet, s, written cs r)) (receiver_stop (written cs r)) s)"
    using quietD [OF q] assms by (intro receiver_enter) (auto simp: written_all)
  with assms(1) show ?thesis
    by (simp add: receiver_got_def receiver_close_def)
qed

lemma send_ack_keeps: "send_ack env n s = (q, s') \<Longrightarrow> state s' = state s"
  by (auto simp: io_simps split: if_splits)

text \<open>How a result of the body moves the process.\<close>

lemma receiver_data_results:
  assumes at: "receiver_at cs r (Wait (RData a buf), s, out)"
    and rcv: "receive env e s = (p, s2)" and body: "await_data env a buf () p s2 = (q, s3)"
  defines "R \<equiv> receiver_react env e (Wait (RData a buf), s, out)"
  shows "(\<And>x. q \<noteq> Ret x) \<Longrightarrow> s3 = s2 \<Longrightarrow> receiver_moves cs r i s R"
    and "q = Ret None \<Longrightarrow> k \<in> acked r \<Longrightarrow> may_send (is_ack cs) k s s3 \<Longrightarrow> receiver_moves cs r i s R"
    and "q = Ret None \<Longrightarrow> s3 = s2 \<Longrightarrow> receiver_moves cs r i s R"
    and "i = r \<Longrightarrow> q = Ret (Some x) \<Longrightarrow> may_send (is_ack cs) r s s1 \<Longrightarrow> s3 = s1\<lparr>state := st'\<rparr>
      \<Longrightarrow> receiver_sent cs (Suc r) s3 (receiver_got env out x s3) \<Longrightarrow> receiver_moves cs r i s R"
proof -
  have enter_ret: "enter (ret ()) mk stop s' = mk () s'" for mk stop s'
    by (simp add: enter_def io_simps)
  have run: "R = (case q of Ret None \<Rightarrow> (Wait (RData a buf), s3, out)
       | Ret (Some x) \<Rightarrow> receiver_got env out x s3 | _ \<Rightarrow> receiver_stop out (pass q) s3)"
    by (simp add: R_def iterate_def rcv body enter_ret split: outcome.split option.split)
  have quiet: "quiet_step s s2" using quietD [OF quiet_receive rcv] .
  have wait: "receiver_at cs r (Wait (RData a buf), s', out)" if "state s' = state s" for s'
    using at that by simp
  have stopped: "receiver_at cs r (Stop q, s', out)" if "q \<noteq> Ret ()" for q s'
    using at that by simp
  show "receiver_moves cs r i s R" if "\<And>x. q \<noteq> Ret x" and "s3 = s2"
  proof -
    have "R = (Stop (pass q), s2, out)"
      using that by (cases q) (auto simp: run receiver_stop_def split: option.splits)
    moreover have "receiver_at cs r (Stop (pass q), s2, out)"
      by (rule stopped, rule pass_not_Ret, rule that(1))
    ultimately show ?thesis
      using quiet by (simp only: receiver_stays receiver_sent_quiet)
  qed
  show "receiver_moves cs r i s R" if "q = Ret None" and "k \<in> acked r" and "may_send (is_ack cs) k s s3"
  proof -
    have "receiver_at cs r (Wait (RData a buf), s3, out)" using wait that(3) by (simp add: may_send_def)
    from receiver_stays [OF receiver_sent_may [OF this that(3,2)]] show ?thesis by (simp add: run that(1))
  qed
  show "receiver_moves cs r i s R" if "q = Ret None" and "s3 = s2"
  proof -
    have "receiver_at cs r (Wait (RData a buf), s3, out)" using wait quiet that(2) by (simp add: quiet_step_def)
    from receiver_stays [OF receiver_sent_quiet [OF this]] show ?thesis using quiet by (simp add: run that)
  qed
  show "receiver_moves cs r i s R" if "i = r" "q = Ret (Some x)" "may_send (is_ack cs) r s s1"
    "s3 = s1\<lparr>state := st'\<rparr>" "receiver_sent cs (Suc r) s3 (receiver_got env out x s3)"
  proof (rule receiver_advances [OF that(1)])
    have "r \<in> acked (Suc r)" using at by (simp add: acked_def)
    with receiver_sent_may_after [OF that(3)] receiver_sent_state that(2,4,5)
    show "receiver_sent cs (Suc r) s R" by (simp add: run)
  qed
qed

lemma msg_data:
  assumes "fr_type (msg cs i) = RDT_DATA"
  shows "2 \<le> i \<and> i < length cs + 2 \<and> fr_seq (msg cs i) = parity i \<and> ackno cs i = parity i
    \<and> fr_payload (msg cs i) = cs ! (i - 2)"
  using assms msg_type(3) [of cs i] by (simp add: msg_def ackno_def)

lemma msg_payload_length: "blocks_ok cs \<Longrightarrow> length (fr_payload (msg cs i)) \<le> MAX_DATA_SIZE"
  by (auto simp: msg_def ack_frame_def blocks_ok_def list_all_length)

lemma receiver_step_data:
  assumes ok: "blocks_ok cs" "rx_ok e" and at: "receiver_at cs r (Wait (RData a buf), s, out)"
    and i: "\<And>f. rx_frame e = Some f \<Longrightarrow> f = msg cs i \<and> (i = r \<or> Suc i = r)"
  shows "receiver_moves cs r i s (receiver_react env e (Wait (RData a buf), s, out))"
proof -
  from at have r: "2 \<le> r" "r \<le> length cs + 2" and a: "a = parity r" and st: "state s = data_state r"
    and buf: "length buf = MAX_DATA_SIZE" and out: "out = written cs r"
    and before: "[] \<notin> set (take (r - 2) cs)" by auto
  obtain p s2 where rcv: "receive env e s = (p, s2)" by (cases "receive env e s")
  note quiet = quietD [OF quiet_receive rcv]
  obtain q s3 where body: "await_data env a buf () p s2 = (q, s3)" by (cases "await_data env a buf () p s2")
  note results = receiver_data_results [OF at rcv body]
  have ack: "may_send (is_ack cs) k s s'" if "send_ack env (ackno cs k) s2 = (q', s')" for k q' s'
    using may_ackD [OF may_ack_send that] may_send_after_quiet [OF quiet] by simp
  have st2: "state s2 = data_state r" using quiet st by (simp add: quiet_step_def)
  from rcv ok(2) show ?thesis
  proof (cases rule: receive_cases)
    case (1 f n)
    from i [OF 1(2)] have f: "f = msg cs i" and ri: "i = r \<or> Suc i = r" by auto
    have len: "length (fr_payload f) \<le> length buf"
      using ok(1) buf msg_payload_length by (simp add: f)
    from body [unfolded 1(1)] 1(3) len show ?thesis
    proof (cases rule: await_data_frame)
      case stop
      then show ?thesis by (rule results(1))
    next
      case (data s1)
      note m = msg_data [OF data(1) [unfolded f]]
      with data a ri f have "i = r" by auto
      with m data(3) a have s1: "may_send (is_ack cs) r s s1" using ack by simp
      have "state s1 = data_state r" using send_ack_keeps [OF data(3)] st2 by simp
      then have "state s3 = data_state (Suc r)" by (simp add: data(4) flipped_def data_state_def)
      then have "receiver_sent cs (Suc r) s3 (receiver_got env out
          (word_of_nat (length (fr_payload f)), overlay (fr_payload f) buf) s3)"
        using receiver_got_block [OF ok(1) r(1) _ refl _ buf before] m f \<open>i = r\<close> out by simp
      then show ?thesis by (rule results(4) [OF \<open>i = r\<close> data(5) s1 data(4) [unfolded flipped_def]])
    next
      case old
      note m = msg_data [OF old(1) [unfolded f]]
      with old a ri f have "Suc i = r" by auto
      with m a old(3) have s3: "may_send (is_ack cs) i s s3" using ack [of i] by auto
      have "i \<in> acked r" using m \<open>Suc i = r\<close> by (auto simp: acked_def)
      with old(4) show ?thesis using s3 by (rule results(2))
    next
      case (close s1)
      then have "length cs + 2 \<le> i" using msg_type(4) by (simp add: f)
      with ri r have "i = r" and rn: "r = length cs + 2" by auto
      then have s1: "may_send (is_ack cs) r s s1" using close(2) ack [of r] by (simp add: ackno_def)
      have "receiver_sent cs (Suc r) s3 (receiver_got env out (0, buf) s3)"
        using before rn unfolding out by (intro receiver_got_close) (auto simp: close(3))
      then show ?thesis by (rule results(4) [OF \<open>i = r\<close> close(4) s1 close(3)])
    next
      case other
      then show ?thesis by (intro results(3))
    qed
  qed (use body results(1) in \<open>auto simp: await_data_def io_simps\<close>)
qed

lemma await_quiet_step:
  assumes "await_quiet env t p s = (q, s')" and "4 = ackno cs k"
  shows "may_send (is_ack cs) k s s' \<and> (q = Ret (Some x) \<longrightarrow> s' = s)"
proof -
  have ack: "may_send (is_ack cs) k s s'" if "then_io (send_ack env 4) (ret z) s = (q, s')" for z :: "unit option"
    using that assms(2) by (intro may_ackD [where m = "then_io (send_ack env 4) (ret z)"] may_ack_then
        may_ack_send quiet_intros)
  show ?thesis
    using assms(1) ack [of None]
    by (auto simp: await_quiet_def bind_io_split io_simps(1,2) split: outcome.splits prod.splits if_splits
        dest!: parse_received_state intro: may_send_quiet)
      (auto simp: then_io_split io_simps(1) split: outcome.splits prod.splits)
qed

lemma receiver_step_quiet:
  assumes at: "receiver_at cs r (Wait RQuiet, s, out)"
  shows "receiver_moves cs r i s (receiver_react env e (Wait RQuiet, s, out))"
proof -
  from at have r: "r = length cs + 3" by simp
  then have k: "length cs + 2 \<in> acked r" and four: "4 = ackno cs (length cs + 2)"
    by (auto simp: acked_def ackno_def)
  have stopped: "receiver_at cs r (Stop q, s', out)" for q s' using at by simp
  have "receiver_moves cs r i s (iterate env fill_zero (await_quiet env) (\<lambda>_ s. (Wait RQuiet, s, out))
      (receiver_stop out) (receiver_quiet out) () e s)"
  proof (rule iterate_rule)
    fix p s2 s3 assume rcv: "receive env e s = (p, s2)" and b: "await_quiet env () p s2 = (Ret None, s3)"
    have may: "may_send (is_ack cs) (length cs + 2) s s3"
      using may_send_after_quiet [OF quietD [OF quiet_receive rcv]] await_quiet_step [OF b four] by simp
    have "receiver_sent cs r s3 (enter fill_zero (\<lambda>_ s. (Wait RQuiet, s, out)) (receiver_stop out) s3)"
      using at quietD [OF quiet_fill_zero] by (intro receiver_enter) auto
    then show "receiver_moves cs r i s (enter fill_zero (\<lambda>_ s. (Wait RQuiet, s, out)) (receiver_stop out) s3)"
      by (intro receiver_stays receiver_sent_may_after [OF may k])
  next
    fix p s2 x s3 assume rcv: "receive env e s = (p, s2)" and b: "await_quiet env () p s2 = (Ret (Some x), s3)"
    have "s3 = s2" using await_quiet_step [OF b four] by simp
    then have quiet: "quiet_step s (s3\<lparr>state := CLOSED, socket := (socket s3)\<lparr>fd_open := False\<rparr>\<rparr>\<lparr>state := state s\<rparr>)"
      using quietD [OF quiet_receive rcv] by (simp add: quiet_step_def)
    then have "receiver_sent cs r s (Stop (Ret ()), s3\<lparr>state := CLOSED, socket := (socket s3)\<lparr>fd_open := False\<rparr>\<rparr>, out)"
      using stopped by (auto simp: receiver_sent_def quiet_step_def sends_def intro!: exI [of _ "[]"])
    then show "receiver_moves cs r i s (receiver_quiet out x s3)"
      by (intro receiver_stays) (simp add: receiver_quiet_def enter_def then_io_split set_state_def
          us_close_def on_socket_def io_simps receiver_stop_def)
  next
    fix p s2 u s3 and q :: "(sock_exn, unit) outcome"
    assume rcv: "receive env e s = (p, s2)" and b: "await_quiet env () p s2 = (u, s3)"
    have may: "may_send (is_ack cs) (length cs + 2) s s3"
      using may_send_after_quiet [OF quietD [OF quiet_receive rcv]] await_quiet_step [OF b four] by simp
    show "receiver_moves cs r i s (receiver_stop out q s3)"
      unfolding receiver_stop_def by (rule receiver_stays, rule receiver_sent_may [OF stopped may k])
  qed
  then show ?thesis by simp
qed

theorem receiver_step:
  assumes "blocks_ok cs" "rx_ok e" "receiver_at cs r (p, s, out)"
    and "\<And>f. rx_frame e = Some f \<Longrightarrow> f = msg cs i \<and> (r \<le> 1 \<or> i = r \<or> Suc i = r)"
  shows "receiver_moves cs r i s (receiver_react env e (p, s, out))"
proof (cases p)
  case (Stop q)
  with assms(3) show ?thesis
    by (auto intro!: receiver_stays receiver_sent_quiet)
next
  case (Wait pc)
  show ?thesis
  proof (cases pc)
    case (RData a buf)
    with assms(3) Wait have "\<not> r \<le> 1" by simp
    with assms Wait RData show ?thesis by (simp only:) (blast intro: receiver_step_data)
  qed (use assms Wait in \<open>auto intro: receiver_step_conn receiver_step_ack3 receiver_step_quiet
    simp del: receiver_react.simps receiver_at.simps\<close>)
qed

end
