(* ===== verification/Rdt_Network.thy ===== *)
theory Rdt_Network
  imports Rdt_Roles "HOL-Library.Sublist"
begin

text \<open>
  A sender and a receiver joined by two channels that lose, repeat and delay datagrams but keep their
  order, as the project's test network does (\<open>mock_network.py\<close> forwards or drops one datagram after the
  other). UDP does not promise the order: it is the condition of what is proved here, and what happens
  without it is in \<open>Rdt_Reorder\<close>. \<open>fifo_step\<close> interleaves the programs in any way: a process gets the
  first datagram of its channel, or a timeout if it set one, or an error from the system. The network
  refines an abstract exchange (\<open>represents\<close>); what the two programs promise each other follows from it.
\<close>

section \<open>The blocks of a file\<close>

lemma read_chunks_ne [simp]: "read_chunks content \<noteq> []"
  by (subst read_chunks.simps) simp

lemma concat_read_chunks [simp]: "concat (read_chunks content) = content"
proof (induction content rule: read_chunks.induct)
  case (1 content)
  then show ?case by (subst read_chunks.simps) simp
qed

lemma read_chunks_full:
  "list_all (\<lambda>c. length c = MAX_DATA_SIZE) (butlast (read_chunks content))
     \<and> length (last (read_chunks content)) = length content mod MAX_DATA_SIZE"
proof (induction content rule: read_chunks.induct)
  case (1 content)
  show ?case
  proof (cases "length content < MAX_DATA_SIZE")
    case False
    with 1 [OF False] have "length content mod MAX_DATA_SIZE = (length content - MAX_DATA_SIZE) mod MAX_DATA_SIZE"
      by (simp add: le_mod_geq)
    with False 1 [OF False] show ?thesis
      by (subst (1 2) read_chunks.simps) (simp add: max_sizes)
  qed (subst (1 2) read_chunks.simps, simp)
qed

lemma last_read_chunks: "last (read_chunks content) = [] \<longleftrightarrow> MAX_DATA_SIZE dvd length content"
  using read_chunks_full [of content] by (metis length_0_conv dvd_eq_mod_eq_0)

lemma blocks_ok_read_chunks [simp]: "blocks_ok (read_chunks content)"
proof -
  let ?cs = "read_chunks content"
  note full = read_chunks_full [of content]
  have "c \<in> set (butlast ?cs) \<or> c = last ?cs" if "c \<in> set ?cs" for c
    using that by (rule in_set_butlast_or_last)
  then have "list_all (\<lambda>c. length c \<le> MAX_DATA_SIZE) ?cs"
    using full by (fastforce simp: list_all_iff max_sizes less_imp_le)
  moreover have "[] \<notin> set (butlast ?cs)"
    using full by (auto simp: list_all_iff max_sizes)
  ultimately show ?thesis by (simp add: blocks_ok_def)
qed

section \<open>The network\<close>

record net =
  snd_cfg :: sender_cfg
  rcv_cfg :: receiver_cfg
  fwd :: "bytes list"
  bwd :: "bytes list"

definition emitted :: "ReliableSocket \<Rightarrow> ReliableSocket \<Rightarrow> bytes list" where
  "emitted s s' = drop (length (tx (socket s))) (tx (socket s'))"

definition sender_handles :: "os_env \<Rightarrow> bytes \<Rightarrow> rx_event \<Rightarrow> net \<Rightarrow> net" where
  "sender_handles es content e N =
     (let S = sender_react es (read_chunks content) e (snd_cfg N)
      in N\<lparr>snd_cfg := S, fwd := fwd N @ emitted (snd (snd_cfg N)) (snd S)\<rparr>)"

definition receiver_handles :: "os_env \<Rightarrow> rx_event \<Rightarrow> net \<Rightarrow> net" where
  "receiver_handles er e N =
     (let R = receiver_react er e (rcv_cfg N)
      in N\<lparr>rcv_cfg := R, bwd := bwd N @ emitted (fst (snd (rcv_cfg N))) (fst (snd R))\<rparr>)"

inductive fifo_step :: "os_env \<Rightarrow> os_env \<Rightarrow> bytes \<Rightarrow> net \<Rightarrow> net \<Rightarrow> bool" for es er content where
  sender_receives:
    "bwd N = d # b \<Longrightarrow> fifo_step es er content N (sender_handles es content (RxDatagram d) (N\<lparr>bwd := b\<rparr>))"
| sender_times_out:
    "timeout_length (socket (snd (snd_cfg N))) \<noteq> 0 \<Longrightarrow>
       fifo_step es er content N (sender_handles es content RxAgain N)"
| sender_fails: "fifo_step es er content N (sender_handles es content RxError N)"
| receiver_receives:
    "fwd N = d # b \<Longrightarrow> fifo_step es er content N (receiver_handles er (RxDatagram d) (N\<lparr>fwd := b\<rparr>))"
| receiver_times_out:
    "timeout_length (socket (fst (snd (rcv_cfg N)))) \<noteq> 0 \<Longrightarrow>
       fifo_step es er content N (receiver_handles er RxAgain N)"
| receiver_fails: "fifo_step es er content N (receiver_handles er RxError N)"
| fwd_lost: "fwd N = a @ d # b \<Longrightarrow> fifo_step es er content N (N\<lparr>fwd := a @ b\<rparr>)"
| fwd_repeated: "fwd N = a @ d # b \<Longrightarrow> fifo_step es er content N (N\<lparr>fwd := a @ d # d # b\<rparr>)"
| bwd_lost: "bwd N = a @ d # b \<Longrightarrow> fifo_step es er content N (N\<lparr>bwd := a @ b\<rparr>)"
| bwd_repeated: "bwd N = a @ d # b \<Longrightarrow> fifo_step es er content N (N\<lparr>bwd := a @ d # d # b\<rparr>)"

inductive_cases fifo_step_cases: "fifo_step es er content N N'"

text \<open>\<open>mem\<close> is what the receiver's array holds before its first call.\<close>

definition net_start :: "os_env \<Rightarrow> os_env \<Rightarrow> (nat \<Rightarrow> u8) \<Rightarrow> net" where
  "net_start es er mem =
     (let S = sender_start es; R = receiver_start er (map mem [0..<MAX_DATA_SIZE])
      in \<lparr>snd_cfg = S, rcv_cfg = R, fwd = tx (socket (snd S)), bwd = tx (socket (fst (snd R)))\<rparr>)"

definition received_file :: "net \<Rightarrow> bytes" where
  "received_file N = snd (snd (rcv_cfg N))"

definition sender_returned :: "net \<Rightarrow> bool" where
  "sender_returned N \<longleftrightarrow> fst (snd_cfg N) = Stop (Ret ())"

definition receiver_returned :: "net \<Rightarrow> bool" where
  "receiver_returned N \<longleftrightarrow> fst (rcv_cfg N) = Stop (Ret ())"

section \<open>The exchange and its invariant\<close>

text \<open>
  The exchange that the network refines: the sender waits for the acknowledgement of \<open>c\<close>, the receiver
  for message \<open>r\<close>, \<open>I\<close> and \<open>J\<close> are the numbers of the messages and acknowledgements under way.
\<close>

inductive exchange :: "nat \<Rightarrow> nat \<times> nat \<times> nat list \<times> nat list \<Rightarrow> nat \<times> nat \<times> nat list \<times> nat list \<Rightarrow> bool"
  for n where
  sender_resends: "sorted ks \<Longrightarrow> set ks \<subseteq> {c} \<inter> {..n + 2} \<Longrightarrow> exchange n (c, r, I, J) (c, r, I @ ks, J)"
| sender_discards: "sorted ks \<Longrightarrow> set ks \<subseteq> {c} \<inter> {..n + 2} \<Longrightarrow> exchange n (c, r, I, j # J) (c, r, I @ ks, J)"
| sender_advances: "sorted ks \<Longrightarrow> set ks \<subseteq> {c<..following c} \<inter> {..n + 2} \<Longrightarrow>
    exchange n (c, r, I, c # J) (following c, r, I @ ks, J)"
| receiver_resends: "sorted ks \<Longrightarrow> set ks \<subseteq> acked r \<Longrightarrow> exchange n (c, r, I, J) (c, r, I, J @ ks)"
| receiver_discards: "sorted ks \<Longrightarrow> set ks \<subseteq> acked r \<Longrightarrow> exchange n (c, r, i # I, J) (c, r, I, J @ ks)"
| receiver_advances: "sorted ks \<Longrightarrow> set ks \<subseteq> acked (Suc r) \<Longrightarrow>
    exchange n (c, r, r # I, J) (c, Suc r, I, J @ ks)"
| fwd_loses: "exchange n (c, r, I1 @ i # I2, J) (c, r, I1 @ I2, J)"
| fwd_repeats: "exchange n (c, r, I1 @ i # I2, J) (c, r, I1 @ i # i # I2, J)"
| bwd_loses: "exchange n (c, r, I, J1 @ j # J2) (c, r, I, J1 @ J2)"
| bwd_repeats: "exchange n (c, r, I, J1 @ j # J2) (c, r, I, J1 @ j # j # J2)"

inductive_cases exchange_cases: "exchange n p p'"

definition before :: "nat \<Rightarrow> nat" where
  "before c = (if c \<le> 2 then 0 else c - 1)"

definition in_step :: "nat \<Rightarrow> nat \<Rightarrow> nat \<Rightarrow> nat list \<Rightarrow> nat list \<Rightarrow> bool" where
  "in_step n c r I J \<longleftrightarrow> sorted I \<and> sorted J \<and> c \<noteq> 1 \<and> (c \<le> r \<or> c = 2 \<and> r = 1) \<and> r \<le> Suc c
     \<and> set I \<subseteq> {r - 1..c} \<inter> {..n + 2} \<and> set J \<subseteq> {before c..<r} - {1}"

definition in_step_at :: "nat \<Rightarrow> nat \<times> nat \<times> nat list \<times> nat list \<Rightarrow> bool" where
  "in_step_at n p = (case p of (c, r, I, J) \<Rightarrow> in_step n c r I J)"

lemma in_step_sends:
  "in_step n c r I J \<Longrightarrow> sorted ks \<Longrightarrow> set ks \<subseteq> {c} \<inter> {..n + 2} \<Longrightarrow> in_step n c r (I @ ks) J"
  by (fastforce simp: in_step_def sorted_append)

lemma in_step_acks:
  "in_step n c r I J \<Longrightarrow> sorted ks \<Longrightarrow> set ks \<subseteq> acked r \<Longrightarrow> in_step n c r I (J @ ks)"
  by (fastforce simp: in_step_def sorted_append acked_def before_def split: if_splits)

lemma in_step_sender:
  assumes "in_step n c r I (c # J)" and "sorted ks" and "set ks \<subseteq> {c<..following c} \<inter> {..n + 2}"
  shows "in_step n (following c) r (I @ ks) J"
proof -
  have "sorted (I @ ks)"
    using assms by (fastforce simp: in_step_def sorted_append)
  moreover have "set (I @ ks) \<subseteq> {r - 1..following c} \<inter> {..n + 2}"
    using assms by (fastforce simp: in_step_def following_def)
  moreover have "set J \<subseteq> {before (following c)..<r} - {1}"
    using assms by (fastforce simp: in_step_def following_def before_def)
  ultimately show ?thesis
    using assms(1) by (auto simp: in_step_def following_def split: if_splits)
qed

lemma in_step_receiver:
  assumes "in_step n c r (r # I) J" and "sorted ks" and "set ks \<subseteq> acked (Suc r)"
  shows "in_step n c (Suc r) I (J @ ks)"
proof -
  have "sorted (J @ ks)"
    using assms by (fastforce simp: in_step_def sorted_append acked_def)
  moreover have "set (J @ ks) \<subseteq> {before c..<Suc r} - {1}"
    using assms by (fastforce simp: in_step_def acked_def before_def split: if_splits)
  ultimately show ?thesis
    using assms(1) by (fastforce simp: in_step_def)
qed

lemma in_step_channel:
  "in_step n c r (I1 @ i # I2) J \<Longrightarrow> in_step n c r (I1 @ I2) J"
  "in_step n c r (I1 @ i # I2) J \<Longrightarrow> in_step n c r (I1 @ i # i # I2) J"
  "in_step n c r I (J1 @ i # J2) \<Longrightarrow> in_step n c r I (J1 @ J2)"
  "in_step n c r I (J1 @ i # J2) \<Longrightarrow> in_step n c r I (J1 @ i # i # J2)"
  by (auto simp: in_step_def sorted_append)

lemma in_step_tl:
  "in_step n c r (i # I) J \<Longrightarrow> in_step n c r I J"
  "in_step n c r I (j # J) \<Longrightarrow> in_step n c r I J"
  by (auto simp: in_step_def)

lemma exchange_in_step: "exchange n p p' \<Longrightarrow> in_step_at n p \<Longrightarrow> in_step_at n p'"
  by (induction rule: exchange.induct)
    (simp_all only: in_step_at_def prod.case, (blast intro: in_step_sends in_step_acks in_step_sender
      in_step_receiver in_step_channel dest: in_step_tl)+)

interpretation exchange_inv: step_invariant "exchange n" "in_step_at n"
  for n
  by unfold_locales (rule exchange_in_step)

text \<open>Among the acknowledgements that can be under way, the byte on the wire tells which it is.\<close>

lemma ackno_unique:
  assumes "in_step (length cs) c r I (j # J)" and "ackno cs j = ackno cs c" and "c \<le> length cs + 2"
  shows "j = c"
proof -
  from assms(1) have j: "before c \<le> j" "j < r" "j \<noteq> 1" "r \<le> Suc c" "c \<noteq> 1" by (auto simp: in_step_def)
  show ?thesis
  proof (rule ccontr)
    assume "j \<noteq> c"
    with j have "j < c" by simp
    with j have "c = 2 \<and> j = 0 \<or> Suc j = c \<and> 2 \<le> j"
      by (auto simp: before_def split: if_splits)
    with assms(2,3) show False by (auto simp: ackno_def split: if_splits)
  qed
qed

section \<open>The network refines the exchange\<close>

definition represents :: "bytes list \<Rightarrow> nat \<times> nat \<times> nat list \<times> nat list \<Rightarrow> net \<Rightarrow> bool" where
  "represents cs p N = (case p of (c, r, I, J) \<Rightarrow>
     sender_at cs c (snd_cfg N) \<and> receiver_at cs r (rcv_cfg N)
     \<and> list_all2 (is_msg cs) I (fwd N) \<and> list_all2 (is_ack cs) J (bwd N) \<and> in_step (length cs) c r I J)"

definition simulated :: "bytes list \<Rightarrow> nat \<times> nat \<times> nat list \<times> nat list \<Rightarrow> net \<Rightarrow> bool" where
  "simulated cs p N \<longleftrightarrow> (\<exists>p'. exchange (length cs) p p' \<and> represents cs p' N)"

lemma simulatedI:
  assumes "represents cs p M" and "exchange (length cs) p (c, r, I, J)" and "sender_at cs c (snd_cfg N)"
    and "receiver_at cs r (rcv_cfg N)" "list_all2 (is_msg cs) I (fwd N)" "list_all2 (is_ack cs) J (bwd N)"
  shows "simulated cs p N"
proof -
  have "in_step_at (length cs) p" using assms(1) by (auto simp: represents_def in_step_at_def)
  with assms(2) have "in_step_at (length cs) (c, r, I, J)" by (rule exchange_in_step)
  with assms show ?thesis
    unfolding simulated_def by (intro exI [of _ "(c, r, I, J)"]) (simp add: represents_def in_step_at_def)
qed

lemma emitted_sends: "sends C ks s s' \<Longrightarrow> list_all2 C ks (emitted s s')"
  by (auto simp: sends_def emitted_def)

lemma rx_ok_is_frame: "is_frame f d \<Longrightarrow> rx_ok (RxDatagram d) \<and> rx_frame (RxDatagram d) = Some f"
  by (simp add: is_frame_def rx_ok_def)

lemma sender_idle_simulated:
  assumes rep: "represents (read_chunks content) (c, r, I, J) N" and e: "rx_frame e = None" "rx_ok e"
  shows "simulated (read_chunks content) (c, r, I, J) (sender_handles es content e N)"
proof -
  let ?cs = "read_chunks content"
  obtain p s where N: "snd_cfg N = (p, s)" by fastforce
  from rep have at: "sender_at ?cs c (p, s)" by (simp add: represents_def N)
  have "\<not> acknowledges ?cs c e" using e(1) by (simp add: acknowledges_def)
  with sender_step [OF _ e(2) at] have "sender_sent ?cs c {c} s (sender_react es ?cs e (p, s))"
    by (simp add: sender_moves_def)
  then obtain ks where ks: "sender_at ?cs c (sender_react es ?cs e (p, s))" "sorted ks"
    "set ks \<subseteq> {c} \<inter> {..length ?cs + 2}" "sends (is_msg ?cs) ks s (snd (sender_react es ?cs e (p, s)))"
    unfolding sender_sent_def by blast
  have "exchange (length ?cs) (c, r, I, J) (c, r, I @ ks, J)" using ks(2,3) by (rule exchange.sender_resends)
  with rep show ?thesis
    by (rule simulatedI) (use rep ks in \<open>auto simp: represents_def sender_handles_def Let_def N
      intro: list_all2_appendI emitted_sends\<close>)
qed

lemma sender_gets_simulated:
  assumes rep: "represents (read_chunks content) (c, r, I, J) N" and b: "bwd N = d # b"
  shows "simulated (read_chunks content) (c, r, I, J) (sender_handles es content (RxDatagram d) (N\<lparr>bwd := b\<rparr>))"
proof -
  let ?cs = "read_chunks content" and ?e = "RxDatagram d"
  obtain p s where N: "snd_cfg N = (p, s)" by fastforce
  from rep b obtain j J' where at: "sender_at ?cs c (p, s)" and rcv: "receiver_at ?cs r (rcv_cfg N)"
    and I: "list_all2 (is_msg ?cs) I (fwd N)" and j: "is_ack ?cs j d" and J: "J = j # J'"
    "list_all2 (is_ack ?cs) J' b" and step: "in_step (length ?cs) c r I (j # J')"
    by (auto simp: represents_def N list_all2_Cons2)
  from j have ok: "rx_ok ?e" and f: "rx_frame ?e = Some (ack_frame (ackno ?cs j))"
    using rx_ok_is_frame by (auto simp: is_ack_def)
  let ?S = "sender_react es ?cs ?e (p, s)"
  have handles: "sender_handles es content ?e (N\<lparr>bwd := b\<rparr>) =
      N\<lparr>bwd := b, snd_cfg := ?S, fwd := fwd N @ emitted s (snd ?S)\<rparr>"
    by (simp add: sender_handles_def Let_def N)
  from sender_step [OF _ ok at, of es] consider "sender_sent ?cs c {c} s ?S"
    | "acknowledges ?cs c ?e" "sender_sent ?cs (following c) {c<..following c} s ?S"
    by (auto simp: sender_moves_def)
  then show ?thesis
  proof cases
    case 1
    then obtain ks where ks: "sender_at ?cs c ?S" "sorted ks"
      "set ks \<subseteq> {c} \<inter> {..length ?cs + 2}" "sends (is_msg ?cs) ks s (snd ?S)"
      unfolding sender_sent_def by blast
    have "exchange (length ?cs) (c, r, I, j # J') (c, r, I @ ks, J')"
      using ks(2,3) by (rule exchange.sender_discards)
    with rep [unfolded J(1)] show ?thesis
      unfolding J(1) by (rule simulatedI)
        (use ks rcv I J in \<open>auto simp: handles intro: list_all2_appendI emitted_sends\<close>)
  next
    case 2
    from 2(2) obtain ks where ks: "sender_at ?cs (following c) ?S" "sorted ks"
      "set ks \<subseteq> {c<..following c} \<inter> {..length ?cs + 2}" "sends (is_msg ?cs) ks s (snd ?S)"
      unfolding sender_sent_def by blast
    obtain p' s' where "?S = (p', s')" by fastforce
    with ks(1) have "following c \<le> length ?cs + 3" by (intro sender_at_bound) simp
    then have "c \<le> length ?cs + 2" by (simp add: following_def split: if_splits)
    moreover have "ackno ?cs j = ackno ?cs c" using 2(1) f by (simp add: acknowledges_def ack_frame_def)
    ultimately have jc: "j = c" using ackno_unique [OF step] by simp
    have "exchange (length ?cs) (c, r, I, c # J') (following c, r, I @ ks, J')"
      using ks(2,3) by (rule exchange.sender_advances)
    with rep [unfolded J(1) jc] show ?thesis
      unfolding J(1) jc by (rule simulatedI)
        (use ks rcv I J in \<open>auto simp: handles intro: list_all2_appendI emitted_sends\<close>)
  qed
qed

lemma receiver_idle_simulated:
  assumes rep: "represents (read_chunks content) (c, r, I, J) N" and e: "rx_frame e = None" "rx_ok e"
  shows "simulated (read_chunks content) (c, r, I, J) (receiver_handles er e N)"
proof -
  let ?cs = "read_chunks content"
  obtain p s out where N: "rcv_cfg N = (p, s, out)" by (metis prod_cases3)
  from rep have at: "receiver_at ?cs r (p, s, out)" by (simp add: represents_def N)
  have "receiver_moves ?cs r (Suc r) s (receiver_react er e (p, s, out))"
    using receiver_step [OF _ e(2) at] e(1) by simp
  then obtain ks where ks: "receiver_at ?cs r (receiver_react er e (p, s, out))" "sorted ks"
    "set ks \<subseteq> acked r" "sends (is_ack ?cs) ks s (fst (snd (receiver_react er e (p, s, out))))"
    unfolding receiver_moves_def receiver_sent_def by auto
  have "exchange (length ?cs) (c, r, I, J) (c, r, I, J @ ks)" using ks(2,3) by (rule exchange.receiver_resends)
  with rep show ?thesis
    by (rule simulatedI) (use rep ks in \<open>auto simp: represents_def receiver_handles_def Let_def N
      intro: list_all2_appendI emitted_sends\<close>)
qed

lemma receiver_gets_simulated:
  assumes rep: "represents (read_chunks content) (c, r, I, J) N" and b: "fwd N = d # b"
  shows "simulated (read_chunks content) (c, r, I, J) (receiver_handles er (RxDatagram d) (N\<lparr>fwd := b\<rparr>))"
proof -
  let ?cs = "read_chunks content" and ?e = "RxDatagram d"
  obtain p s out where N: "rcv_cfg N = (p, s, out)" by (metis prod_cases3)
  from rep b obtain i I' where snd: "sender_at ?cs c (snd_cfg N)" and at: "receiver_at ?cs r (p, s, out)"
    and i: "is_msg ?cs i d" and I: "I = i # I'" "list_all2 (is_msg ?cs) I' b"
    and J: "list_all2 (is_ack ?cs) J (bwd N)" and step: "in_step (length ?cs) c r (i # I') J"
    by (auto simp: represents_def N list_all2_Cons2)
  from i have ok: "rx_ok ?e" and f: "rx_frame ?e = Some (msg ?cs i)"
    using rx_ok_is_frame by (auto simp: is_msg_def)
  let ?R = "receiver_react er ?e (p, s, out)"
  have "r \<le> 1 \<or> i = r \<or> Suc i = r" using step by (auto simp: in_step_def)
  with f have moves: "receiver_moves ?cs r i s ?R"
    by (intro receiver_step [OF _ ok at]) auto
  have handles: "receiver_handles er ?e (N\<lparr>fwd := b\<rparr>) =
      N\<lparr>fwd := b, rcv_cfg := ?R, bwd := bwd N @ emitted s (fst (snd ?R))\<rparr>"
    by (simp add: receiver_handles_def Let_def N)
  from moves consider ks where "receiver_at ?cs r ?R" "sorted ks" "set ks \<subseteq> acked r"
      "sends (is_ack ?cs) ks s (fst (snd ?R))"
    | ks where "i = r" "receiver_at ?cs (Suc r) ?R" "sorted ks" "set ks \<subseteq> acked (Suc r)"
      "sends (is_ack ?cs) ks s (fst (snd ?R))"
    unfolding receiver_moves_def receiver_sent_def by blast
  then show ?thesis
  proof cases
    case 1
    have "exchange (length ?cs) (c, r, i # I', J) (c, r, I', J @ ks)"
      using 1(2,3) by (rule exchange.receiver_discards)
    with rep [unfolded I(1)] show ?thesis
      unfolding I(1) by (rule simulatedI)
        (use 1 snd I J in \<open>auto simp: handles intro: list_all2_appendI emitted_sends\<close>)
  next
    case 2
    have "exchange (length ?cs) (c, r, r # I', J) (c, Suc r, I', J @ ks)"
      using 2(3,4) by (rule exchange.receiver_advances)
    with rep [unfolded I(1) 2(1)] show ?thesis
      unfolding I(1) 2(1) by (rule simulatedI)
        (use 2 snd I J in \<open>auto simp: handles intro: list_all2_appendI emitted_sends\<close>)
  qed
qed

lemma channel_simulated:
  assumes rep: "represents cs (c, r, I, J) N"
  shows "fwd N = a @ d # b \<Longrightarrow> simulated cs (c, r, I, J) (N\<lparr>fwd := a @ b\<rparr>)"
    and "fwd N = a @ d # b \<Longrightarrow> simulated cs (c, r, I, J) (N\<lparr>fwd := a @ d # d # b\<rparr>)"
    and "bwd N = a @ d # b \<Longrightarrow> simulated cs (c, r, I, J) (N\<lparr>bwd := a @ b\<rparr>)"
    and "bwd N = a @ d # b \<Longrightarrow> simulated cs (c, r, I, J) (N\<lparr>bwd := a @ d # d # b\<rparr>)"
proof -
  note rep' = rep [unfolded represents_def prod.case]
  show "simulated cs (c, r, I, J) (N\<lparr>fwd := a @ b\<rparr>)"
    and "simulated cs (c, r, I, J) (N\<lparr>fwd := a @ d # d # b\<rparr>)" if "fwd N = a @ d # b"
  proof -
    from rep' that obtain I1 i I2 where I: "I = I1 @ i # I2" "list_all2 (is_msg cs) I1 a" "is_msg cs i d"
      "list_all2 (is_msg cs) I2 b" by (auto simp: list_all2_append2 list_all2_Cons2)
    show "simulated cs (c, r, I, J) (N\<lparr>fwd := a @ b\<rparr>)"
      using exchange.fwd_loses [of _ c r I1 i I2 J] I rep'
      by (intro simulatedI [OF rep]) (auto intro: list_all2_appendI)
    show "simulated cs (c, r, I, J) (N\<lparr>fwd := a @ d # d # b\<rparr>)"
      using exchange.fwd_repeats [of _ c r I1 i I2 J] I rep'
      by (intro simulatedI [OF rep]) (auto intro: list_all2_appendI)
  qed
  show "simulated cs (c, r, I, J) (N\<lparr>bwd := a @ b\<rparr>)"
    and "simulated cs (c, r, I, J) (N\<lparr>bwd := a @ d # d # b\<rparr>)" if "bwd N = a @ d # b"
  proof -
    from rep' that obtain I1 i I2 where I: "J = I1 @ i # I2" "list_all2 (is_ack cs) I1 a" "is_ack cs i d"
      "list_all2 (is_ack cs) I2 b" by (auto simp: list_all2_append2 list_all2_Cons2)
    show "simulated cs (c, r, I, J) (N\<lparr>bwd := a @ b\<rparr>)"
      using exchange.bwd_loses [of _ c r I I1 i I2] I rep'
      by (intro simulatedI [OF rep]) (auto intro: list_all2_appendI)
    show "simulated cs (c, r, I, J) (N\<lparr>bwd := a @ d # d # b\<rparr>)"
      using exchange.bwd_repeats [of _ c r I I1 i I2] I rep'
      by (intro simulatedI [OF rep]) (auto intro: list_all2_appendI)
  qed
qed

lemma step_simulated:
  assumes "fifo_step es er content N N'" and "represents (read_chunks content) p N"
  shows "simulated (read_chunks content) p N'"
  using assms
  by (cases p; induction rule: fifo_step.induct)
    (auto intro: sender_idle_simulated sender_gets_simulated receiver_idle_simulated
      receiver_gets_simulated channel_simulated simp: rx_frame_def rx_ok_def)

text \<open>A run of the network is a run of the exchange.\<close>

lemma run_simulated:
  assumes "(fifo_step es er content)\<^sup>*\<^sup>* N N'" and "represents (read_chunks content) p N"
  shows "\<exists>p'. (exchange (length (read_chunks content)))\<^sup>*\<^sup>* p p' \<and> represents (read_chunks content) p' N'"
  using assms
proof (induction rule: rtranclp_induct)
  case (step M N')
  then obtain p1 where "(exchange (length (read_chunks content)))\<^sup>*\<^sup>* p p1"
    "represents (read_chunks content) p1 M" by blast
  with step_simulated [OF step.hyps(2) this(2)] show ?case
    unfolding simulated_def by (meson rtranclp.rtrancl_into_rtrancl)
qed blast

section \<open>The start\<close>

lemma ReliableSocket_new_tx [simp]: "tx (socket ReliableSocket_new) = []"
  "sequence_number ReliableSocket_new = 0" "state ReliableSocket_new = INIT"
  by (simp_all add: ReliableSocket_new_def UnreliableSocket_new_def)

lemma connect_start_step:
  assumes "connect_start env s = (q, s')"
  shows "sequence_number s' = sequence_number s \<and> tx (socket s') = tx (socket s)
    \<and> (\<forall>buf. q = Ret buf \<longrightarrow> is_msg cs 0 buf)"
proof -
  have m: "is_msg cs 0 (wire pad (msg cs 0))" for pad
    unfolding is_msg_def by (rule is_frame_wire) (simp_all add: msg_def frame_ok_def)
  have rtt: "quiet_step s1 s2" if "rtt_timeout env s1 = (q2, s2)" for s1 q2 s2
    using that by (rule quietD [OF quiet_rtt_timeout])
  show ?thesis
    using assms m by (auto simp: connect_start_def Let_def then_io_split copy_to_control io_simps
        set_state_def on_socket_def us_connect_def msg_def quiet_step_def
        split: outcome.splits prod.splits if_splits dest!: rtt)
qed

lemma sender_start_at: "sender_sent cs 0 {0} ReliableSocket_new (sender_start env)"
proof (cases "connect_start env ReliableSocket_new")
  case (Pair q s1)
  note start = connect_start_step [OF Pair, of cs]
  show ?thesis
  proof (cases "\<exists>buf. q = Ret buf")
    case True
    then obtain buf where q: "q = Ret buf" ..
    with start have buf: "is_msg cs 0 buf" by simp
    have "sender_sent cs 0 {0} s1 (enter (connect_send env buf) (\<lambda>_ s. (Wait (SConnect buf), s)) sender_stop s1)"
      using buf start by (intro sender_again connect_send_may_send) auto
    with start Pair q show ?thesis
      by (simp add: sender_start_def sender_sent_def sends_def)
  next
    case False
    then have "sender_start env = sender_stop (pass q) s1" and "pass q \<noteq> Ret ()"
      using Pair by (cases q; simp add: sender_start_def)+
    with start show ?thesis
      by (auto simp: sender_sent_def sender_stop_def sends_def intro!: exI [of _ "[]"])
  qed
qed

lemma receiver_start_at:
  "length buf = MAX_DATA_SIZE \<Longrightarrow> receiver_sent cs 0 ReliableSocket_new (receiver_start env buf)"
proof -
  assume buf: "length buf = MAX_DATA_SIZE"
  have "quiet (then_io (on_socket (us_bind env)) fill_zero)"
    by (intro quiet_intros) (auto simp: framed_def on_socket_def us_bind_def io_simps quiet_step_def)
  then show ?thesis
    unfolding receiver_start_def using buf quietD
    by (intro receiver_enter) (auto simp: written_def)
qed

lemma represents_start:
  "\<exists>I. set I \<subseteq> {0} \<and> represents (read_chunks content) (0, 0, I, []) (net_start es er mem)"
proof -
  let ?cs = "read_chunks content" and ?buf = "map mem [0..<MAX_DATA_SIZE]"
  obtain ks where ks: "sender_at ?cs 0 (sender_start es)" "sorted ks" "set ks \<subseteq> {0}"
    "sends (is_msg ?cs) ks ReliableSocket_new (snd (sender_start es))"
    using sender_start_at [of ?cs es] by (auto simp: sender_sent_def)
  have "receiver_sent ?cs 0 ReliableSocket_new (receiver_start er ?buf)"
    by (rule receiver_start_at) simp
  then have r: "receiver_at ?cs 0 (receiver_start er ?buf)" "tx (socket (fst (snd (receiver_start er ?buf)))) = []"
    by (auto simp: receiver_sent_def acked_def sends_def)
  have "in_step (length ?cs) 0 0 ks []"
    using ks(2,3) by (auto simp: in_step_def)
  with ks r show ?thesis
    by (intro exI [of _ ks]) (auto simp: represents_def net_start_def Let_def sends_def)
qed

lemma reachable:
  assumes "(fifo_step es er content)\<^sup>*\<^sup>* (net_start es er mem) N"
  obtains c r I J where "sender_at (read_chunks content) c (snd_cfg N)"
    "receiver_at (read_chunks content) r (rcv_cfg N)" "in_step (length (read_chunks content)) c r I J"
  using run_simulated [OF assms] represents_start [of content es er mem]
  by (fastforce simp: represents_def)

lemma receiver_at_output: "receiver_at cs r (p, s, out) \<Longrightarrow> out = written cs r"
  by (cases "(cs, r, (p, s, out))" rule: receiver_at.cases) (auto simp: written_def)

lemma sender_at_returned: "sender_at cs c (Stop (Ret ()), s) \<Longrightarrow> c = length cs + 3"
  by simp

lemma receiver_at_end: "receiver_at cs (length cs + 3) (p, s, out) \<Longrightarrow> [] \<notin> set cs \<and> out = concat cs"
  by (cases "(cs, length cs + 3, (p, s, out))" rule: receiver_at.cases) (auto simp: written_all)

lemma returned_delivered:
  assumes "(fifo_step es er content)\<^sup>*\<^sup>* (net_start es er mem) N" and "receiver_returned N"
  shows "received_file N = content"
proof -
  let ?cs = "read_chunks content"
  obtain r where at: "receiver_at ?cs r (rcv_cfg N)"
    using reachable [OF assms(1)] by blast
  with assms(2) show ?thesis
    by (cases "rcv_cfg N") (auto simp: receiver_returned_def received_file_def written_all)
qed

section \<open>What the two programs promise\<close>

text \<open>C5: Every run of the two programs over the network is a run of the stop-and-wait
  exchange over full message numbers, although the bytes on the wire only tell neighbours apart.\<close>

theorem network_refines:
  assumes "(fifo_step es er content)\<^sup>*\<^sup>* (net_start es er mem) N"
  shows "\<exists>I p. set I \<subseteq> {0} \<and> (exchange (length (read_chunks content)))\<^sup>*\<^sup>* (0, 0, I, []) p
    \<and> represents (read_chunks content) p N"
  using represents_start [of content es er mem] run_simulated [OF assms] by blast

text \<open>C3: Over channels that keep the order of the datagrams, whatever they lose, repeat or delay,
  and however the system calls fail, the receiver's output file is at every moment a prefix of the
  sender's file.\<close>

theorem received_prefix:
  assumes "(fifo_step es er content)\<^sup>*\<^sup>* (net_start es er mem) N"
  shows "prefix (received_file N) content"
proof -
  obtain r where "receiver_at (read_chunks content) r (rcv_cfg N)"
    using reachable [OF assms] by blast
  then have "received_file N = written (read_chunks content) r"
    by (cases "rcv_cfg N") (auto simp: received_file_def dest: receiver_at_output)
  also have "prefix \<dots> (concat (read_chunks content))"
    unfolding written_def by (metis append_take_drop_id concat_append prefixI)
  finally show ?thesis by simp
qed

lemma sender_returned_all:
  assumes "(fifo_step es er content)\<^sup>*\<^sup>* (net_start es er mem) N" and "sender_returned N"
  shows "received_file N = content"
proof -
  let ?cs = "read_chunks content"
  obtain c r I J where
    at: "sender_at ?cs c (snd_cfg N)" "receiver_at ?cs r (rcv_cfg N)" and "in_step (length ?cs) c r I J"
    using reachable [OF assms(1)] by blast
  moreover from at(1) assms(2) have "c = length ?cs + 3"
    by (cases "snd_cfg N") (auto simp: sender_returned_def)
  ultimately have "length ?cs + 3 \<le> r" by (auto simp: in_step_def)
  with at(2) show ?thesis
    by (cases "rcv_cfg N") (auto simp: received_file_def written_all dest!: receiver_at_output)
qed

text \<open>C4: Over channels that keep the order of the datagrams, as soon as one of the two
  programs has ended normally, the receiver has written exactly the sender's file.\<close>

theorem normal_end_delivered:
  assumes "(fifo_step es er content)\<^sup>*\<^sup>* (net_start es er mem) N" and "sender_returned N \<or> receiver_returned N"
  shows "received_file N = content"
  using assms sender_returned_all returned_delivered by blast

text \<open>C6: A file whose length is a multiple of the block size ends with an
  empty block, which the receiver takes for the end and closes on. Over channels that keep the order of the
  datagrams the sender's close request is then never acknowledged, and the sender never ends normally.\<close>

theorem aligned_file_never_completes:
  assumes "(fifo_step es er content)\<^sup>*\<^sup>* (net_start es er mem) N" and "MAX_DATA_SIZE dvd length content"
  shows "\<not> sender_returned N"
proof
  let ?cs = "read_chunks content"
  assume "sender_returned N"
  obtain c r I J where
    at: "sender_at ?cs c (snd_cfg N)" "receiver_at ?cs r (rcv_cfg N)" and i: "in_step (length ?cs) c r I J"
    using reachable [OF assms(1)] by blast
  from at(1) \<open>sender_returned N\<close> have "c = length ?cs + 3"
    by (cases "snd_cfg N") (auto simp: sender_returned_def)
  moreover obtain p s out where R: "rcv_cfg N = (p, s, out)" by (metis prod_cases3)
  with at(2) have "r \<le> length ?cs + 3"
    by (cases "(?cs, r, (p, s, out))" rule: receiver_at.cases) auto
  ultimately have "r = length ?cs + 3" using i by (auto simp: in_step_def)
  with at(2) R have "receiver_at ?cs (length ?cs + 3) (p, s, out)" by simp
  from receiver_at_end [OF this] have "[] \<notin> set ?cs" ..
  moreover have "last ?cs \<in> set ?cs" by simp
  moreover have "last ?cs = []" using assms(2) by (simp add: last_read_chunks)
  ultimately show False by simp
qed

end
