(* ===== verification/Rdt_Rtt.thy ===== *)
theory Rdt_Rtt
  imports Reliable_Socket
begin

text \<open>
  The adaptive timeout (\<open>update_rtt\<close> of \<open>ReliableSocket.cpp\<close>): the rational arithmetic of the model is
  integer arithmetic on the range where nothing overflows, and what the estimate does over many
  samples follows from that.
\<close>

section \<open>The integer form of an update\<close>

definition next_est :: "int \<Rightarrow> int \<Rightarrow> int" where
  "next_est est x = (7 * est + x) div 8"

definition next_dev :: "int \<Rightarrow> int \<Rightarrow> int \<Rightarrow> int" where
  "next_dev est dev x = (3 * dev + \<bar>x - next_est est x\<bar>) div 4"

definition rtt_limit :: int where
  "rtt_limit = 2 ^ 28"

definition rtt_ok :: "ReliableSocket \<Rightarrow> bool" where
  "rtt_ok s \<longleftrightarrow> 0 \<le> estimated_rtt s \<and> estimated_rtt s \<le> rtt_limit \<and> 0 \<le> dev_rtt s \<and> dev_rtt s \<le> rtt_limit"

definition with_rtt :: "int \<Rightarrow> int \<Rightarrow> ReliableSocket \<Rightarrow> ReliableSocket" where
  "with_rtt est dev s = s\<lparr>estimated_rtt := est, dev_rtt := dev,
     socket := (socket s)\<lparr>timeout_length := to_uint32 (est + 4 * dev)\<rparr>\<rparr>"

lemma next_est_range:
  "0 \<le> est \<Longrightarrow> 0 \<le> x \<Longrightarrow> est \<le> b \<Longrightarrow> x \<le> b \<Longrightarrow> 0 \<le> next_est est x \<and> next_est est x \<le> b"
  unfolding next_est_def by linarith

lemma next_dev_range:
  assumes "0 \<le> est" "0 \<le> x" "0 \<le> dev" "est \<le> b" "x \<le> b" "dev \<le> b"
  shows "0 \<le> next_dev est dev x \<and> next_dev est dev x \<le> b"
proof -
  have "\<bar>x - next_est est x\<bar> \<le> b" using next_est_range [of est x b] assms by linarith
  with assms(3,6) show ?thesis unfolding next_dev_def by linarith
qed

lemma trunc_rat_div:
  assumes "0 \<le> a" and "0 < k"
  shows "trunc_rat (of_int a / of_int k) = a div k"
  using assms by (simp add: trunc_rat_def floor_divide_of_int_eq)

lemma double_to_int_div:
  "0 \<le> a \<Longrightarrow> 0 < k \<Longrightarrow> int_fits (a div k) \<Longrightarrow> double_to_int (of_int a / of_int k) = Some (a div k)"
  by (simp add: double_to_int_def trunc_rat_div)

lemma int_fits_limit: "\<bar>x\<bar> \<le> 5 * rtt_limit \<Longrightarrow> int_fits x"
  by (auto simp: int_fits_def rtt_limit_def)

lemma rtt_timeout_eq:
  assumes "rtt_ok s" and "\<not> setsockopt_fails env"
  shows "rtt_timeout env s = (Ret (), with_rtt (estimated_rtt s) (dev_rtt s) s)"
proof -
  have "int_fits (4 * dev_rtt s)" and "int_fits (estimated_rtt s + 4 * dev_rtt s)"
    using assms(1) by (auto simp: rtt_ok_def rtt_limit_def int_fits_def)
  with assms(2) show ?thesis
    by (simp add: rtt_timeout_def io_simps set_timeout_def on_socket_def with_rtt_def)
qed

lemma sample_difference:
  assumes "0 \<le> e" "e \<le> rtt_limit" "uint x \<le> rtt_limit"
  shows "uint32_to_int (x - to_uint32 e) = uint x - e"
proof -
  have "int_fits (uint x - e)"
    using assms uint_ge_0 [of x] by (intro int_fits_limit) linarith
  then have "uint32_to_int (to_uint32 (uint x - e)) = uint x - e"
    by (rule uint32_to_int_to_uint32)
  moreover have "to_uint32 (uint x - e) = x - to_uint32 e"
    by (simp add: to_uint32_def)
  ultimately show ?thesis by simp
qed

lemma update_rtt_eq:
  assumes ok: "rtt_ok s" and x: "uint x \<le> rtt_limit" and sys: "\<not> setsockopt_fails env"
  shows "update_rtt env x s =
    (Ret (), with_rtt (next_est (estimated_rtt s) (uint x)) (next_dev (estimated_rtt s) (dev_rtt s) (uint x)) s)"
proof -
  let ?e = "estimated_rtt s" and ?d = "dev_rtt s" and ?x = "uint x"
  let ?e' = "next_est ?e ?x" and ?d' = "next_dev ?e ?d ?x"
  from ok have r: "0 \<le> ?e" "?e \<le> rtt_limit" "0 \<le> ?d" "?d \<le> rtt_limit" "0 \<le> ?x"
    by (simp_all add: rtt_ok_def)
  have e': "0 \<le> ?e'" "?e' \<le> rtt_limit" using next_est_range [of ?e ?x rtt_limit] r x by auto
  have d': "0 \<le> ?d'" "?d' \<le> rtt_limit" using next_dev_range [of ?e ?x ?d rtt_limit] r x by auto
  have "(1 - 1 / 8) * of_int ?e + 1 / 8 * of_int ?x = (of_int (7 * ?e + ?x) / of_int 8 :: rat)"
    by (simp only: of_int_add of_int_mult of_int_numeral) (simp add: algebra_simps add_divide_distrib)
  then have est: "double_to_int ((1 - 1 / 8) * of_int ?e + 1 / 8 * of_int ?x) = Some ?e'"
    using double_to_int_div [of "7 * ?e + ?x" 8] r e' unfolding next_est_def
    by (simp only:) (simp add: int_fits_limit)
  have diff: "uint32_to_int (x - to_uint32 ?e') = ?x - ?e'"
    using e' x by (intro sample_difference)
  have abs: "checked_int \<bar>?x - ?e'\<bar> = Some \<bar>?x - ?e'\<bar>"
    using e' x r by (intro checked_int_Some int_fits_limit) linarith
  have "(1 - 1 / 4) * of_int ?d + 1 / 4 * of_int \<bar>?x - ?e'\<bar> = (of_int (3 * ?d + \<bar>?x - ?e'\<bar>) / of_int 4 :: rat)"
    by (simp only: of_int_add of_int_mult of_int_numeral) (simp add: algebra_simps add_divide_distrib)
  then have dev: "double_to_int ((1 - 1 / 4) * of_int ?d + 1 / 4 * of_int \<bar>?x - ?e'\<bar>) = Some ?d'"
    using double_to_int_div [of "3 * ?d + \<bar>?x - ?e'\<bar>" 4] r d' unfolding next_dev_def
    by (simp only:) (simp add: int_fits_limit)
  have "rtt_ok (s\<lparr>estimated_rtt := ?e', dev_rtt := ?d'\<rparr>)"
    using e' d' by (simp add: rtt_ok_def)
  from rtt_timeout_eq [OF this sys] have
    "rtt_timeout env (s\<lparr>estimated_rtt := ?e', dev_rtt := ?d'\<rparr>) = (Ret (), with_rtt ?e' ?d' s)"
    by (simp add: with_rtt_def)
  then show ?thesis
    by (simp only: update_rtt_def Let_def est io_simps then_io_def diff abs dev)
qed

lemma rtt_ok_update:
  assumes "rtt_ok s" and "uint x \<le> rtt_limit"
  shows "rtt_ok (with_rtt (next_est (estimated_rtt s) (uint x)) (next_dev (estimated_rtt s) (dev_rtt s) (uint x)) s)"
  using assms next_est_range [of "estimated_rtt s" "uint x" rtt_limit]
    next_dev_range [of "estimated_rtt s" "uint x" "dev_rtt s" rtt_limit]
  by (simp add: rtt_ok_def with_rtt_def)

lemma uint_to_uint32: "0 \<le> m \<Longrightarrow> m \<le> 5 * rtt_limit \<Longrightarrow> uint (to_uint32 m) = m"
  unfolding to_uint32_def
  by (simp only: uint_word_of_int_eq) (rule take_bit_int_eq_self, simp_all add: rtt_limit_def)

lemma rtt_timeout_value:
  "rtt_ok s \<Longrightarrow> uint (to_uint32 (estimated_rtt s + 4 * dev_rtt s)) = estimated_rtt s + 4 * dev_rtt s"
  by (rule uint_to_uint32) (auto simp: rtt_ok_def)

section \<open>Properties of an update\<close>

text \<open>C12: on estimates and samples of up to \<open>2 ^ 28\<close> milliseconds, an update stores the
  TCP averages rounded down (the deviation taken from the new estimate), sets the timeout to
  estimate plus four deviations without overflow, and keeps both numbers in range.\<close>

theorem update_rtt_value:
  assumes "rtt_ok s" and "uint x \<le> rtt_limit" and "\<not> setsockopt_fails env"
  shows "\<exists>s'. update_rtt env x s = (Ret (), s') \<and> rtt_ok s'
    \<and> estimated_rtt s' = (7 * estimated_rtt s + uint x) div 8
    \<and> dev_rtt s' = (3 * dev_rtt s + \<bar>uint x - estimated_rtt s'\<bar>) div 4
    \<and> uint (timeout_length (socket s')) = estimated_rtt s' + 4 * dev_rtt s'
    \<and> state s' = state s \<and> sequence_number s' = sequence_number s \<and> tx (socket s') = tx (socket s)"
proof -
  let ?s = "with_rtt (next_est (estimated_rtt s) (uint x)) (next_dev (estimated_rtt s) (dev_rtt s) (uint x)) s"
  have ok: "rtt_ok ?s" using assms(1,2) by (rule rtt_ok_update)
  then have "uint (timeout_length (socket ?s)) = estimated_rtt ?s + 4 * dev_rtt ?s"
    using rtt_timeout_value [of ?s] by (simp add: with_rtt_def)
  with ok update_rtt_eq [OF assms] show ?thesis
    by (intro exI [of _ ?s]) (simp add: with_rtt_def next_est_def next_dev_def)
qed

definition quiet_env :: os_env where
  "quiet_env = \<lparr>socket_fails = False, send_fails = (\<lambda>_. False), bind_fails = False, connect_fails = False,
     setsockopt_fails = False, gettimeofday = (\<lambda>_. \<lparr>tv_sec = 0, tv_usec = 0\<rparr>), stack_byte = (\<lambda>_. 0)\<rparr>"

theorem update_rtt_value_witness:
  "\<exists>s'. update_rtt quiet_env 85 ReliableSocket_new = (Ret (), s') \<and> rtt_ok s'
    \<and> estimated_rtt s' = 185 \<and> dev_rtt s' = (30 + \<bar>85 - estimated_rtt s'\<bar>) div 4
    \<and> uint (timeout_length (socket s')) = estimated_rtt s' + 4 * dev_rtt s'"
proof -
  have "rtt_ok ReliableSocket_new"
    by (simp add: rtt_ok_def rtt_limit_def ReliableSocket_new_def)
  from update_rtt_value [OF this, of 85 quiet_env] show ?thesis
    by (auto simp: rtt_limit_def quiet_env_def ReliableSocket_new_def)
qed

text \<open>The new estimate lies between the old one and the sample.\<close>

lemma estimate_between:
  assumes "rtt_ok s" and "uint x \<le> rtt_limit" and "update_rtt env x s = (Ret (), s')"
  shows "min (estimated_rtt s) (uint x) \<le> estimated_rtt s' \<and> estimated_rtt s' \<le> max (estimated_rtt s) (uint x)"
proof -
  have "\<not> setsockopt_fails env"
  proof
    assume "setsockopt_fails env"
    then have "fst (rtt_timeout env t) \<noteq> Ret ()" for t
      by (auto simp: rtt_timeout_def bind_io_split set_timeout_def on_socket_def io_simps of_option_def
          split: option.splits outcome.splits prod.splits)
    then have "fst (update_rtt env x s) \<noteq> Ret ()"
      by (auto simp: update_rtt_def Let_def bind_io_split then_io_split io_simps
          split: outcome.splits prod.splits)
    with assms(3) show False by simp
  qed
  from update_rtt_eq [OF assms(1,2) this] assms(3)
  have "estimated_rtt s' = next_est (estimated_rtt s) (uint x)" by (auto simp: with_rtt_def)
  then show ?thesis
    unfolding next_est_def by linarith
qed

section \<open>Samples of zero\<close>

fun update_many :: "os_env \<Rightarrow> u32 list \<Rightarrow> unit rs_io" where
  "update_many env [] = ret ()"
| "update_many env (x # xs) = then_io (update_rtt env x) (update_many env xs)"

fun rtt_after :: "int list \<Rightarrow> int \<times> int \<Rightarrow> int \<times> int" where
  "rtt_after [] p = p"
| "rtt_after (x # xs) (e, d) = rtt_after xs (next_est e x, next_dev e d x)"

lemma update_many_eq:
  assumes "rtt_ok s" and "list_all (\<lambda>x. uint x \<le> rtt_limit) xs" and "\<not> setsockopt_fails env" and "xs \<noteq> []"
  shows "update_many env xs s =
    (Ret (), case rtt_after (List.map uint xs) (estimated_rtt s, dev_rtt s) of (e, d) \<Rightarrow> with_rtt e d s)"
  using assms
proof (induction xs arbitrary: s)
  case (Cons x xs)
  let ?s = "with_rtt (next_est (estimated_rtt s) (uint x)) (next_dev (estimated_rtt s) (dev_rtt s) (uint x)) s"
  from Cons.prems have x: "uint x \<le> rtt_limit" and xs: "list_all (\<lambda>x. uint x \<le> rtt_limit) xs" by auto
  have run: "update_many env (x # xs) s = update_many env xs ?s"
    by (simp add: then_io_split update_rtt_eq [OF Cons.prems(1) x Cons.prems(3)])
  show ?case
  proof (cases "xs = []")
    case True
    then show ?thesis by (simp add: then_io_split update_rtt_eq [OF Cons.prems(1) x Cons.prems(3)] io_simps)
  next
    case False
    have again: "with_rtt e d ?s = with_rtt e d s" for e d by (simp add: with_rtt_def)
    have fields: "estimated_rtt (with_rtt e d s) = e" "dev_rtt (with_rtt e d s) = d" for e d
      by (simp_all add: with_rtt_def)
    from Cons.IH [OF rtt_ok_update [OF Cons.prems(1) x] xs Cons.prems(3) False] show ?thesis
      by (simp only: run again fields list.map rtt_after.simps)
  qed
qed simp

lemma rtt_after_zeros: "rtt_after (replicate 40 0) (200, 10) = (0, 0)"
  by (simp add: next_est_def next_dev_def numeral_eq_Suc)

lemma rtt_after_append: "rtt_after (xs @ ys) p = rtt_after ys (rtt_after xs p)"
  by (induction xs p rule: rtt_after.induct) simp_all

lemma rtt_after_zero_stays: "rtt_after (replicate k 0) (0, 0) = (0, 0)"
  by (induction k) (simp_all add: next_est_def next_dev_def)

text \<open>C17: after 40 or more samples of 0 ms (a round trip below the clock's
  millisecond), estimate and deviation are 0, and the timeout is 0, which the socket takes for
  "wait for ever": a datagram lost from then on is never sent again.\<close>

theorem zero_samples_disable_timeout:
  assumes "40 \<le> n" and "\<not> setsockopt_fails env"
  shows "\<exists>s. update_many env (replicate n 0) ReliableSocket_new = (Ret (), s)
    \<and> estimated_rtt s = 0 \<and> dev_rtt s = 0 \<and> timeout_length (socket s) = 0"
proof -
  have ok: "rtt_ok ReliableSocket_new"
    by (simp add: rtt_ok_def rtt_limit_def ReliableSocket_new_def)
  have "replicate n (0 :: int) = replicate 40 0 @ replicate (n - 40) 0"
    using assms(1) by (simp flip: replicate_add)
  then have "rtt_after (replicate n 0) (200, 10) = (0, 0)"
    by (simp only: rtt_after_append rtt_after_zeros rtt_after_zero_stays)
  moreover have "list_all (\<lambda>x. uint x \<le> rtt_limit) (replicate n (0 :: u32))"
    by (simp add: list_all_iff rtt_limit_def)
  moreover have "replicate n (0 :: u32) \<noteq> []" using assms(1) by auto
  ultimately show ?thesis
    using update_many_eq [OF ok _ assms(2)]
    by (simp add: ReliableSocket_new_def with_rtt_def to_uint32_def)
qed

theorem zero_samples_disable_timeout_witness:
  "\<exists>s. update_many quiet_env (replicate 41 0) ReliableSocket_new = (Ret (), s)
    \<and> estimated_rtt s = 0 \<and> dev_rtt s = 0 \<and> timeout_length (socket s) = 0"
  by (rule zero_samples_disable_timeout) (simp_all add: quiet_env_def)

end
