(* ===== verification/Rdt_Progress.thy ===== *)
theory Rdt_Progress
  imports Rdt_Network Rdt_Rtt
begin

text \<open>
  What can happen: the run in which no datagram is lost and no system call fails delivers the file
  and ends both programs, and the state after a lost third handshake message, from which nothing
  ever arrives.
\<close>

section \<open>After a lost third message of the handshake\<close>

definition stuck :: "nat \<times> nat \<times> nat list \<times> nat list \<Rightarrow> bool" where
  "stuck p = (case p of (c, r, I, J) \<Rightarrow> c = 2 \<and> r = 1 \<and> 1 \<notin> set I)"

lemma exchange_stuck:
  assumes "exchange n p p'" and "in_step_at n p" and "stuck p"
  shows "stuck p'"
  using assms
  by (induction rule: exchange.induct) (auto simp: stuck_def in_step_at_def in_step_def before_def)

interpretation stuck_inv: step_invariant "exchange n" "\<lambda>p. in_step_at n p \<and> stuck p"
  for n
  by unfold_locales (auto intro: exchange_stuck exchange_in_step)

lemma stuck_forever:
  assumes "(fifo_step es er content)\<^sup>*\<^sup>* (net_start es er mem) N"
    and "fst (snd_cfg N) = Wait (SData buf g a t rest)" and "fst (rcv_cfg N) = Wait (RAck3 buf')"
    and "\<forall>d\<in>set (fwd N). frame_of d \<noteq> Some (ack_frame 3)"
    and "(fifo_step es er content)\<^sup>*\<^sup>* N N'"
  shows "received_file N' = [] \<and> \<not> sender_returned N' \<and> \<not> receiver_returned N'"
proof -
  let ?cs = "read_chunks content"
  obtain I0 where "represents ?cs (0, 0, I0, []) (net_start es er mem)"
    using represents_start by blast
  from run_simulated [OF assms(1) this] obtain c r I J where rep: "represents ?cs (c, r, I, J) N"
    by (metis prod_cases4)
  then have at: "sender_at ?cs c (snd_cfg N)" "receiver_at ?cs r (rcv_cfg N)"
    and I: "list_all2 (is_msg ?cs) I (fwd N)" and inv: "in_step (length ?cs) c r I J"
    by (simp_all add: represents_def)
  from at(2) assms(3) have r: "r = 1" by (cases "rcv_cfg N") auto
  from at(1) assms(2) have "2 \<le> c" by (cases "snd_cfg N") auto
  with inv r have c: "c = 2" by (auto simp: in_step_def)
  have "1 \<notin> set I"
  proof
    assume "1 \<in> set I"
    then obtain k where k: "k < length I" "I ! k = 1" by (auto simp: in_set_conv_nth)
    with I have "is_msg ?cs 1 (fwd N ! k)" "fwd N ! k \<in> set (fwd N)"
      by (auto simp: list_all2_conv_all_nth)
    moreover have "msg ?cs 1 = ack_frame 3" by (simp add: msg_def)
    ultimately show False
      using assms(4) by (auto simp: is_msg_def is_frame_def rx_frame_def split: if_splits)
  qed
  with c r have "stuck (c, r, I, J)" by (simp add: stuck_def)
  moreover have "in_step_at (length ?cs) (c, r, I, J)" using inv by (simp add: in_step_at_def)
  moreover from run_simulated [OF assms(5) rep] obtain c' r' I' J' where
    run: "(exchange (length ?cs))\<^sup>*\<^sup>* (c, r, I, J) (c', r', I', J')" and rep': "represents ?cs (c', r', I', J') N'"
    by (metis prod_cases4)
  ultimately have "stuck (c', r', I', J')"
    using stuck_inv.inv_steps [OF run] by simp
  with rep' have at': "sender_at ?cs 2 (snd_cfg N')" "receiver_at ?cs 1 (rcv_cfg N')"
    by (auto simp: stuck_def represents_def)
  have "received_file N' = written ?cs 1"
    using at'(2) by (cases "rcv_cfg N'") (auto simp: received_file_def dest: receiver_at_output)
  moreover have "\<not> sender_returned N'" and "\<not> receiver_returned N'"
    using at' by (cases "snd_cfg N'"; cases "rcv_cfg N'"; auto simp: sender_returned_def receiver_returned_def)+
  ultimately show ?thesis by (simp add: written_def)
qed

text \<open>C8: If the sender already waits for the acknowledgement of its first block
  while the receiver still waits for the third message of the handshake, and that message is no longer under
  way, then (over channels that keep the order) in every continuation nothing is ever received and neither program returns: the sender
  repeats its block and the receiver its acknowledgement, each waiting for a message the other
  never sends again.\<close>

theorem lost_ack3_livelock:
  assumes "(fifo_step es er content)\<^sup>*\<^sup>* (net_start es er mem) N"
    and "fst (snd_cfg N) = Wait (SData buf g a t rest)" and "fst (rcv_cfg N) = Wait (RAck3 buf')"
    and "\<forall>d\<in>set (fwd N). frame_of d \<noteq> Some (ack_frame 3)"
    and "(fifo_step es er content)\<^sup>*\<^sup>* N N'"
  shows "received_file N' = [] \<and> \<not> sender_returned N' \<and> \<not> receiver_returned N'"
  using assms by (rule stuck_forever)

section \<open>Systems that do not fail\<close>

definition msec :: "os_env \<Rightarrow> nat \<Rightarrow> int" where
  "msec env k = current_msec (gettimeofday env) k"

text \<open>No call fails, and the clock does not run backwards or jump by more than \<open>rtt_limit\<close>.\<close>

definition env_ok :: "os_env \<Rightarrow> bool" where
  "env_ok env \<longleftrightarrow> (\<forall>k. \<not> send_fails env k) \<and> \<not> bind_fails env \<and> \<not> connect_fails env
     \<and> \<not> setsockopt_fails env \<and> (\<forall>k. msec env k \<le> msec env (Suc k) \<and> msec env (Suc k) - msec env k \<le> rtt_limit)"

definition fit :: "ReliableSocket \<Rightarrow> bool" where
  "fit s \<longleftrightarrow> connected (socket s) \<and> rtt_ok s"

lemma receive_ok:
  assumes "env_ok env" and "is_frame f d"
  shows "receive env (RxDatagram d) s =
      (Ret (length d), s\<lparr>socket := (socket s)\<lparr>connected := True\<rparr>, seg_buf := overlay d (seg_buf s)\<rparr>)
    \<and> holds_frame (s\<lparr>socket := (socket s)\<lparr>connected := True\<rparr>, seg_buf := overlay d (seg_buf s)\<rparr>) f"
proof -
  from assms(2) have d: "frame_of d = Some f" "length d \<le> MAX_SEG_SIZE"
    by (auto simp: is_frame_def rx_frame_def split: if_splits)
  from frame_of_length [OF d(1)] have "length d \<noteq> 0" by auto
  with d(2) assms(1) have "receive env (RxDatagram d) s =
      (Ret (length d), s\<lparr>socket := (socket s)\<lparr>connected := True\<rparr>, seg_buf := overlay d (seg_buf s)\<rparr>)"
    by (auto simp: receive_def Let_def env_ok_def)
  with receive_frame [OF this d] show ?thesis by simp
qed

lemma send_buffer_ok:
  "env_ok env \<Longrightarrow> connected (socket s) \<Longrightarrow>
     send_buffer env b s = (Ret (), s\<lparr>socket := (socket s)\<lparr>tx := tx (socket s) @ [b]\<rparr>\<rparr>)"
  by (simp add: send_buffer_eq env_ok_def)

lemma send_ack_ok:
  "env_ok env \<Longrightarrow> connected (socket s) \<Longrightarrow>
     send_ack env n s = (Ret (), s\<lparr>socket := (socket s)\<lparr>tx := tx (socket s) @ [wire (padding env s) (ack_frame n)]\<rparr>\<rparr>)"
  by (simp add: send_ack_eq env_ok_def)

lemma log_segment_ok:
  "get_type g \<in> {RDT_DATA, RDT_ACK, RDT_CONN, RDT_CLOSE} \<Longrightarrow> log_segment g s = (Ret (), s)"
  by (auto simp: log_segment_def segment_to_string_def message_type_to_string_def get_type_def io_simps)

section \<open>The sender without failures\<close>

text \<open>\<open>fit\<close> and the clock are kept by all that the socket does besides sending.\<close>

definition waits_with :: "os_env \<Rightarrow> RDTMessageType \<Rightarrow> RDTSegment \<Rightarrow> int \<Rightarrow> ReliableSocket \<Rightarrow> bool" where
  "waits_with env ty g t s \<longleftrightarrow> get_type g = ty \<and> (\<exists>k. clock_reads s = Suc k \<and> t = msec env k)"

fun sender_ready :: "os_env \<Rightarrow> bytes list \<Rightarrow> nat \<Rightarrow> sender_cfg \<Rightarrow> bool" where
  "sender_ready env cs c (Wait (SConnect buf), s) \<longleftrightarrow> sender_at cs c (Wait (SConnect buf), s) \<and> fit s"
| "sender_ready env cs c (Wait (SData buf g a t rest), s) \<longleftrightarrow>
     sender_at cs c (Wait (SData buf g a t rest), s) \<and> fit s \<and> waits_with env RDT_DATA g t s"
| "sender_ready env cs c (Wait (SClose buf g a t), s) \<longleftrightarrow>
     sender_at cs c (Wait (SClose buf g a t), s) \<and> fit s \<and> waits_with env RDT_CLOSE g t s"
| "sender_ready env cs c (Stop q, s) \<longleftrightarrow> q = Ret () \<and> c = length cs + 3"

lemma resend_ok:
  assumes "env_ok env" and "fit s"
  shows "\<exists>s'. resend env b s = (Ret (msec env (clock_reads s)), s') \<and> fit s'
    \<and> tx (socket s') = tx (socket s) @ [b] \<and> clock_reads s' = Suc (clock_reads s)
    \<and> sequence_number s' = sequence_number s"
  using assms
  by (simp add: resend_def bind_io_split then_io_split read_clock_def fill_zero_def io_simps
      fit_def rtt_ok_def msec_def env_ok_def)

lemma enter_acked_ok:
  assumes env: "env_ok env" "fit s" and "copy_to g (seg_buffer g) = Some buf" and "expected_ack g = Some a"
    and "get_type g \<in> {RDT_DATA, RDT_CLOSE}"
  shows "\<exists>s'. enter_acked env mk g s = (Wait (mk buf a (msec env (clock_reads s))), s') \<and> fit s'
    \<and> tx (socket s') = tx (socket s) @ [buf] \<and> clock_reads s' = Suc (clock_reads s)"
proof -
  from resend_ok [OF env] obtain s' where r: "resend env buf s = (Ret (msec env (clock_reads s)), s')" "fit s'"
    "tx (socket s') = tx (socket s) @ [buf]" "clock_reads s' = Suc (clock_reads s)" by blast
  have "log_segment g s = (Ret (), s)" using assms(5) by (intro log_segment_ok) auto
  with assms(3,4) r show ?thesis by (simp add: enter_acked_def enter_def)
qed

text \<open>After a message is acknowledged, the next one is under way.\<close>

lemma sender_next_ok:
  assumes ok: "blocks_ok cs" and env: "env_ok env" "fit s" and c: "1 \<le> c" "c < length cs + 2"
    and seq: "sequence_number s = parity (Suc c)" and rest: "rest = drop (c - 1) cs"
  shows "\<exists>d. sender_ready env cs (Suc c) (sender_next env rest s) \<and> is_msg cs (Suc c) d
    \<and> tx (socket (snd (sender_next env rest s))) = tx (socket s) @ [d]"
proof -
  have at: "sender_at cs (Suc c) (sender_next env rest s)"
    unfolding rest using sender_next_step [OF ok c seq] by (simp add: sender_sent_def)
  show ?thesis
  proof (cases rest)
    case Nil
    let ?g = "close_segment env s"
    have copy: "copy_to ?g (seg_buffer ?g) = Some (wire (padding env s)
        \<lparr>fr_type = RDT_CLOSE, fr_seq = 4, fr_ack = 0, fr_payload = []\<rparr>)"
      by (simp add: close_segment_def copy_to_control)
    have ty: "get_type ?g = RDT_CLOSE" by (simp add: close_segment_def segment_defs)
    from enter_acked_ok [OF env copy expected_ack_close, of "\<lambda>buf a t. SClose buf ?g a t"] ty obtain s' where
      "sender_next env rest s = (Wait (SClose (wire (padding env s)
        \<lparr>fr_type = RDT_CLOSE, fr_seq = 4, fr_ack = 0, fr_payload = []\<rparr>) ?g 4 (msec env (clock_reads s))), s')"
      "fit s'" "tx (socket s') = tx (socket s) @ [wire (padding env s)
        \<lparr>fr_type = RDT_CLOSE, fr_seq = 4, fr_ack = 0, fr_payload = []\<rparr>]" "clock_reads s' = Suc (clock_reads s)"
      by (auto simp: Nil)
    with at ty show ?thesis
      by (auto simp: waits_with_def)
  next
    case (Cons b bs)
    let ?g = "data_segment env s b" and ?s = "s\<lparr>state := wait_ack_state s\<rparr>"
    let ?f = "\<lparr>fr_type = RDT_DATA, fr_seq = sequence_number s, fr_ack = 0, fr_payload = b\<rparr>"
    have "b \<in> set cs" using Cons rest by (metis in_set_dropD list.set_intros(1))
    with ok have "length b \<le> 65529" by (auto simp: blocks_ok_def list_all_iff max_sizes)
    then have copy: "copy_to ?g (seg_buffer ?g) = Some (wire (padding env s) ?f)"
      by (simp add: data_segment_def copy_to_data)
    have ty: "get_type ?g = RDT_DATA" by (simp add: data_segment_def segment_defs)
    have fit: "fit ?s" using env(2) by (simp add: fit_def rtt_ok_def)
    from enter_acked_ok [OF env(1) fit copy expected_ack_data, of "\<lambda>buf a t. SData buf ?g a t bs"] ty obtain s' where
      "sender_next env rest s =
         (Wait (SData (wire (padding env s) ?f) ?g (sequence_number s) (msec env (clock_reads s)) bs), s')"
      "fit s'" "tx (socket s') = tx (socket s) @ [wire (padding env s) ?f]" "clock_reads s' = Suc (clock_reads s)"
      by (auto simp: Cons)
    with at ty show ?thesis
      by (auto simp: waits_with_def)
  qed
qed

lemma await_ack_ok:
  assumes env: "env_ok env" and fit: "fit s" and w: "waits_with env ty g t s" and ty: "ty \<in> {RDT_DATA, RDT_CLOSE}"
    and f: "holds_frame s (ack_frame a)"
  shows "\<exists>s'. await_ack env g a t (Ret n) s = (Ret (Some ()), s') \<and> fit s' \<and> quiet_step s s'"
proof -
  from w obtain k where k: "clock_reads s = Suc k" "t = msec env k" and g: "get_type g = ty"
    by (auto simp: waits_with_def)
  let ?s = "s\<lparr>clock_reads := Suc (clock_reads s)\<rparr>" and ?m = "msec env (Suc k) - msec env k"
  have m: "0 \<le> ?m" "?m \<le> rtt_limit" using env by (auto simp: env_ok_def)
  then have checked: "checked_int ?m = Some ?m" by (intro checked_int_Some int_fits_limit) simp
  have sample: "uint (to_uint32 ?m) = ?m"
    using m by (intro uint_to_uint32) auto
  have fit': "fit ?s" using fit by (simp add: fit_def rtt_ok_def)
  from f have "holds_frame ?s (ack_frame a)" by (simp add: holds_frame_def)
  then obtain h where h: "parse_received ?s = (Ret h, ?s)" "get_type h = RDT_ACK" "get_ack_number h = a"
    by (rule parse_holds) (auto simp: ack_frame_def)
  have log: "log_segment h ?s = (Ret (), ?s)" using h(2) by (intro log_segment_ok) simp
  have upd: "update_rtt env (to_uint32 ?m) ?s =
      (Ret (), with_rtt (next_est (estimated_rtt ?s) ?m) (next_dev (estimated_rtt ?s) (dev_rtt ?s) ?m) ?s)"
    using update_rtt_eq [of ?s "to_uint32 ?m" env] fit' m env by (simp add: sample fit_def env_ok_def)
  have ok: "fit (with_rtt (next_est (estimated_rtt ?s) ?m) (next_dev (estimated_rtt ?s) (dev_rtt ?s) ?m) ?s)"
    using rtt_ok_update [of ?s "to_uint32 ?m"] fit' m by (simp add: sample fit_def with_rtt_def)
  have clock: "read_clock env s = (Ret (msec env (Suc k)), ?s)"
    by (simp add: read_clock_def k msec_def)
  show ?thesis
  proof (cases "ty = RDT_DATA")
    case True
    then show ?thesis
      using upd ok fit' by (simp add: await_ack_def bind_io_split then_io_split clock k(2) checked h log g io_simps)
        (simp add: quiet_step_def with_rtt_def)
  next
    case False
    then show ?thesis
      using fit' by (simp add: await_ack_def bind_io_split then_io_split clock k(2) checked h log g io_simps quiet_step_def)
  qed
qed

lemma fit_received: "fit s \<Longrightarrow> fit (s\<lparr>socket := (socket s)\<lparr>connected := True\<rparr>, seg_buf := b\<rparr>)"
  by (simp add: fit_def rtt_ok_def)

lemma waits_received:
  "waits_with env ty g t s \<Longrightarrow> waits_with env ty g t (s\<lparr>socket := u, seg_buf := b\<rparr>)"
  by (simp add: waits_with_def)

lemma iterate_done:
  "receive env e s = (r, s2) \<Longrightarrow> body t r s2 = (Ret (Some x), s3) \<Longrightarrow>
     iterate env pre body mk stop fin t e s = fin x s3"
  by (simp add: iterate_def)

lemma sender_ack_block:
  assumes ok: "blocks_ok cs" "env_ok env" and ready: "sender_ready env cs c (Wait (SData buf g a t rest), s)"
    and d: "is_ack cs c d"
  shows "\<exists>d'. sender_ready env cs (Suc c) (sender_react env cs (RxDatagram d) (Wait (SData buf g a t rest), s))
    \<and> is_msg cs (Suc c) d'
    \<and> tx (socket (snd (sender_react env cs (RxDatagram d) (Wait (SData buf g a t rest), s)))) = tx (socket s) @ [d']"
proof -
  from ready have at: "2 \<le> c" "c < length cs + 2" "a = parity c" "sequence_number s = parity c"
    "rest = drop (c - 1) cs" and fit: "fit s" and w: "waits_with env RDT_DATA g t s" by auto
  from d at have d': "is_frame (ack_frame a) d" by (simp add: is_ack_def ackno_def)
  let ?s2 = "s\<lparr>socket := (socket s)\<lparr>connected := True\<rparr>, seg_buf := overlay d (seg_buf s)\<rparr>"
  from await_ack_ok [OF ok(2) fit_received [OF fit] waits_received [OF w], where a = a] receive_ok [OF ok(2) d', of s]
  obtain s3 where rcv: "receive env (RxDatagram d) s = (Ret (length d), ?s2)"
    and b: "await_ack env g a t (Ret (length d)) ?s2 = (Ret (Some ()), s3)" and s3: "fit s3" "quiet_step ?s2 s3"
    by blast
  let ?s4 = "s3\<lparr>sequence_number := 1 - sequence_number s3, state := WAIT_SEND\<rparr>"
  have run: "sender_react env cs (RxDatagram d) (Wait (SData buf g a t rest), s) = sender_next env rest ?s4"
    by (simp add: iterate_done [where body = "await_ack env g a" and t = t, OF rcv b] sender_acked_def enter_def send_finish_def io_simps)
  have "fit ?s4" using s3(1) by (simp add: fit_def rtt_ok_def)
  moreover have "sequence_number ?s4 = parity (Suc c)" and "tx (socket ?s4) = tx (socket s)"
    using s3(2) at(4) by (simp_all add: quiet_step_def)
  ultimately show ?thesis
    using sender_next_ok [OF ok, of ?s4 c rest] at unfolding run by auto
qed

lemma sender_ack_close:
  assumes ok: "env_ok env" and ready: "sender_ready env cs c (Wait (SClose buf g a t), s)" and d: "is_ack cs c d"
  shows "sender_ready env cs (Suc c) (sender_react env cs (RxDatagram d) (Wait (SClose buf g a t), s))
    \<and> tx (socket (snd (sender_react env cs (RxDatagram d) (Wait (SClose buf g a t), s)))) = tx (socket s)"
proof -
  from ready have at: "c = length cs + 2" "a = 4" and fit: "fit s" and w: "waits_with env RDT_CLOSE g t s"
    by auto
  from d at have d': "is_frame (ack_frame a) d" by (simp add: is_ack_def ackno_def)
  let ?s2 = "s\<lparr>socket := (socket s)\<lparr>connected := True\<rparr>, seg_buf := overlay d (seg_buf s)\<rparr>"
  from await_ack_ok [OF ok fit_received [OF fit] waits_received [OF w], where a = a] receive_ok [OF ok d', of s]
  obtain s3 where rcv: "receive env (RxDatagram d) s = (Ret (length d), ?s2)"
    and b: "await_ack env g a t (Ret (length d)) ?s2 = (Ret (Some ()), s3)" and s3: "quiet_step ?s2 s3"
    by blast
  have run: "sender_react env cs (RxDatagram d) (Wait (SClose buf g a t), s) =
      (Stop (Ret ()), s3\<lparr>state := CLOSED, socket := (socket s3)\<lparr>fd_open := False\<rparr>\<rparr>)"
    by (simp add: iterate_done [where body = "await_ack env g a" and t = t, OF rcv b] sender_closed_def enter_def then_io_split set_state_def
        us_close_def on_socket_def io_simps sender_stop_def)
  show ?thesis
    unfolding run using s3 at by (simp add: quiet_step_def)
qed

lemma sender_ack_connect:
  assumes ok: "blocks_ok cs" "env_ok env" and ready: "sender_ready env cs 0 (Wait (SConnect buf), s)"
    and d: "is_ack cs 0 d"
  shows "\<exists>d1 d2. sender_ready env cs 2 (sender_react env cs (RxDatagram d) (Wait (SConnect buf), s))
    \<and> is_msg cs 1 d1 \<and> is_msg cs 2 d2
    \<and> tx (socket (snd (sender_react env cs (RxDatagram d) (Wait (SConnect buf), s)))) = tx (socket s) @ [d1, d2]"
proof -
  from ready have seq: "sequence_number s = 0" and fit: "fit s" by auto
  from d have d': "is_frame (ack_frame 2) d" by (simp add: is_ack_def ackno_def)
  let ?s2 = "s\<lparr>socket := (socket s)\<lparr>connected := True\<rparr>, seg_buf := overlay d (seg_buf s)\<rparr>"
  from receive_ok [OF ok(2) d', of s] have rcv: "receive env (RxDatagram d) s = (Ret (length d), ?s2)"
    and h: "holds_frame ?s2 (ack_frame 2)" by auto
  from h obtain g where "parse_received ?s2 = (Ret g, ?s2)" "get_type g = RDT_ACK" "get_ack_number g = 2"
    by (rule parse_holds) (auto simp: ack_frame_def)
  then have b: "await_ack2 () (Ret (length d)) ?s2 = (Ret (Some ()), ?s2)"
    by (simp add: await_ack2_def bind_io_split io_simps)
  let ?d1 = "wire (padding env ?s2) (ack_frame 3)"
  let ?s3 = "?s2\<lparr>state := WAIT_SEND, socket := (socket ?s2)\<lparr>tx := tx (socket s) @ [?d1]\<rparr>\<rparr>"
  have fin: "connect_finish env ?s2 = (Ret (), ?s3)"
    using ok(2) by (simp add: connect_finish_def then_io_split set_state_def io_simps env_ok_def padding_def)
  have run: "sender_react env cs (RxDatagram d) (Wait (SConnect buf), s) = sender_next env cs ?s3"
    using fin by (simp add: iterate_done [where body = await_ack2 and t = "()", OF rcv b] sender_connected_def enter_def)
  have "fit ?s3" using fit by (simp add: fit_def rtt_ok_def)
  moreover have "sequence_number ?s3 = parity (Suc 1)" using seq by (simp add: parity_def)
  moreover have "is_msg cs 1 ?d1" using is_frame_ack [of 3] by (simp add: is_msg_def msg_def)
  ultimately show ?thesis
    using sender_next_ok [OF ok, of ?s3 1 cs] unfolding run by (auto simp: numeral_2_eq_2)
qed

lemma sender_start_ready:
  assumes ok: "env_ok env"
  shows "\<exists>buf s. sender_start env = (Wait (SConnect buf), s) \<and> sender_ready env cs 0 (Wait (SConnect buf), s)
    \<and> tx (socket s) = [buf] \<and> timeout_length (socket s) = 240"
proof -
  have rtt: "rtt_ok ReliableSocket_new"
    by (simp add: rtt_ok_def rtt_limit_def ReliableSocket_new_def)
  let ?s = "ReliableSocket_new\<lparr>socket := (socket ReliableSocket_new)\<lparr>connected := True\<rparr>\<rparr>"
  have "rtt_timeout env ?s = (Ret (), with_rtt 200 10 ?s)"
    using rtt_timeout_eq [of ?s env] rtt ok by (simp add: rtt_ok_def env_ok_def ReliableSocket_new_def)
  then have start: "connect_start env ReliableSocket_new = (Ret (wire (padding env ReliableSocket_new) (msg cs 0)),
      (with_rtt 200 10 ?s)\<lparr>state := WAIT_HS2\<rparr>)"
    using ok by (simp add: connect_start_def Let_def then_io_split on_socket_def us_connect_def env_ok_def
        io_simps set_state_def copy_to_control msg_def)
  have "fit ((with_rtt 200 10 ?s)\<lparr>state := WAIT_HS2\<rparr>)"
    using rtt by (simp add: fit_def with_rtt_def rtt_ok_def rtt_limit_def)
  moreover have "is_msg cs 0 (wire (padding env ReliableSocket_new) (msg cs 0))"
    unfolding is_msg_def by (rule is_frame_wire) (simp_all add: msg_def frame_ok_def)
  ultimately show ?thesis
    using ok by (auto simp: sender_start_def start enter_def connect_send_def then_io_split env_ok_def
        io_simps fill_zero_def with_rtt_def fit_def rtt_ok_def to_uint32_def)
qed

section \<open>The receiver without failures\<close>

fun receiver_ready :: "bytes list \<Rightarrow> nat \<Rightarrow> receiver_cfg \<Rightarrow> bool" where
  "receiver_ready cs r (Wait (RConn buf), s, out) \<longleftrightarrow> receiver_at cs r (Wait (RConn buf), s, out) \<and> rtt_ok s"
| "receiver_ready cs r (Wait RQuiet, s, out) \<longleftrightarrow>
     receiver_at cs r (Wait RQuiet, s, out) \<and> timeout_length (socket s) \<noteq> 0"
| "receiver_ready cs r (Wait p, s, out) \<longleftrightarrow> receiver_at cs r (Wait p, s, out) \<and> connected (socket s)"
| "receiver_ready cs r (Stop q, s, out) \<longleftrightarrow> False"

lemma receiver_start_ready:
  assumes "env_ok env" and "length buf = MAX_DATA_SIZE"
  shows "\<exists>s. receiver_start env buf = (Wait (RConn buf), s, []) \<and> receiver_ready cs 0 (Wait (RConn buf), s, [])
    \<and> tx (socket s) = []"
  using assms by (simp add: receiver_start_def enter_def then_io_split on_socket_def us_bind_def env_ok_def
      io_simps fill_zero_def rtt_ok_def rtt_limit_def ReliableSocket_new_def UnreliableSocket_new_def)

lemma receiver_gets_conn:
  assumes env: "env_ok env" and ready: "receiver_ready cs 0 (Wait (RConn buf), s, out)" and d: "is_msg cs 0 d"
  shows "\<exists>s' a. receiver_react env (RxDatagram d) (Wait (RConn buf), s, out) = (Wait (RAck3 buf), s', [])
    \<and> receiver_ready cs 1 (Wait (RAck3 buf), s', []) \<and> is_ack cs 0 a \<and> tx (socket s') = tx (socket s) @ [a]"
proof -
  let ?s2 = "s\<lparr>socket := (socket s)\<lparr>connected := True\<rparr>, seg_buf := overlay d (seg_buf s)\<rparr>"
  let ?s1 = "s\<lparr>seg_buf := replicate MAX_SEG_SIZE 0\<rparr>"
  from d have d': "is_frame (msg cs 0) d" by (simp add: is_msg_def)
  from receive_ok [OF env d', of s] have rcv: "receive env (RxDatagram d) s = (Ret (length d), ?s2)"
    and h: "holds_frame ?s2 (msg cs 0)" by auto
  from h obtain g where "parse_received ?s2 = (Ret g, ?s2)" "get_type g = RDT_CONN"
    by (rule parse_holds) (auto simp: msg_def)
  then have b: "await_conn () (Ret (length d)) ?s2 = (Ret (Some ()), ?s2)"
    by (simp add: await_conn_def bind_io_split io_simps)
  let ?a = "wire (padding env ?s2) (ack_frame 2)"
  let ?s3 = "?s2\<lparr>socket := (socket ?s2)\<lparr>tx := tx (socket s) @ [?a]\<rparr>\<rparr>"
  have "rtt_ok ?s3" using ready by (simp add: rtt_ok_def)
  from rtt_timeout_eq [OF this, of env] env
  have rtt: "rtt_timeout env ?s3 = (Ret (), with_rtt (estimated_rtt s) (dev_rtt s) ?s3)"
    by (simp add: env_ok_def)
  have "is_ack cs 0 ?a" using is_frame_ack [of 2] by (simp add: is_ack_def ackno_def)
  moreover have "then_io (accept_ack2 env) fill_zero ?s2 =
      (Ret (), (with_rtt (estimated_rtt s) (dev_rtt s) ?s3)\<lparr>seg_buf := replicate MAX_SEG_SIZE 0\<rparr>)"
    using env rtt by (simp add: accept_ack2_def then_io_split io_simps fill_zero_def env_ok_def)
  ultimately show ?thesis
    using ready by (auto simp: iterate_done [where body = await_conn and t = "()", OF rcv b]
        receiver_requested_def enter_def with_rtt_def)
qed

lemma receiver_data_ok:
  assumes "env_ok env"
  shows "receiver_data env buf out s =
    (Wait (RData (expected_seq s) buf),
     s\<lparr>seg_buf := replicate MAX_SEG_SIZE 0, socket := (socket s)\<lparr>timeout_length := 0\<rparr>\<rparr>, out)"
  using assms by (simp add: receiver_data_def enter_def receive_start_def then_io_split fill_zero_def
      set_timeout_def on_socket_def io_simps env_ok_def to_uint32_def)

lemma receiver_gets_ack3:
  assumes ok: "blocks_ok cs" "env_ok env" and ready: "receiver_ready cs 1 (Wait (RAck3 buf), s, out)"
    and d: "is_msg cs 1 d"
  shows "\<exists>s' a. receiver_react env (RxDatagram d) (Wait (RAck3 buf), s, out) = (Wait (RData a buf), s', [])
    \<and> receiver_ready cs 2 (Wait (RData a buf), s', []) \<and> tx (socket s') = tx (socket s)"
proof -
  let ?s2 = "s\<lparr>socket := (socket s)\<lparr>connected := True\<rparr>, seg_buf := overlay d (seg_buf s)\<rparr>"
  from d have d': "is_frame (ack_frame 3) d" by (simp add: is_msg_def msg_def)
  from receive_ok [OF ok(2) d', of s] have rcv: "receive env (RxDatagram d) s = (Ret (length d), ?s2)"
    and h: "holds_frame ?s2 (ack_frame 3)" by auto
  from h obtain g where "parse_received ?s2 = (Ret g, ?s2)" "get_type g = RDT_ACK" "get_ack_number g = 3"
    by (rule parse_holds) (auto simp: ack_frame_def)
  then have b: "await_ack3 env () (Ret (length d)) ?s2 = (Ret (Some ()), ?s2)"
    by (simp add: await_ack3_def bind_io_split io_simps)
  show ?thesis
    using ready ok(1)
    by (simp add: iterate_done [where body = "await_ack3 env" and t = "()", OF rcv b]
        receiver_opened_def receiver_data_ok [OF ok(2)] written_def data_state_def expected_seq_def parity_def)
qed

lemma await_data_block:
  assumes env: "env_ok env" "connected (socket s)" and h: "holds_frame s f"
    and f: "fr_type f = RDT_DATA" "fr_seq f = a" "length (fr_payload f) \<le> length buf"
  shows "await_data env a buf () (Ret n) s = (Ret (Some (word_of_nat (length (fr_payload f)), overlay (fr_payload f) buf)),
    flipped (s\<lparr>socket := (socket s)\<lparr>tx := tx (socket s) @ [wire (padding env s) (ack_frame a)]\<rparr>\<rparr>))"
proof (rule parse_holds [OF h])
  fix g assume g: "parse_received s = (Ret g, s)" "get_type g = fr_type f"
    "get_sequence_number g = fr_seq f" "copy_span (payload g) = Some (fr_payload f)"
    "span_size (payload g) = length (fr_payload f)"
  then have "log_segment g s = (Ret (), s)" using f by (intro log_segment_ok) simp
  with g f show ?thesis
    by (simp add: await_data_def bind_io_split then_io_split send_ack_ok [OF env] flip_data_state_def
        copy_payload_to_def get_payload_size_def flipped_def io_simps(1-5))
qed

lemma await_data_close:
  assumes env: "env_ok env" "connected (socket s)" and h: "holds_frame s f" and f: "fr_type f = RDT_CLOSE"
  shows "await_data env a buf () (Ret n) s = (Ret (Some (0, buf)),
    (s\<lparr>socket := (socket s)\<lparr>tx := tx (socket s) @ [wire (padding env s) (ack_frame 4)]\<rparr>\<rparr>)\<lparr>state := CLOSING\<rparr>)"
proof (rule parse_holds [OF h])
  fix g assume g: "parse_received s = (Ret g, s)" "get_type g = fr_type f"
  then have "log_segment g s = (Ret (), s)" using f by (intro log_segment_ok) simp
  with g f show ?thesis
    by (simp add: await_data_def bind_io_split then_io_split send_ack_ok [OF env] set_state_def io_simps(1-5))
qed

lemma receiver_gets_block:
  assumes ok: "blocks_ok cs" "env_ok env" and ready: "receiver_ready cs r (Wait (RData a buf), s, out)"
    and d: "is_msg cs r d" and r: "r < length cs + 2" and c: "cs ! (r - 2) \<noteq> []"
  shows "\<exists>s' a' buf' out' w. receiver_react env (RxDatagram d) (Wait (RData a buf), s, out) = (Wait (RData a' buf'), s', out')
    \<and> receiver_ready cs (Suc r) (Wait (RData a' buf'), s', out') \<and> is_ack cs r w
    \<and> tx (socket s') = tx (socket s) @ [w]"
proof -
  from ready have at: "2 \<le> r" "a = parity r" "state s = data_state r" "length buf = MAX_DATA_SIZE"
    "out = written cs r" "[] \<notin> set (take (r - 2) cs)" and con: "connected (socket s)" by auto
  let ?f = "msg cs r" and ?c = "cs ! (r - 2)"
  let ?s2 = "s\<lparr>socket := (socket s)\<lparr>connected := True\<rparr>, seg_buf := overlay d (seg_buf s)\<rparr>"
  from at(1) r have f: "fr_type ?f = RDT_DATA" "fr_seq ?f = a" "fr_payload ?f = ?c"
    by (auto simp: msg_def at(2))
  have len: "length ?c \<le> length buf"
    using msg_payload_length [OF ok(1), of r] f(3) at(4) by simp
  from receive_ok [OF ok(2) d [unfolded is_msg_def], of s]
  have rcv: "receive env (RxDatagram d) s = (Ret (length d), ?s2)" and h: "holds_frame ?s2 ?f" by auto
  let ?w = "wire (padding env ?s2) (ack_frame a)"
  let ?s3 = "flipped (?s2\<lparr>socket := (socket ?s2)\<lparr>tx := tx (socket ?s2) @ [?w]\<rparr>\<rparr>)"
  let ?b = "overlay ?c buf"
  have b: "await_data env a buf () (Ret (length d)) ?s2 = (Ret (Some (word_of_nat (length ?c), ?b)), ?s3)"
    using await_data_block [OF ok(2) _ h f(1,2)] len f(3) by simp
  have st: "state ?s3 = data_state (Suc r)" using at(3) by (simp add: flipped_def data_state_def)
  have size: "unat (word_of_nat (length ?c) :: u16) = length ?c"
    using len at(4) by (simp add: max_sizes)
  then have "(word_of_nat (length ?c) :: u16) \<noteq> 0"
    using c by (simp flip: unat_eq_zero)
  then have run: "receiver_react env (RxDatagram d) (Wait (RData a buf), s, out) =
      receiver_data env ?b (out @ take (unat (word_of_nat (length ?c) :: u16)) ?b) ?s3"
    using st by (simp add: iterate_done [where body = "await_data env a buf" and t = "()", OF rcv b]
        receiver_got_def data_state_def)
  have "receiver_sent cs (Suc r) ?s3 (receiver_got env (written cs r) (word_of_nat (length ?c), ?b) ?s3)"
    using at r by (intro receiver_got_block [OF ok(1) _ _ refl st]) auto
  then have "receiver_at cs (Suc r) (receiver_react env (RxDatagram d) (Wait (RData a buf), s, out))"
    using at(5) by (simp add: receiver_sent_def iterate_done [where body = "await_data env a buf" and t = "()", OF rcv b])
  moreover have "is_ack cs r ?w"
    using is_frame_ack [of a] at r by (simp add: is_ack_def ackno_def)
  ultimately show ?thesis
    unfolding run receiver_data_ok [OF ok(2)] by (auto simp: flipped_def)
qed

lemma receiver_gets_close:
  assumes env: "env_ok env" and ready: "receiver_ready cs r (Wait (RData a buf), s, out)"
    and d: "is_msg cs r d" and r: "r = length cs + 2"
  shows "\<exists>s' w. receiver_react env (RxDatagram d) (Wait (RData a buf), s, out) = (Wait RQuiet, s', out)
    \<and> receiver_ready cs (Suc r) (Wait RQuiet, s', out) \<and> is_ack cs r w \<and> tx (socket s') = tx (socket s) @ [w]"
proof -
  from ready r have at: "out = written cs r" "[] \<notin> set cs" and con: "connected (socket s)" by auto
  let ?s2 = "s\<lparr>socket := (socket s)\<lparr>connected := True\<rparr>, seg_buf := overlay d (seg_buf s)\<rparr>"
  from receive_ok [OF env d [unfolded is_msg_def], of s]
  have rcv: "receive env (RxDatagram d) s = (Ret (length d), ?s2)" and h: "holds_frame ?s2 (msg cs r)" by auto
  have ty: "fr_type (msg cs r) = RDT_CLOSE" using msg_type(4) r by simp
  let ?w = "wire (padding env ?s2) (ack_frame 4)"
  have b: "await_data env a buf () (Ret (length d)) ?s2 = (Ret (Some (0, buf)),
      (?s2\<lparr>socket := (socket ?s2)\<lparr>tx := tx (socket ?s2) @ [?w]\<rparr>\<rparr>)\<lparr>state := CLOSING\<rparr>)"
    by (rule await_data_close [OF env _ h ty]) simp
  have "is_ack cs r ?w" using is_frame_ack [of 4] r by (simp add: is_ack_def ackno_def)
  then show ?thesis
    using at r env by (auto simp: iterate_done [where body = "await_data env a buf" and t = "()", OF rcv b]
        receiver_got_def receiver_close_def enter_def then_io_split set_timeout_def on_socket_def
        fill_zero_def io_simps env_ok_def to_uint32_def written_all)
qed

lemma receiver_quiet_returns:
  assumes "receiver_ready cs r (Wait RQuiet, s, out)"
  shows "fst (receiver_react env RxAgain (Wait RQuiet, s, out)) = Stop (Ret ())
    \<and> snd (snd (receiver_react env RxAgain (Wait RQuiet, s, out))) = out"
  by (simp add: iterate_def receive_def await_quiet_def io_simps receiver_quiet_def enter_def then_io_split
      set_state_def us_close_def on_socket_def receiver_stop_def)

section \<open>The run without failures\<close>

definition net_ready :: "os_env \<Rightarrow> bytes list \<Rightarrow> nat \<Rightarrow> net \<Rightarrow> bool" where
  "net_ready es cs c N \<longleftrightarrow> 2 \<le> c \<and> c \<le> length cs + 2 \<and> sender_ready es cs c (snd_cfg N)
     \<and> receiver_ready cs c (rcv_cfg N) \<and> (\<exists>d. fwd N = [d] \<and> is_msg cs c d) \<and> bwd N = []"

lemma sender_ready_data:
  assumes "sender_ready es cs c S" and "2 \<le> c" and "c < length cs + 2"
  obtains buf g a t rest s where "S = (Wait (SData buf g a t rest), s)"
  using assms by (cases "(es, cs, c, S)" rule: sender_ready.cases) auto

lemma sender_ready_close:
  assumes "sender_ready es cs c S" and "c = length cs + 2"
  obtains buf g a t s where "S = (Wait (SClose buf g a t), s)"
  using assms by (cases "(es, cs, c, S)" rule: sender_ready.cases) auto

lemma receiver_ready_data:
  assumes "receiver_ready cs r R" and "2 \<le> r" and "r \<le> length cs + 2"
  obtains a buf s out where "R = (Wait (RData a buf), s, out)"
  using assms by (cases "(cs, r, R)" rule: receiver_ready.cases) auto

lemma receiver_then_sender:
  assumes R: "rcv_cfg N = (p, s, out)" and S: "snd_cfg N = (q, u)" and f: "fwd N = d # fs" and b: "bwd N = []"
    and react: "receiver_react er (RxDatagram d) (p, s, out) = (p', s', out')" "tx (socket s') = tx (socket s) @ [w]"
    and sreact: "sender_react es (read_chunks content) (RxDatagram w) (q, u) = (q', u')"
      "tx (socket u') = tx (socket u) @ ds"
  shows "(fifo_step es er content)\<^sup>*\<^sup>* N
    \<lparr>snd_cfg = (q', u'), rcv_cfg = (p', s', out'), fwd = fs @ ds, bwd = []\<rparr>"
proof -
  let ?M = "receiver_handles er (RxDatagram d) (N\<lparr>fwd := fs\<rparr>)"
  have "fifo_step es er content N ?M" using f by (rule fifo_step.receiver_receives)
  moreover have M: "bwd ?M = [w]" "snd_cfg ?M = (q, u)" "rcv_cfg ?M = (p', s', out')" "fwd ?M = fs"
    using R S b react by (simp_all add: receiver_handles_def Let_def emitted_def)
  then have "fifo_step es er content ?M (sender_handles es content (RxDatagram w) (?M\<lparr>bwd := []\<rparr>))"
    by (intro fifo_step.sender_receives) simp
  moreover have "sender_handles es content (RxDatagram w) (?M\<lparr>bwd := []\<rparr>) =
      \<lparr>snd_cfg = (q', u'), rcv_cfg = (p', s', out'), fwd = fs @ ds, bwd = []\<rparr>"
    using M sreact by (simp add: sender_handles_def Let_def emitted_def)
  ultimately show ?thesis by (metis converse_rtranclp_into_rtranclp rtranclp.rtrancl_refl)
qed

text \<open>
  A round for a block, with datagrams \<open>late\<close> behind it. The two sides may take different lists of blocks
  to be transferred, as long as the message is the next one for the receiver.
\<close>

lemma data_round:
  assumes env: "env_ok es" "env_ok er" and cs': "blocks_ok cs'" "length cs' = length (read_chunks content)"
    and sr: "sender_ready es (read_chunks content) c (snd_cfg N)" and rr: "receiver_ready cs' c (rcv_cfg N)"
    and ch: "fwd N = d # late" "bwd N = []" and d: "is_msg cs' c d"
    and c: "2 \<le> c" "c < length cs' + 2" "cs' ! (c - 2) \<noteq> []"
  shows "\<exists>N' d'. (fifo_step es er content)\<^sup>*\<^sup>* N N' \<and> sender_ready es (read_chunks content) (Suc c) (snd_cfg N')
    \<and> receiver_ready cs' (Suc c) (rcv_cfg N') \<and> fwd N' = late @ [d'] \<and> is_msg (read_chunks content) (Suc c) d' \<and> bwd N' = []"
proof -
  let ?cs = "read_chunks content"
  have len: "c < length ?cs + 2" using c(2) cs'(2) by simp
  from sender_ready_data [OF sr c(1) len] obtain sb g a t rest u where S: "snd_cfg N = (Wait (SData sb g a t rest), u)" .
  from receiver_ready_data [OF rr c(1) less_imp_le [OF c(2)]] obtain ra buf s out where
    R: "rcv_cfg N = (Wait (RData ra buf), s, out)" .
  from receiver_gets_block [OF cs'(1) env(2) rr [unfolded R] d c(2,3)] obtain s' a' buf' out' w where
    r: "receiver_react er (RxDatagram d) (Wait (RData ra buf), s, out) = (Wait (RData a' buf'), s', out')"
    "receiver_ready cs' (Suc c) (Wait (RData a' buf'), s', out')" "is_ack cs' c w" "tx (socket s') = tx (socket s) @ [w]"
    by auto
  have w: "is_ack ?cs c w" using r(3) unfolding is_ack_def ackno_def cs'(2) .
  obtain q' u' where q: "sender_react es ?cs (RxDatagram w) (Wait (SData sb g a t rest), u) = (q', u')" by fastforce
  from sender_ack_block [OF _ env(1) sr [unfolded S] w] obtain d' where
    s: "sender_ready es ?cs (Suc c) (q', u')" "is_msg ?cs (Suc c) d'" "tx (socket u') = tx (socket u) @ [d']"
    unfolding q by auto
  let ?N = "\<lparr>snd_cfg = (q', u'), rcv_cfg = (Wait (RData a' buf'), s', out'), fwd = late @ [d'], bwd = []\<rparr>"
  have "(fifo_step es er content)\<^sup>*\<^sup>* N ?N" by (rule receiver_then_sender [OF R S ch r(1,4) q s(3)])
  with s r(2) show ?thesis by (intro exI [of _ ?N] exI [of _ d']) simp
qed

lemma block_round:
  assumes env: "env_ok es" "env_ok er" and ready: "net_ready es (read_chunks content) c N"
    and c: "c < length (read_chunks content) + 2" "read_chunks content ! (c - 2) \<noteq> []"
  shows "\<exists>N'. (fifo_step es er content)\<^sup>*\<^sup>* N N' \<and> net_ready es (read_chunks content) (Suc c) N'"
proof -
  from ready obtain d where r: "2 \<le> c" "sender_ready es (read_chunks content) c (snd_cfg N)"
    "receiver_ready (read_chunks content) c (rcv_cfg N)" "fwd N = d # []" "bwd N = []" "is_msg (read_chunks content) c d"
    by (auto simp: net_ready_def)
  from data_round [OF env _ refl r(2-6,1) c] r(1) c(1) show ?thesis by (auto simp: net_ready_def)
qed

lemma blocks_run:
  assumes env: "env_ok es" "env_ok er" and "[] \<notin> set (read_chunks content)"
    and "net_ready es (read_chunks content) c N"
  shows "\<exists>N'. (fifo_step es er content)\<^sup>*\<^sup>* N N'
    \<and> net_ready es (read_chunks content) (length (read_chunks content) + 2) N'"
  using assms(4)
proof (induction "length (read_chunks content) + 2 - c" arbitrary: c N)
  case 0
  then have "c = length (read_chunks content) + 2" by (simp add: net_ready_def)
  with 0 show ?case by blast
next
  case (Suc k)
  then have c: "2 \<le> c" "c < length (read_chunks content) + 2" by (auto simp: net_ready_def)
  then have "read_chunks content ! (c - 2) \<in> set (read_chunks content)" by (intro nth_mem) simp
  with assms(3) have "read_chunks content ! (c - 2) \<noteq> []" by metis
  from block_round [OF env Suc.prems c(2) this] obtain M where
    M: "(fifo_step es er content)\<^sup>*\<^sup>* N M" "net_ready es (read_chunks content) (Suc c) M" by blast
  have "k = length (read_chunks content) + 2 - Suc c" using Suc.hyps(2) by simp
  from Suc.hyps(1) [OF this M(2)] M(1) show ?case by (meson rtranclp_trans)
qed

text \<open>The handshake, up to where its third message and the first block are under way.\<close>

definition half_open :: "os_env \<Rightarrow> bytes list \<Rightarrow> net \<Rightarrow> bool" where
  "half_open es cs N \<longleftrightarrow> sender_ready es cs 2 (snd_cfg N) \<and> receiver_ready cs 1 (rcv_cfg N)
     \<and> (\<exists>buf. fst (rcv_cfg N) = Wait (RAck3 buf)) \<and> bwd N = []
     \<and> (\<exists>d1 d2. fwd N = [d1, d2] \<and> is_msg cs 1 d1 \<and> is_msg cs 2 d2)"

lemma request_round:
  assumes env: "env_ok es" and S: "snd_cfg N = (Wait (SConnect b), u)" "sender_ready es (read_chunks content) 0 (snd_cfg N)"
    and N: "rcv_cfg N = (p, s, out)" "fwd N = [d]" "bwd N = []"
    and r: "receiver_react er (RxDatagram d) (p, s, out) = (Wait (RAck3 buf), s', [])"
      "receiver_ready (read_chunks content) 1 (Wait (RAck3 buf), s', [])" "is_ack (read_chunks content) 0 w"
      "tx (socket s') = tx (socket s) @ [w]"
  shows "\<exists>M. (fifo_step es er content)\<^sup>*\<^sup>* N M \<and> half_open es (read_chunks content) M"
proof -
  let ?cs = "read_chunks content"
  obtain q' u' where q: "sender_react es ?cs (RxDatagram w) (Wait (SConnect b), u) = (q', u')" by fastforce
  from sender_ack_connect [OF _ env S(2) [unfolded S(1)] r(3)] obtain d1 d2 where
    d: "sender_ready es ?cs 2 (q', u')" "is_msg ?cs 1 d1" "is_msg ?cs 2 d2" "tx (socket u') = tx (socket u) @ [d1, d2]"
    unfolding q by auto
  let ?M = "\<lparr>snd_cfg = (q', u'), rcv_cfg = (Wait (RAck3 buf), s', []), fwd = [] @ [d1, d2], bwd = []\<rparr>"
  have "half_open es ?cs ?M" using d r(2) by (simp add: half_open_def)
  with receiver_then_sender [OF N(1) S(1) N(2,3) r(1,4) q d(4)] show ?thesis by blast
qed

lemma half_open_run:
  assumes env: "env_ok es" "env_ok er"
  shows "\<exists>N. (fifo_step es er content)\<^sup>*\<^sup>* (net_start es er mem) N \<and> half_open es (read_chunks content) N"
proof -
  let ?cs = "read_chunks content" and ?buf = "map mem [0..<MAX_DATA_SIZE]" and ?N = "net_start es er mem"
  from sender_start_ready [OF env(1), of ?cs] obtain b u where
    S: "sender_start es = (Wait (SConnect b), u)" "sender_ready es ?cs 0 (Wait (SConnect b), u)" "tx (socket u) = [b]"
    by blast
  from receiver_start_ready [OF env(2), of ?buf ?cs] obtain s where
    R: "receiver_start er ?buf = (Wait (RConn ?buf), s, [])" "receiver_ready ?cs 0 (Wait (RConn ?buf), s, [])"
      "tx (socket s) = []" by auto
  have N: "snd_cfg ?N = (Wait (SConnect b), u)" "rcv_cfg ?N = (Wait (RConn ?buf), s, [])" "fwd ?N = [b]" "bwd ?N = []"
    using S R by (simp_all add: net_start_def Let_def)
  have "is_msg ?cs 0 b" using S(2) by simp
  from receiver_gets_conn [OF env(2) R(2) this] obtain s' w where
    r: "receiver_react er (RxDatagram b) (Wait (RConn ?buf), s, []) = (Wait (RAck3 ?buf), s', [])"
    "receiver_ready ?cs 1 (Wait (RAck3 ?buf), s', [])" "is_ack ?cs 0 w" "tx (socket s') = tx (socket s) @ [w]"
    by blast
  from S(2) have "sender_ready es ?cs 0 (snd_cfg ?N)" by (simp add: N)
  from request_round [OF env(1) N(1) this N(2-4) r] show ?thesis .
qed

lemma ack3_taken:
  assumes env: "env_ok er" and R: "rcv_cfg M = (Wait (RAck3 buf), s, out)"
    and ready: "receiver_ready (read_chunks content) 1 (Wait (RAck3 buf), s, out)"
    and f: "fwd M = d # b" "is_msg (read_chunks content) 1 d"
  shows "\<exists>R. fifo_step es er content M (M\<lparr>fwd := b, rcv_cfg := R\<rparr>) \<and> receiver_ready (read_chunks content) 2 R"
proof -
  from receiver_gets_ack3 [OF _ env ready f(2)] obtain s' a where
    r: "receiver_react er (RxDatagram d) (Wait (RAck3 buf), s, out) = (Wait (RData a buf), s', [])"
    "receiver_ready (read_chunks content) 2 (Wait (RData a buf), s', [])" "tx (socket s') = tx (socket s)" by auto
  have eq: "receiver_handles er (RxDatagram d) (M\<lparr>fwd := b\<rparr>) = M\<lparr>fwd := b, rcv_cfg := (Wait (RData a buf), s', [])\<rparr>"
    using R r by (simp add: receiver_handles_def Let_def emitted_def)
  show ?thesis
    by (rule exI, rule conjI, rule fifo_step.receiver_receives [OF f(1), of es er content, unfolded eq], rule r(2))
qed

lemma half_open_ready:
  assumes env: "env_ok er" and h: "half_open es (read_chunks content) M"
  shows "\<exists>N. (fifo_step es er content)\<^sup>*\<^sup>* M N \<and> net_ready es (read_chunks content) 2 N"
proof -
  let ?cs = "read_chunks content"
  from h obtain buf s out d1 d2 where R: "rcv_cfg M = (Wait (RAck3 buf), s, out)"
    and ready: "receiver_ready ?cs 1 (Wait (RAck3 buf), s, out)" "sender_ready es ?cs 2 (snd_cfg M)"
    and ch: "fwd M = d1 # [d2]" "is_msg ?cs 1 d1" "is_msg ?cs 2 d2" "bwd M = []"
    by (cases "rcv_cfg M") (auto simp: half_open_def)
  from ack3_taken [OF env R ready(1) ch(1,2)] obtain R' where
    step: "fifo_step es er content M (M\<lparr>fwd := [d2], rcv_cfg := R'\<rparr>)" "receiver_ready ?cs 2 R'" by blast
  have "net_ready es ?cs 2 (M\<lparr>fwd := [d2], rcv_cfg := R'\<rparr>)"
    using ready(2) step(2) ch by (simp add: net_ready_def)
  with step(1) show ?thesis by blast
qed

lemma handshake_run:
  assumes env: "env_ok es" "env_ok er"
  shows "\<exists>N. (fifo_step es er content)\<^sup>*\<^sup>* (net_start es er mem) N \<and> net_ready es (read_chunks content) 2 N"
proof -
  from half_open_run [OF env] obtain M where M: "(fifo_step es er content)\<^sup>*\<^sup>* (net_start es er mem) M"
    "half_open es (read_chunks content) M" by blast
  from half_open_ready [OF env(2) M(2)] M(1) show ?thesis by (meson rtranclp_trans)
qed

lemma close_round:
  assumes env: "env_ok es" and S: "snd_cfg N = (Wait (SClose sb g a t), u)" "sender_ready es (read_chunks content) c (snd_cfg N)"
    and N: "rcv_cfg N = (p, s, out)" "fwd N = [d]" "bwd N = []"
    and r: "receiver_react er (RxDatagram d) (p, s, out) = (Wait RQuiet, s', out')"
      "receiver_ready cs' (Suc c) (Wait RQuiet, s', out')" "is_ack (read_chunks content) c w"
      "tx (socket s') = tx (socket s) @ [w]"
  shows "\<exists>N'. (fifo_step es er content)\<^sup>*\<^sup>* N N' \<and> sender_returned N' \<and> receiver_returned N' \<and> received_file N' = out'"
proof -
  let ?cs = "read_chunks content"
  obtain q' u' where q: "sender_react es ?cs (RxDatagram w) (Wait (SClose sb g a t), u) = (q', u')" by fastforce
  from sender_ack_close [OF env S(2) [unfolded S(1)] r(3)] have
    s: "sender_ready es ?cs (Suc c) (q', u')" "tx (socket u') = tx (socket u) @ []" unfolding q by auto
  let ?M = "\<lparr>snd_cfg = (q', u'), rcv_cfg = (Wait RQuiet, s', out'), fwd = [] @ [], bwd = []\<rparr>"
  have run: "(fifo_step es er content)\<^sup>*\<^sup>* N ?M"
    by (rule receiver_then_sender [OF N(1) S(1) N(2,3) r(1,4) q s(2)])
  from s(1) S have q': "q' = Stop (Ret ())"
    by (cases "(es, ?cs, Suc c, (q', u'))" rule: sender_ready.cases) auto
  have "fifo_step es er content ?M (receiver_handles er RxAgain ?M)"
    by (rule fifo_step.receiver_times_out) (use r(2) in simp)
  moreover have "sender_returned (receiver_handles er RxAgain ?M)"
    by (simp add: receiver_handles_def Let_def sender_returned_def q')
  moreover have "receiver_returned (receiver_handles er RxAgain ?M)"
    using receiver_quiet_returns [OF r(2)] by (simp add: receiver_handles_def Let_def receiver_returned_def)
  moreover have "received_file (receiver_handles er RxAgain ?M) = out'"
    using receiver_quiet_returns [OF r(2)] by (simp add: receiver_handles_def Let_def received_file_def)
  ultimately show ?thesis using run by (meson rtranclp.rtrancl_into_rtrancl)
qed

lemma close_run:
  assumes env: "env_ok es" "env_ok er" and ready: "net_ready es (read_chunks content) (length (read_chunks content) + 2) N"
  shows "\<exists>N'. (fifo_step es er content)\<^sup>*\<^sup>* N N' \<and> sender_returned N' \<and> receiver_returned N'"
proof -
  let ?cs = "read_chunks content" and ?c = "length (read_chunks content) + 2"
  from ready obtain d where sr: "sender_ready es ?cs ?c (snd_cfg N)"
    and rr: "receiver_ready ?cs ?c (rcv_cfg N)" and ch: "fwd N = [d]" "bwd N = []" and d: "is_msg ?cs ?c d"
    by (auto simp: net_ready_def)
  from sender_ready_close [OF sr refl] obtain sb g a t u where S: "snd_cfg N = (Wait (SClose sb g a t), u)" .
  obtain ra buf s out where R: "rcv_cfg N = (Wait (RData ra buf), s, out)"
    by (rule receiver_ready_data [OF rr]) auto
  from receiver_gets_close [OF env(2) rr [unfolded R] d refl] obtain s' w where
    "receiver_react er (RxDatagram d) (Wait (RData ra buf), s, out) = (Wait RQuiet, s', out)"
    "receiver_ready ?cs (Suc ?c) (Wait RQuiet, s', out)" "is_ack ?cs ?c w" "tx (socket s') = tx (socket s) @ [w]"
    by auto
  from close_round [OF env(1) S sr R ch this] show ?thesis by blast
qed

text \<open>From a round on, the transfer can run to its end.\<close>

lemma ready_completes:
  assumes "\<not> MAX_DATA_SIZE dvd length content" and env: "env_ok es" "env_ok er"
    and "net_ready es (read_chunks content) c N"
  shows "\<exists>N'. (fifo_step es er content)\<^sup>*\<^sup>* N N' \<and> sender_returned N' \<and> receiver_returned N'"
proof -
  let ?cs = "read_chunks content"
  have "last ?cs \<noteq> []" using assms(1) by (simp add: last_read_chunks)
  moreover have "[] \<notin> set (butlast ?cs)" using blocks_ok_read_chunks [of content] by (simp add: blocks_ok_def)
  ultimately have "[] \<notin> set ?cs" using in_set_butlast_or_last by metis
  from blocks_run [OF env this assms(4)] obtain M where
    M: "(fifo_step es er content)\<^sup>*\<^sup>* N M" "net_ready es ?cs (length ?cs + 2) M" by blast
  from close_run [OF env M(2)] M(1) show ?thesis by (meson rtranclp_trans)
qed

lemma completing_run:
  assumes "\<not> MAX_DATA_SIZE dvd length content" and "env_ok es" and "env_ok er"
  shows "\<exists>N. (fifo_step es er content)\<^sup>*\<^sup>* (net_start es er mem) N \<and> sender_returned N \<and> receiver_returned N
    \<and> received_file N = content"
proof -
  let ?cs = "read_chunks content"
  from handshake_run [OF assms(2,3)] obtain M where
    M: "(fifo_step es er content)\<^sup>*\<^sup>* (net_start es er mem) M" "net_ready es ?cs 2 M" by blast
  from ready_completes [OF assms M(2)] M(1) obtain N where
    N: "(fifo_step es er content)\<^sup>*\<^sup>* (net_start es er mem) N" "sender_returned N" "receiver_returned N"
    by (meson rtranclp_trans)
  with returned_delivered [OF N(1,3)] show ?thesis by blast
qed

text \<open>C1: For every file whose length is not a multiple of the block size, on
  hosts where no system call fails, the two programs can run to their normal ends, and then the
  receiver has written exactly the file.\<close>

theorem transfer_completes:
  assumes "\<not> MAX_DATA_SIZE dvd length content" and "env_ok es" and "env_ok er"
  shows "\<exists>N. (fifo_step es er content)\<^sup>*\<^sup>* (net_start es er mem) N \<and> sender_returned N \<and> receiver_returned N
    \<and> received_file N = content"
  using assms by (rule completing_run)

section \<open>Concrete runs\<close>

lemma env_ok_quiet_env: "env_ok quiet_env"
  by (simp add: env_ok_def quiet_env_def msec_def current_msec_def rtt_limit_def)

lemma short_file: "\<not> MAX_DATA_SIZE dvd length [1, 2, 3 :: u8]"
  by (simp add: max_sizes dvd_eq_mod_eq_0)

theorem transfer_completes_witness:
  "\<exists>N. (fifo_step quiet_env quiet_env [1, 2, 3])\<^sup>*\<^sup>* (net_start quiet_env quiet_env (\<lambda>_. 0)) N
    \<and> sender_returned N \<and> receiver_returned N \<and> received_file N = [1, 2, 3]"
  by (rule transfer_completes [OF short_file env_ok_quiet_env env_ok_quiet_env])

lemma short_run:
  "\<exists>N. (fifo_step quiet_env quiet_env [1, 2, 3])\<^sup>*\<^sup>* (net_start quiet_env quiet_env (\<lambda>_. 0)) N
    \<and> sender_returned N \<and> receiver_returned N"
  using completing_run [OF short_file env_ok_quiet_env env_ok_quiet_env] by blast

theorem network_refines_witness:
  "\<exists>N I p. (fifo_step quiet_env quiet_env [1, 2, 3])\<^sup>*\<^sup>* (net_start quiet_env quiet_env (\<lambda>_. 0)) N
    \<and> sender_returned N \<and> set I \<subseteq> {0} \<and> (exchange (length (read_chunks [1, 2, 3])))\<^sup>*\<^sup>* (0, 0, I, []) p
    \<and> represents (read_chunks [1, 2, 3]) p N"
  using short_run network_refines by meson

theorem received_prefix_witness:
  "\<exists>N. (fifo_step quiet_env quiet_env [1, 2, 3])\<^sup>*\<^sup>* (net_start quiet_env quiet_env (\<lambda>_. 0)) N
    \<and> received_file N \<noteq> [] \<and> prefix (received_file N) [1, 2, 3]"
proof -
  from completing_run [OF short_file env_ok_quiet_env env_ok_quiet_env, of "\<lambda>_. 0"] obtain N where
    N: "(fifo_step quiet_env quiet_env [1, 2, 3])\<^sup>*\<^sup>* (net_start quiet_env quiet_env (\<lambda>_. 0)) N" "received_file N = [1, 2, 3]"
    by blast
  from received_prefix [OF N(1)] N show ?thesis by auto
qed

theorem normal_end_delivered_witness:
  "\<exists>N. (fifo_step quiet_env quiet_env [1, 2, 3])\<^sup>*\<^sup>* (net_start quiet_env quiet_env (\<lambda>_. 0)) N
    \<and> sender_returned N \<and> received_file N = [1, 2, 3]"
  using short_run normal_end_delivered by blast

text \<open>A file of one full block, after the handshake.\<close>

theorem aligned_file_never_completes_witness:
  "\<exists>N. (fifo_step quiet_env quiet_env (replicate MAX_DATA_SIZE 7))\<^sup>*\<^sup>* (net_start quiet_env quiet_env (\<lambda>_. 0)) N
    \<and> net_ready quiet_env (read_chunks (replicate MAX_DATA_SIZE 7)) 2 N \<and> \<not> sender_returned N"
proof -
  from handshake_run [OF env_ok_quiet_env env_ok_quiet_env] obtain N where
    N: "(fifo_step quiet_env quiet_env (replicate MAX_DATA_SIZE 7))\<^sup>*\<^sup>* (net_start quiet_env quiet_env (\<lambda>_. 0)) N"
    "net_ready quiet_env (read_chunks (replicate MAX_DATA_SIZE 7)) 2 N" by blast
  from aligned_file_never_completes [OF N(1)] N show ?thesis by auto
qed

text \<open>The handshake's third message is lost.\<close>

theorem lost_ack3_livelock_witness:
  "\<exists>N. (fifo_step quiet_env quiet_env [1, 2, 3])\<^sup>*\<^sup>* (net_start quiet_env quiet_env (\<lambda>_. 0)) N
    \<and> received_file N = [] \<and> \<not> sender_returned N \<and> \<not> receiver_returned N"
proof -
  let ?cs = "read_chunks [1, 2, 3]"
  from half_open_run [OF env_ok_quiet_env env_ok_quiet_env] obtain M where
    M: "(fifo_step quiet_env quiet_env [1, 2, 3])\<^sup>*\<^sup>* (net_start quiet_env quiet_env (\<lambda>_. 0)) M"
    "half_open quiet_env ?cs M" by blast
  then obtain d1 d2 rbuf where h: "fwd M = [] @ d1 # [d2]" "is_msg ?cs 2 d2" "fst (rcv_cfg M) = Wait (RAck3 rbuf)"
    and sr: "sender_ready quiet_env ?cs 2 (snd_cfg M)" by (auto simp: half_open_def)
  have "2 < length ?cs + 2" by (simp add: read_chunks.simps max_sizes)
  from sender_ready_data [OF sr order_refl this] obtain buf g a t rest s where
    S: "snd_cfg M = (Wait (SData buf g a t rest), s)" .
  let ?N = "M\<lparr>fwd := [] @ [d2]\<rparr>"
  have run: "(fifo_step quiet_env quiet_env [1, 2, 3])\<^sup>*\<^sup>* (net_start quiet_env quiet_env (\<lambda>_. 0)) ?N"
    using M(1) fifo_step.fwd_lost [OF h(1)] by (rule rtranclp.rtrancl_into_rtrancl)
  have "frame_of d2 = Some (msg ?cs 2)"
    using h(2) by (auto simp: is_msg_def is_frame_def rx_frame_def split: if_splits)
  then have none: "\<forall>d\<in>set (fwd ?N). frame_of d \<noteq> Some (ack_frame 3)"
    by (simp add: msg_def ack_frame_def)
  have "fst (snd_cfg ?N) = Wait (SData buf g a t rest)" and "fst (rcv_cfg ?N) = Wait (RAck3 rbuf)"
    using S h(3) by simp_all
  from lost_ack3_livelock [OF run this none rtranclp.rtrancl_refl] run show ?thesis by blast
qed

end
