(* ===== verification/Rdt_Contracts.thy ===== *)
theory Rdt_Contracts
  imports Rdt_Progress
begin

text \<open>
  What segments and file blocks promise: segments survive the trip through a datagram, a parsed length
  is not checked against the buffer, and the sender's blocks are the file.
\<close>

section \<open>Segments\<close>

text \<open>C18: A data segment of up to 1394 bytes is copied out as header and payload (the
  length most significant byte first), and what arrives in a receive buffer, whatever
  follows it there, parses back to the same type, numbers and payload.\<close>

theorem segment_roundtrip:
  assumes "length data \<le> MAX_DATA_SIZE" and "type_ok ty" and "length data \<le> length dest"
  shows "\<exists>d g. copy_to (RDTSegment_data pad seq ack ty data) (seg_buffer (RDTSegment_data pad seq ack ty data)) = Some d
    \<and> d = [seq, ack, byte_of_type ty, pad] @ be16 (word_of_nat (length data)) @ data
    \<and> RDTSegment_parse (d @ rest) = Some g
    \<and> get_sequence_number g = seq \<and> get_ack_number g = ack \<and> get_type g = ty
    \<and> unat (get_payload_size g) = length data \<and> copy_payload_to g dest = Some (overlay data dest)"
proof -
  let ?f = "\<lparr>fr_type = ty, fr_seq = seq, fr_ack = ack, fr_payload = data\<rparr>"
  have len: "length data \<le> 65529" using assms(1) by (simp add: max_sizes)
  have "frame_of (wire pad ?f) = Some ?f"
    using frame_of_wire [of ?f pad "[]"] assms(2) len by (simp add: frame_ok_def)
  then obtain g where g: "RDTSegment_parse (wire pad ?f @ rest) = Some g" "get_type g = ty"
    "get_sequence_number g = seq" "get_ack_number g = ack" "copy_span (payload g) = Some data"
    "span_size (payload g) = length data"
    by (rule frame_of_parse) auto
  moreover have "unat (get_payload_size g) = length data"
    using len by (simp add: get_payload_size_def g(6))
  moreover have "copy_payload_to g dest = Some (overlay data dest)"
    using assms(3) g(5) by (simp add: copy_payload_to_def)
  ultimately show ?thesis
    using copy_to_data [OF len, of pad seq ack ty]
    by (intro exI [of _ "wire pad ?f"] exI [of _ g]) (simp add: wire_def)
qed

theorem segment_roundtrip_witness:
  "\<exists>d g. copy_to (RDTSegment_data 0 1 0 RDT_DATA [72, 105]) (seg_buffer (RDTSegment_data 0 1 0 RDT_DATA [72, 105])) = Some d
    \<and> RDTSegment_parse (d @ replicate 1392 0) = Some g \<and> get_sequence_number g = 1
    \<and> copy_payload_to g (replicate 1394 9) = Some (overlay [72, 105] (replicate 1394 9))"
  using segment_roundtrip [of "[72, 105]" RDT_DATA "replicate 1394 9" 0 1 0 "replicate 1392 0"]
  by (auto simp: max_sizes)

text \<open>C19: The copy of a received payload reads or writes out of bounds exactly
  when the length that the sender of the datagram declared exceeds what is in the receive buffer or
  fits the destination; nothing in the parse rejects such a length.\<close>

theorem declared_length_unchecked:
  assumes "length buf = MAX_SEG_SIZE" and "length dest = MAX_DATA_SIZE"
  shows "\<exists>g. RDTSegment_parse buf = Some g
    \<and> (copy_payload_to g dest = None \<longleftrightarrow> MAX_DATA_SIZE < 256 * unat (buf ! 4) + unat (buf ! 5))"
proof -
  from assms(1) obtain h where h: "header_of_bytes buf = Some h"
    using header_of_bytes_defined [of buf] by (auto simp: max_sizes)
  then have size: "hdr_payload_size h = of_le16 (buf ! 4) (buf ! 5)"
    by (cases buf rule: header_of_bytes.cases) (auto simp: nth_Cons')
  let ?g = "\<lparr>header = h, payload = \<lparr>span_mem = drop 6 buf, span_size = unat (ntohs (hdr_payload_size h))\<rparr>\<rparr>"
  have "unat (ntohs (of_le16 x y)) = 256 * unat x + unat y" for x y
    by (rule unat_ntohs_of_le16)
  then have "copy_payload_to ?g dest = None \<longleftrightarrow> 1394 < 256 * unat (buf ! 4) + unat (buf ! 5)"
    using assms by (auto simp: copy_payload_to_def copy_span_def size max_sizes)
  with h show ?thesis
    by (intro exI [of _ ?g]) (simp add: RDTSegment_parse_def max_sizes)
qed

theorem declared_length_unchecked_witness:
  "\<exists>g. RDTSegment_parse ([0, 0, 0, 0, 255, 255] @ replicate 1394 0) = Some g
    \<and> copy_payload_to g (replicate 1394 0) = None"
  using declared_length_unchecked [of "[0, 0, 0, 0, 255, 255] @ replicate 1394 0" "replicate 1394 0"]
  by (simp add: max_sizes)

section \<open>The blocks of a file\<close>

text \<open>The blocks the sender program sends are the file cut into pieces of 1394
  bytes with a shorter one at the end, which is empty exactly when 1394 divides the file's length.\<close>

lemma read_chunks_file:
  "concat (read_chunks content) = content
    \<and> list_all (\<lambda>c. length c = MAX_DATA_SIZE) (butlast (read_chunks content))
    \<and> length (last (read_chunks content)) < MAX_DATA_SIZE
    \<and> (last (read_chunks content) = [] \<longleftrightarrow> MAX_DATA_SIZE dvd length content)"
  using read_chunks_full [of content] last_read_chunks [of content] by (simp add: max_sizes)

end
