(* ===== verification/Rdt_Recovery.thy ===== *)
theory Rdt_Recovery
  imports Rdt_Progress
begin

text \<open>
  The transfer recovers: for a file whose length is not a multiple of the block size, on hosts where no
  system call fails, whatever the (order-keeping) network has lost, repeated or delayed so far, two programs that still
  wait can complete the transfer, unless the third message of the handshake is lost (which is the dead end
  of \<open>Rdt_Progress\<close>) or the sender's timeout has become 0.
\<close>

section \<open>Facts about a socket that receiving and sending keep\<close>

abbreviation retains :: "(ReliableSocket \<Rightarrow> bool) \<Rightarrow> 'a rs_io \<Rightarrow> bool" where
  "retains P \<equiv> framed (\<lambda>s s'. P s \<longrightarrow> P s')"

interpretation retains: io_frame "\<lambda>s s'. P s \<longrightarrow> P s'"
  for P :: "ReliableSocket \<Rightarrow> bool"
  by unfold_locales simp_all

named_theorems retains_intros \<open>operations that keep a fact about the socket\<close>

lemma retainsD: "retains P m \<Longrightarrow> m s = (q, s') \<Longrightarrow> P s \<Longrightarrow> P s'"
  by (simp add: framed_def)

lemmas retains_basic [retains_intros] = retains.frame_intros

lemma retains_parse_log [retains_intros]: "retains P parse_received" "retains P (log_segment g)"
  unfolding parse_received_def
  by (rule retains.frame_here, intro retains_intros) (auto simp: log_segment_def intro: retains_intros split: option.split)

text \<open>What depends neither on what was sent nor on the status and the buffer.\<close>

locale socket_fact =
  fixes P :: "ReliableSocket \<Rightarrow> bool"
  assumes sent: "P s \<Longrightarrow> P (s\<lparr>socket := (socket s)\<lparr>tx := ds\<rparr>\<rparr>)"
    and joined: "P s \<Longrightarrow> P (s\<lparr>socket := (socket s)\<lparr>connected := True\<rparr>\<rparr>)"
    and buffered: "P s \<Longrightarrow> P (s\<lparr>seg_buf := b\<rparr>)"
    and moved: "P s \<Longrightarrow> P (s\<lparr>state := st\<rparr>)"
    and renumbered: "P s \<Longrightarrow> P (s\<lparr>sequence_number := n\<rparr>)"
begin

lemma retains_send: "retains P (send_buffer env d)" "retains P (send_ack env n)"
  by (auto simp: framed_def send_buffer_eq send_ack_eq intro: sent split: if_splits)

lemma retains_small: "retains P fill_zero" "retains P (set_state st)" "retains P flip_data_state" "retains P send_finish"
  unfolding framed_def fill_zero_def set_state_def flip_data_state_def send_finish_def
  by (auto simp: io_simps intro: buffered moved renumbered)

lemma retains_receive: "retains P (receive env e)"
proof (cases e)
  case (RxDatagram d)
  have "P (s\<lparr>socket := (socket s)\<lparr>connected := True\<rparr>, seg_buf := b\<rparr>)" if "P s" for s b
    using buffered [OF joined [OF that]] by simp
  with RxDatagram show ?thesis
    by (auto simp: framed_def receive_def Let_def intro: buffered split: if_splits)
qed (auto simp: framed_def receive_def)

lemmas retains_steps = retains_intros retains_send retains_small

lemma retains_bodies: "retains P (await_conn t r)" "retains P (await_ack2 t r)" "retains P (await_ack3 env t r)"
    "retains P (await_data env a buf t r)" "retains P (await_quiet env t r)"
  unfolding await_conn_def await_ack2_def await_ack3_def await_data_def await_quiet_def
  by (auto split: outcome.split sock_exn.split intro!: retains_steps)

lemma retains_connecting: "retains P (connect_send env d)" "retains P (connect_finish env)"
  unfolding connect_send_def connect_finish_def by (intro retains_steps)+

end

interpretation is_connected: socket_fact "\<lambda>s. connected (socket s)"
  by unfold_locales simp_all

interpretation has_timeout: socket_fact "\<lambda>s. timeout_length (socket s) \<noteq> 0"
  by unfold_locales simp_all

interpretation rtt_fact: socket_fact rtt_ok
  by unfold_locales (simp_all add: rtt_ok_def)

interpretation fit_fact: socket_fact fit
  by unfold_locales (simp_all add: fit_def rtt_ok_def)

interpretation timed: socket_fact "\<lambda>s. fit s \<and> waits_with env ty g t s"
  for env ty g t
  by unfold_locales (simp_all add: fit_def rtt_ok_def waits_with_def)

section \<open>The sender stays able to send\<close>

text \<open>What \<open>sender_ready\<close> says beside the place in the transfer; a sender retains it whatever arrives.\<close>

fun sender_sound :: "os_env \<Rightarrow> sender_cfg \<Rightarrow> bool" where
  "sender_sound env (Wait (SConnect buf), s) \<longleftrightarrow> fit s"
| "sender_sound env (Wait (SData buf g a t rest), s) \<longleftrightarrow> fit s \<and> waits_with env RDT_DATA g t s"
| "sender_sound env (Wait (SClose buf g a t), s) \<longleftrightarrow> fit s \<and> waits_with env RDT_CLOSE g t s"
| "sender_sound env (Stop q, s) \<longleftrightarrow> True"

lemma sender_ready_sound:
  "sender_ready env cs c (Wait p, s) \<longleftrightarrow> sender_at cs c (Wait p, s) \<and> sender_sound env (Wait p, s)"
  by (cases p) auto

lemma sender_sound_stop [simp]: "sender_sound env (sender_stop q s)"
  by (simp add: sender_stop_def)

lemma enter_sound:
  assumes "\<And>t s'. pre s = (Ret t, s') \<Longrightarrow> sender_sound env (mk t s')"
  shows "sender_sound env (enter pre mk sender_stop s)"
  using assms by (rule enter_rule [where Q = "sender_sound env"]) simp_all

lemma enter_resend_sound:
  assumes "env_ok env" and "fit s"
    and "\<And>t s'. fit s' \<Longrightarrow> (\<exists>k. clock_reads s' = Suc k \<and> t = msec env k) \<Longrightarrow> sender_sound env (Wait (pc t), s')"
  shows "sender_sound env (enter (resend env buf) (\<lambda>t s. (Wait (pc t), s)) sender_stop s)"
  using resend_ok [OF assms(1,2), of buf] assms(3) by (auto simp: enter_def)

lemma enter_acked_sound:
  assumes "env_ok env" and "fit s"
    and "\<And>buf a t s'. fit s' \<Longrightarrow> waits_with env (get_type g) g t s' \<Longrightarrow> sender_sound env (Wait (mk buf a t), s')"
  shows "sender_sound env (enter_acked env mk g s)"
proof (rule log_segment_cases [of g s])
  assume l: "log_segment g s = (Ret (), s)"
  have "sender_sound env (enter (resend env buf) (\<lambda>t s. (Wait (mk buf a t), s)) sender_stop s)" for buf a
    by (rule enter_resend_sound [OF assms(1,2)]) (simp add: assms(3) waits_with_def)
  with l show ?thesis by (simp add: enter_acked_def split: option.split)
qed (simp add: enter_acked_def)

lemma sender_next_sound:
  assumes "env_ok env" and "fit s"
  shows "sender_sound env (sender_next env rest s)"
proof (cases rest)
  case Nil
  have "get_type (close_segment env s) = RDT_CLOSE" by (simp add: close_segment_def segment_defs)
  then show ?thesis
    unfolding Nil sender_next.simps by (intro enter_acked_sound assms) simp
next
  case (Cons b bs)
  have "get_type (data_segment env s b) = RDT_DATA" by (simp add: data_segment_def segment_defs)
  then show ?thesis
    unfolding Cons sender_next.simps by (intro enter_acked_sound assms(1) fit_fact.moved [OF assms(2)]) simp
qed

lemma await_ack_fit:
  assumes env: "env_ok env" and fit: "fit s" and w: "waits_with env ty g t s"
    and run: "await_ack env g a t r s = (q, s')"
  shows "fit s'"
proof (cases "\<exists>n. r = Ret n")
  case True
  then obtain n where r: "r = Ret n" ..
  from w obtain k where k: "clock_reads s = Suc k" "t = msec env k" by (auto simp: waits_with_def)
  let ?s = "s\<lparr>clock_reads := Suc (clock_reads s)\<rparr>" and ?m = "msec env (Suc k) - msec env k"
  have m: "0 \<le> ?m" "?m \<le> rtt_limit" using env by (auto simp: env_ok_def)
  then have checked: "checked_int ?m = Some ?m" by (intro checked_int_Some int_fits_limit) simp
  have sample: "uint (to_uint32 ?m) \<le> rtt_limit"
    using m uint_to_uint32 [of ?m] by simp
  have fit': "fit ?s" using fit by (simp add: fit_def rtt_ok_def)
  have clock: "read_clock env s = (Ret (msec env (Suc k)), ?s)"
    by (simp add: read_clock_def k msec_def)
  obtain q1 s1 where u: "update_rtt env (to_uint32 ?m) ?s = (q1, s1)" by fastforce
  have "fit s1"
    using u update_rtt_eq [OF _ sample, of ?s env] rtt_ok_update [OF _ sample, of ?s] fit' env
    by (auto simp: fit_def env_ok_def with_rtt_def)
  with run fit' u show ?thesis
    unfolding r by (auto simp: await_ack_def bind_io_split then_io_split clock k(2) checked io_simps(1-5)
        split: outcome.splits prod.splits if_splits dest!: log_segment_state parse_received_state)
next
  case False
  with run have "s' = s"
    by (auto simp: await_ack_def io_simps split: outcome.splits sock_exn.splits)
  with fit show ?thesis by simp
qed

lemma acked_react_sound:
  assumes env: "env_ok env" and s: "fit s" "waits_with env ty g t s"
    and pc: "\<And>t s'. fit s' \<Longrightarrow> waits_with env ty g t s' \<Longrightarrow> sender_sound env (Wait (pc t), s')"
    and fin: "\<And>s'. fit s' \<Longrightarrow> sender_sound env (fin () s')"
  shows "sender_sound env (iterate env (resend env buf) (await_ack env g a) (\<lambda>t s. (Wait (pc t), s)) sender_stop fin t e s)"
proof -
  have fit: "fit s3" if "receive env e s = (r, s2)" and "await_ack env g a t r s2 = (q, s3)" for r s2 q s3
  proof -
    from retainsD [OF timed.retains_receive that(1), of env ty g t] s have "fit s2" "waits_with env ty g t s2" by auto
    from await_ack_fit [OF env this that(2)] show ?thesis .
  qed
  show ?thesis
  proof (rule iterate_rule)
    fix r s2 q s3 assume "receive env e s = (r, s2)" and "await_ack env g a t r s2 = (Ret None, s3)"
    then have "fit s3" by (rule fit)
    then show "sender_sound env (enter (resend env buf) (\<lambda>t s. (Wait (pc t), s)) sender_stop s3)"
      using s(2) by (intro enter_resend_sound env pc) (auto simp: waits_with_def)
  qed (auto intro: fin fit)
qed

lemma sender_react_sound:
  assumes env: "env_ok env" and s: "sender_sound env S"
  shows "sender_sound env (sender_react env cs e S)"
proof (cases "(env, cs, e, S)" rule: sender_react.cases)
  case (1 env' cs' e' buf s)
  with s have "fit s" by simp
  have "sender_sound env (iterate env (connect_send env buf) await_ack2 (\<lambda>_ s. (Wait (SConnect buf), s)) sender_stop
       (sender_connected env cs) () e s)"
  proof (rule iterate_rule)
    fix r s2 s3 assume rcv: "receive env e s = (r, s2)" and b: "await_ack2 () r s2 = (Ret None, s3)"
    from rcv \<open>fit s\<close> have "fit s2" by (rule retainsD [OF fit_fact.retains_receive])
    with b have "fit s3" by (rule retainsD [OF fit_fact.retains_bodies(2)])
    then show "sender_sound env (enter (connect_send env buf) (\<lambda>_ s. (Wait (SConnect buf), s)) sender_stop s3)"
      by (intro enter_sound) (auto intro: retainsD [OF fit_fact.retains_connecting(1)])
  next
    fix r s2 x s3 assume rcv: "receive env e s = (r, s2)" and b: "await_ack2 () r s2 = (Ret (Some x), s3)"
    from rcv \<open>fit s\<close> have "fit s2" by (rule retainsD [OF fit_fact.retains_receive])
    with b have "fit s3" by (rule retainsD [OF fit_fact.retains_bodies(2)])
    then show "sender_sound env (sender_connected env cs x s3)"
      unfolding sender_connected_def
      by (intro enter_sound) (auto intro: sender_next_sound env retainsD [OF fit_fact.retains_connecting(2)])
  qed simp
  with 1 show ?thesis by simp
next
  case (2 env' cs' e' buf g a t rest s)
  have "sender_sound env (sender_acked env rest () s')" if "fit s'" for s'
    unfolding sender_acked_def using that
    by (intro enter_sound) (auto intro: sender_next_sound env retainsD [OF fit_fact.retains_small(4)])
  moreover from 2 have S: "S = (Wait (SData buf g a t rest), s)" by simp
  moreover from s S have "fit s" "waits_with env RDT_DATA g t s" by simp_all
  ultimately show ?thesis
    unfolding S sender_react.simps by (intro acked_react_sound [where ty = RDT_DATA] env) (simp_all add: waits_with_def)
next
  case (3 env' cs' e' buf g a t s)
  have "sender_sound env (sender_closed () s')" for s'
    by (simp add: sender_closed_def enter_def then_io_split set_state_def us_close_def on_socket_def io_simps)
  moreover from 3 have S: "S = (Wait (SClose buf g a t), s)" by simp
  moreover from s S have "fit s" "waits_with env RDT_CLOSE g t s" by simp_all
  ultimately show ?thesis
    unfolding S sender_react.simps by (intro acked_react_sound [where ty = RDT_CLOSE] env) (simp_all add: waits_with_def)
next
  case (4 env' cs' e' q s)
  then show ?thesis by simp
qed

section \<open>The receiver stays able to answer\<close>

fun receiver_sound :: "receiver_cfg \<Rightarrow> bool" where
  "receiver_sound (Wait (RConn buf), s, out) \<longleftrightarrow> rtt_ok s"
| "receiver_sound (Wait (RAck3 buf), s, out) \<longleftrightarrow> connected (socket s)"
| "receiver_sound (Wait (RData a buf), s, out) \<longleftrightarrow> connected (socket s)"
| "receiver_sound (Wait RQuiet, s, out) \<longleftrightarrow> timeout_length (socket s) \<noteq> 0"
| "receiver_sound (Stop q, s, out) \<longleftrightarrow> True"

lemma receiver_ready_sound:
  "receiver_ready cs r (Wait p, s, out) \<longleftrightarrow> receiver_at cs r (Wait p, s, out) \<and> receiver_sound (Wait p, s, out)"
  by (cases p) auto

lemma receiver_sound_stop [simp]: "receiver_sound (receiver_stop out q s)"
  by (simp add: receiver_stop_def)

lemma receiver_enter_sound:
  assumes "\<And>t s'. pre s = (Ret t, s') \<Longrightarrow> receiver_sound (mk t s')"
  shows "receiver_sound (enter pre mk (receiver_stop out) s)"
  using assms by (rule enter_rule [where Q = receiver_sound]) simp_all

lemma set_timeout_retains: "retains (\<lambda>s. connected (socket s)) (set_timeout env ms)"
  by (auto simp: framed_def set_timeout_def on_socket_def io_simps)

lemma receiver_data_sound:
  "connected (socket s) \<Longrightarrow> receiver_sound (receiver_data env buf out s)"
  unfolding receiver_data_def receive_start_def
  by (intro receiver_enter_sound) (auto dest!: retainsD [where P = "\<lambda>s. connected (socket s)",
      OF retains.frame_then [OF is_connected.retains_small(1) set_timeout_retains]])

lemma receiver_close_sound:
  assumes "env_ok env"
  shows "receiver_sound (receiver_close env out s)"
  using assms by (auto simp: receiver_close_def enter_def then_io_split set_timeout_def on_socket_def
      fill_zero_def io_simps env_ok_def to_uint32_def us_close_def)

lemma receiver_got_sound:
  assumes "env_ok env" and "connected (socket s)"
  shows "receiver_sound (receiver_got env out x s)"
  using assms by (cases x) (simp add: receiver_got_def receiver_data_sound receiver_close_sound)

lemma receive_connects: "receive env e s = (Ret n, s') \<Longrightarrow> connected (socket s')"
  by (cases e) (auto simp: receive_def Let_def split: if_splits)

lemma receiver_requested_sound:
  assumes "env_ok env" and "rtt_ok s" and "connected (socket s)"
  shows "receiver_sound (receiver_requested env buf x s)"
  unfolding receiver_requested_def
proof (rule receiver_enter_sound)
  fix t s' assume "then_io (accept_ack2 env) fill_zero s = (Ret t, s')"
  moreover obtain s1 where a: "send_ack env 2 s = (Ret (), s1)" "rtt_ok s1" "connected (socket s1)"
    using assms send_ack_ok [of env s 2] by (simp add: rtt_ok_def)
  moreover have "rtt_timeout env s1 = (Ret (), with_rtt (estimated_rtt s1) (dev_rtt s1) s1)"
    using a(2) assms(1) by (intro rtt_timeout_eq) (simp_all add: env_ok_def)
  ultimately show "receiver_sound (Wait (RAck3 buf), s', [])"
    by (auto simp: accept_ack2_def then_io_split fill_zero_def io_simps(1-3) with_rtt_def)
qed

lemma iterate_sound:
  assumes P: "socket_fact P" "P s" and keep: "retains P pre" "\<And>t r. retains P (body t r)"
    and again: "\<And>t s'. P s' \<Longrightarrow> receiver_sound (mk t s')"
    and leave: "\<And>r s2 x s3. receive env e s = (r, s2) \<Longrightarrow> body t r s2 = (Ret (Some x), s3) \<Longrightarrow> P s3
      \<Longrightarrow> receiver_sound (fin x s3)"
  shows "receiver_sound (iterate env pre body mk (receiver_stop out) fin t e s)"
proof -
  have kept: "P s3" if "receive env e s = (r, s2)" and "body t r s2 = (q, s3)" for r s2 q s3
    using retainsD [OF keep(2) that(2) retainsD [OF socket_fact.retains_receive [OF P(1)] that(1) P(2)]] .
  show ?thesis
  proof (rule iterate_rule)
    fix r s2 s3 assume "receive env e s = (r, s2)" and "body t r s2 = (Ret None, s3)"
    then have "P s3" by (rule kept)
    then show "receiver_sound (enter pre mk (receiver_stop out) s3)"
      by (intro receiver_enter_sound) (auto intro: again retainsD [OF keep(1)])
  qed (auto intro: leave kept)
qed

lemma receiver_react_sound:
  assumes env: "env_ok env" and s: "receiver_sound R"
  shows "receiver_sound (receiver_react env e R)"
proof (cases "(env, e, R)" rule: receiver_react.cases)
  case (1 env' e' buf s out)
  then have R: "R = (Wait (RConn buf), s, out)" by simp
  have leave: "receiver_sound (receiver_requested env buf x s3)"
    if "receive env e s = (r, s2)" and b: "await_conn () r s2 = (Ret (Some x), s3)" and "rtt_ok s3" for r s2 x s3
  proof -
    from b obtain n where "r = Ret n" by (auto simp: await_conn_def io_simps split: outcome.splits)
    with that(1) have "connected (socket s2)" by (simp add: receive_connects)
    with b have "connected (socket s3)" by (rule retainsD [OF is_connected.retains_bodies(1)])
    with env that(3) show ?thesis by (rule receiver_requested_sound)
  qed
  from s R show ?thesis
    unfolding R receiver_react.simps by (intro iterate_sound [OF rtt_fact.socket_fact_axioms])
      (simp_all add: rtt_fact.retains_small rtt_fact.retains_bodies leave)
next
  case (2 env' e' buf s out)
  then have R: "R = (Wait (RAck3 buf), s, out)" by simp
  from s R show ?thesis
    unfolding R receiver_react.simps by (intro iterate_sound [OF is_connected.socket_fact_axioms])
      (simp_all add: is_connected.retains_small is_connected.retains_bodies receiver_opened_def receiver_data_sound)
next
  case (3 env' e' a buf s out)
  then have R: "R = (Wait (RData a buf), s, out)" by simp
  from s R show ?thesis
    unfolding R receiver_react.simps by (intro iterate_sound [OF is_connected.socket_fact_axioms])
      (simp_all add: retains_basic is_connected.retains_bodies receiver_got_sound env)
next
  case (4 env' e' s out)
  then have R: "R = (Wait RQuiet, s, out)" by simp
  have "receiver_sound (receiver_quiet out x s3)" for x s3
    by (simp add: receiver_quiet_def enter_def then_io_split set_state_def us_close_def on_socket_def io_simps)
  with s R show ?thesis
    unfolding R receiver_react.simps by (intro iterate_sound [OF has_timeout.socket_fact_axioms])
      (simp_all add: has_timeout.retains_small has_timeout.retains_bodies)
next
  case (5 env' e' q s out)
  then show ?thesis by simp
qed

section \<open>Both stay ready\<close>

interpretation sound: step_invariant "fifo_step es er content"
    "\<lambda>N. env_ok es \<and> env_ok er \<and> sender_sound es (snd_cfg N) \<and> receiver_sound (rcv_cfg N)"
  for es er content
proof
  fix N M assume step: "fifo_step es er content N M"
    and ok: "env_ok es \<and> env_ok er \<and> sender_sound es (snd_cfg N) \<and> receiver_sound (rcv_cfg N)"
  from step show "env_ok es \<and> env_ok er \<and> sender_sound es (snd_cfg M) \<and> receiver_sound (rcv_cfg M)"
    by cases (use ok sender_react_sound receiver_react_sound in
      \<open>auto simp: sender_handles_def receiver_handles_def Let_def\<close>)
qed

lemma start_sound:
  assumes "env_ok es" and "env_ok er"
  shows "sender_sound es (snd_cfg (net_start es er mem)) \<and> receiver_sound (rcv_cfg (net_start es er mem))"
  using sender_start_ready [OF assms(1), of "[]"]
    receiver_start_ready [OF assms(2), of "map mem [0..<MAX_DATA_SIZE]" "[]"]
  by (auto simp: net_start_def Let_def)

text \<open>In a reachable state, two processes that wait are ready at neighbouring places of the transfer.\<close>

lemma waiting_ready:
  assumes env: "env_ok es" "env_ok er" and run: "(fifo_step es er content)\<^sup>*\<^sup>* (net_start es er mem) N"
    and wait: "fst (snd_cfg N) = Wait p" "fst (rcv_cfg N) = Wait q"
  obtains c r I where "sender_ready es (read_chunks content) c (snd_cfg N)"
    "receiver_ready (read_chunks content) r (rcv_cfg N)" "list_all2 (is_msg (read_chunks content)) I (fwd N)"
    "c \<noteq> 1" "c \<le> r \<or> c = 2 \<and> r = 1" "r \<le> Suc c" "c \<le> length (read_chunks content) + 2"
proof -
  let ?cs = "read_chunks content"
  obtain I0 where "represents ?cs (0, 0, I0, []) (net_start es er mem)"
    using represents_start by blast
  from run_simulated [OF run this] obtain c r I J where rep: "represents ?cs (c, r, I, J) N"
    by (metis prod_cases4)
  obtain s where S: "snd_cfg N = (Wait p, s)" using wait(1) by (cases "snd_cfg N") simp
  obtain s' out where R: "rcv_cfg N = (Wait q, s', out)" using wait(2) by (cases "rcv_cfg N") simp
  from sound.inv_steps [OF run] start_sound [OF env] env
  have "sender_sound es (snd_cfg N)" "receiver_sound (rcv_cfg N)" by simp_all
  with rep have ready: "sender_ready es ?cs c (snd_cfg N)" "receiver_ready ?cs r (rcv_cfg N)"
    unfolding S R by (simp_all add: sender_ready_sound receiver_ready_sound represents_def S R)
  have "c \<le> length ?cs + 2"
    using ready(1) by (cases "(es, ?cs, c, snd_cfg N)" rule: sender_ready.cases) (auto simp: S)
  with ready rep show thesis
    by (intro that [of c r I]) (auto simp: represents_def in_step_def)
qed

section \<open>Retransmission\<close>

lemma sender_retransmits:
  assumes env: "env_ok env" and ready: "sender_ready env cs c (Wait p, s)"
  shows "\<exists>p' s' d. sender_react env cs RxAgain (Wait p, s) = (Wait p', s')
    \<and> sender_ready env cs c (Wait p', s') \<and> is_msg cs c d \<and> tx (socket s') = tx (socket s) @ [d]"
proof (cases p)
  case (SConnect b)
  with ready env show ?thesis
    by (simp add: iterate_def receive_def await_ack2_def enter_def connect_send_def then_io_split
        send_buffer_ok fill_zero_def io_simps(1-3) fit_def rtt_ok_def)
next
  case (SData b g a t rest)
  with ready have fit: "fit s" by simp
  from resend_ok [OF env this, of b] obtain s' where
    r: "resend env b s = (Ret (msec env (clock_reads s)), s')" "fit s'" "tx (socket s') = tx (socket s) @ [b]"
    "clock_reads s' = Suc (clock_reads s)" "sequence_number s' = sequence_number s" by blast
  have "sender_react env cs RxAgain (Wait p, s) = (Wait (SData b g a (msec env (clock_reads s)) rest), s')"
    using SData r(1) by (simp add: iterate_def receive_def await_ack_def enter_def io_simps(1-3))
  with ready SData r show ?thesis by (auto simp: waits_with_def)
next
  case (SClose b g a t)
  with ready have fit: "fit s" by simp
  from resend_ok [OF env this, of b] obtain s' where
    r: "resend env b s = (Ret (msec env (clock_reads s)), s')" "fit s'" "tx (socket s') = tx (socket s) @ [b]"
    "clock_reads s' = Suc (clock_reads s)" by blast
  have "sender_react env cs RxAgain (Wait p, s) = (Wait (SClose b g a (msec env (clock_reads s))), s')"
    using SClose r(1) by (simp add: iterate_def receive_def await_ack_def enter_def io_simps(1-3))
  with ready SClose r show ?thesis by (auto simp: waits_with_def)
qed

lemma fwd_dropped:
  "fwd N = a @ xs @ b \<Longrightarrow> (fifo_step es er content)\<^sup>*\<^sup>* N (N\<lparr>fwd := a @ b\<rparr>)"
proof (induction xs arbitrary: N)
  case Nil
  then have "N\<lparr>fwd := a @ b\<rparr> = N" by (cases N) simp
  then show ?case by simp
next
  case (Cons x xs)
  then have "fifo_step es er content N (N\<lparr>fwd := a @ xs @ b\<rparr>)" by (intro fifo_step.fwd_lost) simp
  moreover have "(fifo_step es er content)\<^sup>*\<^sup>* (N\<lparr>fwd := a @ xs @ b\<rparr>) (N\<lparr>fwd := a @ b\<rparr>)"
    using Cons.IH [of "N\<lparr>fwd := a @ xs @ b\<rparr>"] by simp
  ultimately show ?case by (rule converse_rtranclp_into_rtranclp)
qed

lemma bwd_dropped:
  "bwd N = xs \<Longrightarrow> (fifo_step es er content)\<^sup>*\<^sup>* N (N\<lparr>bwd := []\<rparr>)"
proof (induction xs arbitrary: N)
  case Nil
  then have "N\<lparr>bwd := []\<rparr> = N" by (cases N) simp
  then show ?case by simp
next
  case (Cons x xs)
  then have "fifo_step es er content N (N\<lparr>bwd := [] @ xs\<rparr>)" by (intro fifo_step.bwd_lost [where d = x]) simp
  moreover have "(fifo_step es er content)\<^sup>*\<^sup>* (N\<lparr>bwd := [] @ xs\<rparr>) (N\<lparr>bwd := []\<rparr>)"
    using Cons.IH [of "N\<lparr>bwd := xs\<rparr>"] by simp
  ultimately show ?case by (rule converse_rtranclp_into_rtranclp)
qed

text \<open>However the channels are, a timeout can bring them to one message.\<close>

lemma channels_renewed:
  assumes env: "env_ok es" and ready: "sender_ready es (read_chunks content) c (snd_cfg N)"
    and wait: "fst (snd_cfg N) = Wait p" and t: "timeout_length (socket (snd (snd_cfg N))) \<noteq> 0"
  shows "\<exists>M d. (fifo_step es er content)\<^sup>*\<^sup>* N M \<and> sender_ready es (read_chunks content) c (snd_cfg M)
    \<and> rcv_cfg M = rcv_cfg N \<and> fwd M = [d] \<and> is_msg (read_chunks content) c d \<and> bwd M = []"
proof -
  let ?cs = "read_chunks content"
  obtain s where S: "snd_cfg N = (Wait p, s)" using wait by (cases "snd_cfg N") simp
  from sender_retransmits [OF env ready [unfolded S]] obtain p' s' d where
    r: "sender_react es ?cs RxAgain (Wait p, s) = (Wait p', s')" "sender_ready es ?cs c (Wait p', s')"
    "is_msg ?cs c d" "tx (socket s') = tx (socket s) @ [d]" by blast
  let ?N = "N\<lparr>fwd := [], bwd := []\<rparr>"
  have "(fifo_step es er content)\<^sup>*\<^sup>* N (N\<lparr>fwd := []\<rparr>)"
    using fwd_dropped [of N "[]" "fwd N" "[]"] by simp
  moreover have "(fifo_step es er content)\<^sup>*\<^sup>* (N\<lparr>fwd := []\<rparr>) ?N"
    using bwd_dropped [of "N\<lparr>fwd := []\<rparr>", OF refl] by simp
  moreover have "fifo_step es er content ?N (sender_handles es content RxAgain ?N)"
    by (rule fifo_step.sender_times_out) (simp add: t)
  ultimately have "(fifo_step es er content)\<^sup>*\<^sup>* N (sender_handles es content RxAgain ?N)"
    by (meson rtranclp.rtrancl_into_rtrancl rtranclp_trans)
  moreover have "sender_handles es content RxAgain ?N = N\<lparr>snd_cfg := (Wait p', s'), fwd := [d], bwd := []\<rparr>"
    by (simp add: sender_handles_def Let_def S r emitted_def)
  ultimately show ?thesis
    by (intro exI [of _ "sender_handles es content RxAgain ?N"] exI [of _ d]) (simp add: r)
qed

text \<open>A message that the receiver already has is acknowledged again.\<close>

lemma receiver_reacks:
  assumes env: "env_ok env" and ready: "receiver_ready cs (Suc c) (Wait q, s, out)" and c: "c \<noteq> 1"
    and d: "is_msg cs c d"
  shows "\<exists>s' w. receiver_react env (RxDatagram d) (Wait q, s, out) = (Wait q, s', out)
    \<and> receiver_ready cs (Suc c) (Wait q, s', out) \<and> is_ack cs c w \<and> tx (socket s') = tx (socket s) @ [w]"
proof -
  let ?s2 = "s\<lparr>socket := (socket s)\<lparr>connected := True\<rparr>, seg_buf := overlay d (seg_buf s)\<rparr>"
  from receive_ok [OF env d [unfolded is_msg_def], of s]
  have rcv: "receive env (RxDatagram d) s = (Ret (length d), ?s2)" and h: "holds_frame ?s2 (msg cs c)" by auto
  from h obtain g where g: "parse_received ?s2 = (Ret g, ?s2)" "get_type g = fr_type (msg cs c)"
    "get_sequence_number g = fr_seq (msg cs c)" by (rule parse_holds) auto
  have ack: "send_ack env n ?s2 = (Ret (), ?s2\<lparr>socket := (socket ?s2)\<lparr>tx := tx (socket s) @ [wire (padding env ?s2) (ack_frame n)]\<rparr>\<rparr>)" for n
    using send_ack_ok [OF env, of ?s2 n] by simp
  have w: "is_ack cs c (wire (padding env ?s2) (ack_frame (ackno cs c)))"
    using is_frame_ack [of "ackno cs c"] by (simp add: is_ack_def)
  show ?thesis
  proof (cases q)
    case (RConn buf)
    with ready show ?thesis by simp
  next
    case (RAck3 buf)
    with ready have c0: "c = 0" "out = []" "length buf = MAX_DATA_SIZE" by (simp_all add: written_def)
    then have ty: "get_type g = RDT_CONN" using msg_type(1) g(2) by simp
    have "await_ack3 env () (Ret (length d)) ?s2 = (Ret None, snd (send_ack env 2 ?s2))"
      using ty by (simp add: await_ack3_def bind_io_split then_io_split g(1) ack io_simps(1))
    with rcv ack [of 2] w c0 RAck3 show ?thesis
      by (auto simp: iterate_def enter_def fill_zero_def io_simps(1-3) ackno_def written_def)
  next
    case (RData a buf)
    with ready have at: "2 \<le> Suc c" "Suc c \<le> length cs + 2" "a = parity (Suc c)" by auto
    then have c2: "2 \<le> c" "c < length cs + 2" using c by auto
    then have m: "fr_type (msg cs c) = RDT_DATA" "fr_seq (msg cs c) = parity c" "ackno cs c = parity c"
      by (simp_all add: msg_def ackno_def)
    then have "log_segment g ?s2 = (Ret (), ?s2)" using g(2) by (intro log_segment_ok) simp
    moreover have "1 - a = parity c" using at(3) parity_simps(1) [of "Suc c"] by simp
    ultimately have "await_data env a buf () (Ret (length d)) ?s2 = (Ret None, snd (send_ack env (parity c) ?s2))"
      using m g(2,3) at(3) by (simp add: await_data_def bind_io_split then_io_split g(1) ack io_simps(1))
    with rcv ack [of "parity c"] w [unfolded m(3)] ready RData show ?thesis
      by (auto simp: iterate_def enter_def io_simps(1-3))
  next
    case RQuiet
    with ready have cn: "c = length cs + 2" by simp
    then have ty: "get_type g = RDT_CLOSE" using msg_type(4) g(2) by simp
    have "await_quiet env () (Ret (length d)) ?s2 = (Ret None, snd (send_ack env 4 ?s2))"
      using ty by (simp add: await_quiet_def bind_io_split then_io_split g(1) ack io_simps(1))
    with rcv ack [of 4] w cn ready RQuiet show ?thesis
      by (auto simp: iterate_def enter_def fill_zero_def io_simps(1-3) ackno_def)
  qed
qed

section \<open>Completion from every state\<close>

lemma half_open_completes:
  assumes len: "\<not> MAX_DATA_SIZE dvd length content" and env: "env_ok es" "env_ok er"
    and "\<exists>M. (fifo_step es er content)\<^sup>*\<^sup>* N M \<and> half_open es (read_chunks content) M"
  shows "\<exists>N'. (fifo_step es er content)\<^sup>*\<^sup>* N N' \<and> sender_returned N' \<and> receiver_returned N'"
proof -
  from assms(4) obtain M where M: "(fifo_step es er content)\<^sup>*\<^sup>* N M" "half_open es (read_chunks content) M" by blast
  from half_open_ready [OF env(2) M(2)] obtain M' where
    M': "(fifo_step es er content)\<^sup>*\<^sup>* M M'" "net_ready es (read_chunks content) 2 M'" by blast
  from ready_completes [OF len env M'(2)] M(1) M'(1) show ?thesis by (meson rtranclp_trans)
qed

lemma sender_ready_connect:
  assumes "sender_ready es cs 0 S"
  obtains buf s where "S = (Wait (SConnect buf), s)"
  using assms by (cases "(es, cs, 0 :: nat, S)" rule: sender_ready.cases) auto

text \<open>One message under way, which the receiver has already.\<close>

lemma repeated_completes:
  assumes len: "\<not> MAX_DATA_SIZE dvd length content" and env: "env_ok es" "env_ok er"
    and sr: "sender_ready es (read_chunks content) c (snd_cfg N)"
    and R: "rcv_cfg N = (Wait q, s, out)" and rr: "receiver_ready (read_chunks content) (Suc c) (Wait q, s, out)"
    and ch: "fwd N = [d]" "is_msg (read_chunks content) c d" "bwd N = []"
    and c: "c \<noteq> 1" "c \<le> length (read_chunks content) + 2"
  shows "\<exists>N'. (fifo_step es er content)\<^sup>*\<^sup>* N N' \<and> sender_returned N' \<and> receiver_returned N'"
proof -
  let ?cs = "read_chunks content"
  from receiver_reacks [OF env(2) rr c(1) ch(2)] obtain s' w where
    w: "receiver_react er (RxDatagram d) (Wait q, s, out) = (Wait q, s', out)"
    "receiver_ready ?cs (Suc c) (Wait q, s', out)" "is_ack ?cs c w" "tx (socket s') = tx (socket s) @ [w]" by blast
  consider "c = 0" | "2 \<le> c" "c < length ?cs + 2" | "c = length ?cs + 2" using c by linarith
  then show ?thesis
  proof cases
    case 1
    obtain b u where S: "snd_cfg N = (Wait (SConnect b), u)" using sr unfolding 1 by (rule sender_ready_connect)
    obtain buf where q: "q = RAck3 buf" using w(2) 1 by (cases q) auto
    have "out = []" using w(2) 1 by (simp add: q written_def)
    with request_round [OF env(1) S sr [unfolded 1] R [unfolded q] ch(1,3)] w show ?thesis
      by (intro half_open_completes [OF len env]) (simp add: q 1)
  next
    case 2
    from sender_ready_data [OF sr 2] obtain sb g a t rest u where S: "snd_cfg N = (Wait (SData sb g a t rest), u)" .
    obtain q' u' where q: "sender_react es ?cs (RxDatagram w) (Wait (SData sb g a t rest), u) = (q', u')" by fastforce
    from sender_ack_block [OF _ env(1) sr [unfolded S] w(3)] obtain d' where
      s: "sender_ready es ?cs (Suc c) (q', u')" "is_msg ?cs (Suc c) d'" "tx (socket u') = tx (socket u) @ [d']"
      unfolding q by auto
    let ?N = "\<lparr>snd_cfg = (q', u'), rcv_cfg = (Wait q, s', out), fwd = [] @ [d'], bwd = []\<rparr>"
    have "net_ready es ?cs (Suc c) ?N" using s w(2) 2 by (simp add: net_ready_def)
    from ready_completes [OF len env this] receiver_then_sender [OF R S ch(1,3) w(1,4) q s(3)]
    show ?thesis by (meson rtranclp_trans)
  next
    case 3
    from sender_ready_close [OF sr 3] obtain sb g a t u where S: "snd_cfg N = (Wait (SClose sb g a t), u)" .
    have "q = RQuiet" using w(2) 3 by (cases q) auto
    with close_round [OF env(1) S sr R ch(1,3)] w show ?thesis by blast
  qed
qed

text \<open>One message under way, the first or one that the receiver waits for.\<close>

lemma awaited_completes:
  assumes len: "\<not> MAX_DATA_SIZE dvd length content" and env: "env_ok es" "env_ok er"
    and sr: "sender_ready es (read_chunks content) c (snd_cfg N)"
    and R: "rcv_cfg N = (Wait q, s, out)" and rr: "receiver_ready (read_chunks content) c (Wait q, s, out)"
    and ch: "fwd N = [d]" "is_msg (read_chunks content) c d" "bwd N = []"
    and c: "c \<noteq> 1" "c \<le> length (read_chunks content) + 2"
  shows "\<exists>N'. (fifo_step es er content)\<^sup>*\<^sup>* N N' \<and> sender_returned N' \<and> receiver_returned N'"
proof (cases "c = 0")
  case True
  let ?cs = "read_chunks content"
  obtain b u where S: "snd_cfg N = (Wait (SConnect b), u)" using sr unfolding True by (rule sender_ready_connect)
  obtain buf where q: "q = RConn buf" using rr True by (cases q) auto
  from receiver_gets_conn [OF env(2) rr [unfolded True q] ch(2) [unfolded True]] obtain s' w where
    "receiver_react er (RxDatagram d) (Wait (RConn buf), s, out) = (Wait (RAck3 buf), s', [])"
    "receiver_ready ?cs 1 (Wait (RAck3 buf), s', [])" "is_ack ?cs 0 w" "tx (socket s') = tx (socket s) @ [w]" by blast
  from request_round [OF env(1) S sr [unfolded True] R [unfolded q] ch(1,3) this]
  show ?thesis by (rule half_open_completes [OF len env])
next
  case False
  with sr rr ch c R have "net_ready es (read_chunks content) c N" by (simp add: net_ready_def)
  with len env show ?thesis by (rule ready_completes)
qed

lemma timeout_completes:
  assumes len: "\<not> MAX_DATA_SIZE dvd length content" and env: "env_ok es" "env_ok er"
    and sr: "sender_ready es (read_chunks content) c (snd_cfg N)"
    and rr: "receiver_ready (read_chunks content) r (rcv_cfg N)"
    and wait: "fst (snd_cfg N) = Wait p" and t: "timeout_length (socket (snd (snd_cfg N))) \<noteq> 0"
    and c: "c \<noteq> 1" "c \<le> length (read_chunks content) + 2" "r = c \<or> r = Suc c"
  shows "\<exists>N'. (fifo_step es er content)\<^sup>*\<^sup>* N N' \<and> sender_returned N' \<and> receiver_returned N'"
proof -
  from channels_renewed [OF env(1) sr wait t] obtain M d where
    M: "(fifo_step es er content)\<^sup>*\<^sup>* N M" "sender_ready es (read_chunks content) c (snd_cfg M)" "rcv_cfg M = rcv_cfg N"
    and ch: "fwd M = [d]" "is_msg (read_chunks content) c d" "bwd M = []" by blast
  obtain q s out where R: "rcv_cfg M = (Wait q, s, out)"
    using rr M(3) by (cases "(read_chunks content, r, rcv_cfg N)" rule: receiver_ready.cases) auto
  from rr M(3) R have rr': "receiver_ready (read_chunks content) r (Wait q, s, out)" by simp
  from c(3) have "\<exists>N'. (fifo_step es er content)\<^sup>*\<^sup>* M N' \<and> sender_returned N' \<and> receiver_returned N'"
  proof
    assume "r = c"
    with awaited_completes [OF len env M(2) R _ ch c(1,2)] rr' show ?thesis by simp
  next
    assume "r = Suc c"
    with repeated_completes [OF len env M(2) R _ ch c(1,2)] rr' show ?thesis by simp
  qed
  with M(1) show ?thesis by (meson rtranclp_trans)
qed

text \<open>The third message of the handshake is under way, alone or among others.\<close>

lemma ack3_arrives:
  assumes env: "env_ok er" and rr: "receiver_ready (read_chunks content) 1 (rcv_cfg N)"
    and I: "list_all2 (is_msg (read_chunks content)) I (fwd N)"
    and d: "d \<in> set (fwd N)" "frame_of d = Some (ack_frame 3)"
  shows "\<exists>R. (fifo_step es er content)\<^sup>*\<^sup>* N (N\<lparr>fwd := [], rcv_cfg := R\<rparr>) \<and> receiver_ready (read_chunks content) 2 R"
proof -
  let ?cs = "read_chunks content"
  from d(1) I obtain i where "is_msg ?cs i d"
    by (metis in_set_conv_nth list_all2_conv_all_nth)
  moreover from this d(2) have "msg ?cs i = ack_frame 3"
    by (auto simp: is_msg_def is_frame_def rx_frame_def split: if_splits)
  then have "i = 1" using msg_type(2) [of ?cs i] by (simp add: ack_frame_def)
  ultimately have m: "is_msg ?cs 1 d" by simp
  from d(1) obtain a b where f: "fwd N = [] @ a @ d # b" by (auto simp: in_set_conv_decomp)
  have "(fifo_step es er content)\<^sup>*\<^sup>* N (N\<lparr>fwd := [] @ d # b\<rparr>)"
    using f by (rule fwd_dropped)
  also have "(fifo_step es er content)\<^sup>*\<^sup>* (N\<lparr>fwd := [] @ d # b\<rparr>) (N\<lparr>fwd := [d]\<rparr>)"
    using fwd_dropped [of "N\<lparr>fwd := [] @ d # b\<rparr>" "[d]" b "[]"] by simp
  finally have run: "(fifo_step es er content)\<^sup>*\<^sup>* N (N\<lparr>fwd := [d]\<rparr>)" .
  obtain buf s out where R: "rcv_cfg N = (Wait (RAck3 buf), s, out)"
    using rr by (cases "(?cs, 1 :: nat, rcv_cfg N)" rule: receiver_ready.cases) auto
  from ack3_taken [OF env _ rr [unfolded R] _ m, of "N\<lparr>fwd := [d]\<rparr>" "[]" es] obtain R' where
    "fifo_step es er content (N\<lparr>fwd := [d]\<rparr>) (N\<lparr>fwd := [], rcv_cfg := R'\<rparr>)" "receiver_ready ?cs 2 R'"
    by (auto simp: R)
  with run show ?thesis by (meson rtranclp.rtrancl_into_rtrancl)
qed

lemma can_complete:
  assumes "\<not> MAX_DATA_SIZE dvd length content" and "env_ok es" and "env_ok er"
    and "(fifo_step es er content)\<^sup>*\<^sup>* (net_start es er mem) N"
    and "fst (snd_cfg N) = Wait p" and "fst (rcv_cfg N) = Wait q"
    and "timeout_length (socket (snd (snd_cfg N))) \<noteq> 0"
    and "(\<exists>buf. p = SConnect buf) \<or> (\<forall>buf. q \<noteq> RAck3 buf) \<or> (\<exists>d\<in>set (fwd N). frame_of d = Some (ack_frame 3))"
  shows "\<exists>N'. (fifo_step es er content)\<^sup>*\<^sup>* N N' \<and> sender_returned N' \<and> receiver_returned N'"
proof -
  let ?cs = "read_chunks content"
  obtain c r I where ready: "sender_ready es ?cs c (snd_cfg N)" "receiver_ready ?cs r (rcv_cfg N)"
    and I: "list_all2 (is_msg ?cs) I (fwd N)" and c: "c \<noteq> 1" "c \<le> r \<or> c = 2 \<and> r = 1" "r \<le> Suc c" "c \<le> length ?cs + 2"
    by (rule waiting_ready [OF assms(2-6)])
  note complete = timeout_completes [OF assms(1-3)]
  show ?thesis
  proof (cases "c = 2 \<and> r = 1")
    case False
    with c have "r = c \<or> r = Suc c" by auto
    from complete [OF ready assms(5,7) c(1,4) this] show ?thesis .
  next
    case True
    with ready have rr: "receiver_ready ?cs 1 (rcv_cfg N)" by simp
    then have "\<exists>buf. q = RAck3 buf"
      using assms(6) by (cases "(?cs, 1 :: nat, rcv_cfg N)" rule: receiver_ready.cases) auto
    moreover have "p \<noteq> SConnect buf" for buf
      using ready(1) True assms(5) by (cases "snd_cfg N") auto
    ultimately obtain d where d: "d \<in> set (fwd N)" "frame_of d = Some (ack_frame 3)" using assms(8) by blast
    from ack3_arrives [OF assms(3) rr I d] obtain R where
      R: "(fifo_step es er content)\<^sup>*\<^sup>* N (N\<lparr>fwd := [], rcv_cfg := R\<rparr>)" "receiver_ready ?cs 2 R" by blast
    have "\<exists>N'. (fifo_step es er content)\<^sup>*\<^sup>* (N\<lparr>fwd := [], rcv_cfg := R\<rparr>) N' \<and> sender_returned N' \<and> receiver_returned N'"
      by (rule complete [where c = 2 and r = 2]) (use ready R(2) assms(5,7) True in simp_all)
    with R(1) show ?thesis by (meson rtranclp_trans)
  qed
qed

lemma third_message_needed:
  assumes run: "(fifo_step es er content)\<^sup>*\<^sup>* (net_start es er mem) N"
    and wait: "fst (snd_cfg N) = Wait p" "fst (rcv_cfg N) = Wait (RAck3 buf)"
    and p: "\<nexists>buf. p = SConnect buf" and lost: "\<forall>d\<in>set (fwd N). frame_of d \<noteq> Some (ack_frame 3)"
    and N': "(fifo_step es er content)\<^sup>*\<^sup>* N N'"
  shows "\<not> sender_returned N'"
proof -
  let ?cs = "read_chunks content"
  obtain c r I J where at: "sender_at ?cs c (snd_cfg N)" "receiver_at ?cs r (rcv_cfg N)"
    and inv: "in_step (length ?cs) c r I J"
    by (rule reachable [OF run])
  from at(2) wait(2) have "r = 1" by (cases "rcv_cfg N") auto
  with inv have "c \<le> 2" by (auto simp: in_step_def)
  moreover have "1 \<le> length ?cs" using read_chunks_ne [of content] by (cases ?cs) simp_all
  ultimately have "c < length ?cs + 2" by simp
  with at(1) wait(1) p obtain sb g a t rest where "fst (snd_cfg N) = Wait (SData sb g a t rest)"
    by (cases "(?cs, c, snd_cfg N)" rule: sender_at.cases) auto
  from stuck_forever [OF run this wait(2) lost N'] show ?thesis by simp
qed

text \<open>C2: For a file whose length is not a multiple of the block size, over channels that keep the
  order of the datagrams and on hosts where no system call fails: whatever the channels have lost, repeated
  or delayed so far, if both programs still wait and the sender's timeout has not become 0, they can complete the
  transfer, with the file arrived, if and only if the third message of the handshake, where the receiver still
  needs it, is under way or not yet sent.\<close>

theorem losses_recovered:
  assumes "\<not> MAX_DATA_SIZE dvd length content" and "env_ok es" and "env_ok er"
    and "(fifo_step es er content)\<^sup>*\<^sup>* (net_start es er mem) N"
    and "fst (snd_cfg N) = Wait p" and "fst (rcv_cfg N) = Wait q"
    and "timeout_length (socket (snd (snd_cfg N))) \<noteq> 0"
  shows "(\<exists>N'. (fifo_step es er content)\<^sup>*\<^sup>* N N' \<and> sender_returned N' \<and> receiver_returned N' \<and> received_file N' = content)
    \<longleftrightarrow> (\<exists>buf. p = SConnect buf) \<or> (\<forall>buf. q \<noteq> RAck3 buf) \<or> (\<exists>d\<in>set (fwd N). frame_of d = Some (ack_frame 3))"
    (is "?completes \<longleftrightarrow> ?condition")
proof
  assume ?completes
  with third_message_needed [OF assms(4,5)] assms(6) show ?condition by blast
next
  assume ?condition
  from can_complete [OF assms this] obtain N' where
    N': "(fifo_step es er content)\<^sup>*\<^sup>* N N'" "sender_returned N'" "receiver_returned N'" by blast
  with returned_delivered [OF rtranclp_trans [OF assms(4) N'(1)]] show ?completes by blast
qed

text \<open>The very first datagram is lost.\<close>

theorem losses_recovered_witness:
  "\<exists>N'. (fifo_step quiet_env quiet_env [1, 2, 3])\<^sup>*\<^sup>* ((net_start quiet_env quiet_env (\<lambda>_. 0))\<lparr>fwd := []\<rparr>) N'
    \<and> sender_returned N' \<and> receiver_returned N' \<and> received_file N' = [1, 2, 3]"
proof -
  let ?buf = "map (\<lambda>_. 0 :: u8) [0..<MAX_DATA_SIZE]" and ?N = "net_start quiet_env quiet_env (\<lambda>_. 0)"
  let ?step = "fifo_step quiet_env quiet_env [1, 2, 3]"
  from sender_start_ready [OF env_ok_quiet_env, of "[]"] obtain b u where
    S: "sender_start quiet_env = (Wait (SConnect b), u)" "timeout_length (socket u) = 240" by blast
  from receiver_start_ready [OF env_ok_quiet_env, of ?buf "[]"] obtain s where
    R: "receiver_start quiet_env ?buf = (Wait (RConn ?buf), s, [])" by auto
  have wait: "fst (snd_cfg (?N\<lparr>fwd := []\<rparr>)) = Wait (SConnect b)" "fst (rcv_cfg (?N\<lparr>fwd := []\<rparr>)) = Wait (RConn ?buf)"
    "timeout_length (socket (snd (snd_cfg (?N\<lparr>fwd := []\<rparr>)))) \<noteq> 0"
    using S R by (simp_all add: net_start_def Let_def)
  have lost: "?step\<^sup>*\<^sup>* ?N (?N\<lparr>fwd := []\<rparr>)"
    using fwd_dropped [of ?N "[]" "fwd ?N" "[]"] by simp
  from losses_recovered [OF short_file env_ok_quiet_env env_ok_quiet_env lost wait] show ?thesis by simp
qed

end
