(* ===== verification/Rdt_Reorder.thy ===== *)
theory Rdt_Reorder
  imports Rdt_Progress
begin

text \<open>
  Channels that may also change the order of datagrams, as UDP may. The sequence numbers of two values do
  not tell a late copy of a block from the block after the next one, so the guarantees of
  \<open>Rdt_Network\<close>, which are for channels that keep the order, are lost.
\<close>

inductive udp_step :: "os_env \<Rightarrow> os_env \<Rightarrow> bytes \<Rightarrow> net \<Rightarrow> net \<Rightarrow> bool" for es er content where
  in_order: "fifo_step es er content N N' \<Longrightarrow> udp_step es er content N N'"
| fwd_overtakes: "fwd N = a @ d # e # b \<Longrightarrow> udp_step es er content N (N\<lparr>fwd := a @ e # d # b\<rparr>)"
| bwd_overtakes: "bwd N = a @ d # e # b \<Longrightarrow> udp_step es er content N (N\<lparr>bwd := a @ e # d # b\<rparr>)"

lemma fifo_steps_udp: "(fifo_step es er content)\<^sup>*\<^sup>* N N' \<Longrightarrow> (udp_step es er content)\<^sup>*\<^sup>* N N'"
  by (rule mono_rtranclp [rule_format]) (rule udp_step.in_order)

section \<open>A late copy of a block\<close>

lemma read_two_blocks:
  assumes "length A = MAX_DATA_SIZE" and "length B = MAX_DATA_SIZE"
  shows "read_chunks (A @ B) = [A, B, []]"
proof -
  have last: "read_chunks [] = [[]]" by (subst read_chunks.simps) (simp add: max_sizes)
  have "read_chunks B = [B, []]"
    using assms(2) last by (subst read_chunks.simps) (simp add: max_sizes)
  with assms show ?thesis
    by (subst read_chunks.simps) (simp add: max_sizes)
qed

text \<open>The receiver's place in one list of blocks is its place in another that agrees so far.\<close>

lemma receiver_ready_start:
  assumes "receiver_ready cs 2 R" and "length cs' = length cs"
  shows "receiver_ready cs' 2 R"
proof -
  from assms(1) obtain a buf s out where "R = (Wait (RData a buf), s, out)"
    by (cases "(cs, 2 :: nat, R)" rule: receiver_ready.cases) auto
  with assms show ?thesis by (simp add: written_def)
qed

text \<open>
  The second block overtakes a copy of the first, which then comes where the receiver waits for the
  third, empty one: up to there, for the receiver the blocks are \<open>A\<close>, \<open>B\<close> and \<open>A\<close>.
\<close>

lemma late_copy_run:
  assumes env: "env_ok es" "env_ok er" and len: "length A = MAX_DATA_SIZE" "length B = MAX_DATA_SIZE"
  shows "\<exists>N d e. (udp_step es er (A @ B))\<^sup>*\<^sup>* (net_start es er mem) N \<and> sender_ready es [A, B, []] 4 (snd_cfg N)
    \<and> receiver_ready [A, B, A] 4 (rcv_cfg N) \<and> fwd N = [d, e] \<and> is_msg [A, B, A] 4 d \<and> bwd N = []"
proof -
  let ?udp = "udp_step es er (A @ B)"
  note cs = read_two_blocks [OF len]
  have ok: "blocks_ok [A, B, A]" and ne: "A \<noteq> []" "B \<noteq> []" using len by (auto simp: blocks_ok_def max_sizes)
  from handshake_run [OF env, of "A @ B" mem] obtain N where
    N: "?udp\<^sup>*\<^sup>* (net_start es er mem) N" "net_ready es [A, B, []] 2 N"
    unfolding cs by (blast dest: fifo_steps_udp)
  then obtain d where d: "fwd N = [] @ d # []" "is_msg [A, B, []] 2 d" by (auto simp: net_ready_def)
  let ?N = "N\<lparr>fwd := [] @ d # d # []\<rparr>"
  have copied: "?udp N ?N" by (intro udp_step.in_order fifo_step.fwd_repeated d(1))
  have dA: "is_msg [A, B, A] 2 d" "is_msg [A, B, A] 4 d"
    using d(2) by (simp_all add: is_msg_def msg_def parity_def)
  have ready: "sender_ready es [A, B, []] 2 (snd_cfg ?N)" "receiver_ready [A, B, A] 2 (rcv_cfg ?N)"
    "fwd ?N = d # [d]" "bwd ?N = []"
    using N(2) receiver_ready_start [of "[A, B, []]" _ "[A, B, A]"] by (simp_all add: net_ready_def)
  from data_round [OF env, of "[A, B, A]" "A @ B", unfolded cs, OF ok _ ready dA(1)] ne obtain N1 dB where
    N1: "?udp\<^sup>*\<^sup>* ?N N1" "sender_ready es [A, B, []] 3 (snd_cfg N1)" "receiver_ready [A, B, A] 3 (rcv_cfg N1)"
      "fwd N1 = [] @ d # dB # []" "is_msg [A, B, []] 3 dB" "bwd N1 = []"
    by (auto dest: fifo_steps_udp simp: eval_nat_numeral)
  let ?N1 = "N1\<lparr>fwd := [] @ dB # d # []\<rparr>"
  have overtaken: "?udp N1 ?N1" by (rule udp_step.fwd_overtakes [OF N1(4)])
  have dB: "is_msg [A, B, A] 3 dB" using N1(5) by (simp add: is_msg_def msg_def)
  have ready1: "sender_ready es [A, B, []] 3 (snd_cfg ?N1)" "receiver_ready [A, B, A] 3 (rcv_cfg ?N1)"
    "fwd ?N1 = dB # [d]" "bwd ?N1 = []" using N1 by simp_all
  from data_round [OF env, of "[A, B, A]" "A @ B", unfolded cs, OF ok _ ready1 dB] ne obtain N2 e where
    "?udp\<^sup>*\<^sup>* ?N1 N2" "sender_ready es [A, B, []] 4 (snd_cfg N2)" "receiver_ready [A, B, A] 4 (rcv_cfg N2)"
      "fwd N2 = [d, e]" "bwd N2 = []"
    by (auto dest: fifo_steps_udp simp: eval_nat_numeral)
  moreover from this(1) N(1) copied N1(1) overtaken have "?udp\<^sup>*\<^sup>* (net_start es er mem) N2"
    by (meson rtranclp.rtrancl_into_rtrancl rtranclp_trans)
  ultimately show ?thesis using dA(2) by blast
qed

text \<open>C7: Without the order of the datagrams the guarantees fail. For every file of two full blocks \<open>A\<close> and
  \<open>B\<close> there is a run in which one copy of a datagram is overtaken by the next message, no system call fails,
  both programs end normally, and the receiver has written \<open>A\<close>, \<open>B\<close> and \<open>A\<close> again.\<close>

theorem reordering_corrupts:
  assumes "env_ok es" and "env_ok er" and "length A = MAX_DATA_SIZE" and "length B = MAX_DATA_SIZE"
  shows "\<exists>N. (udp_step es er (A @ B))\<^sup>*\<^sup>* (net_start es er mem) N \<and> sender_returned N \<and> receiver_returned N
    \<and> received_file N = A @ B @ A"
proof -
  let ?udp = "udp_step es er (A @ B)"
  note cs = read_two_blocks [OF assms(3,4)]
  have ok: "blocks_ok [A, B, A]" and ne: "A \<noteq> []" using assms(3,4) by (auto simp: blocks_ok_def max_sizes)
  obtain N d e where N: "?udp\<^sup>*\<^sup>* (net_start es er mem) N"
    and ready: "sender_ready es [A, B, []] 4 (snd_cfg N)" "receiver_ready [A, B, A] 4 (rcv_cfg N)" "fwd N = d # [e]" "bwd N = []"
      "is_msg [A, B, A] 4 d"
    using late_copy_run [OF assms] by blast
  from data_round [OF assms(1,2), of "[A, B, A]" "A @ B", unfolded cs, OF ok _ ready] ne obtain N1 f where
    N1: "?udp\<^sup>*\<^sup>* N N1" "sender_ready es [A, B, []] 5 (snd_cfg N1)" "receiver_ready [A, B, A] 5 (rcv_cfg N1)"
      "fwd N1 = [] @ e # [f]" "is_msg [A, B, []] 5 f" "bwd N1 = []"
    by (auto dest: fifo_steps_udp simp: eval_nat_numeral)
  let ?N1 = "N1\<lparr>fwd := [] @ [f]\<rparr>"
  have lost: "?udp N1 ?N1" by (intro udp_step.in_order fifo_step.fwd_lost [OF N1(4)])
  have five: "(5 :: nat) = length [A, B, []] + 2" "2 \<le> (5 :: nat)" "5 \<le> length [A, B, A] + 2" by simp_all
  from sender_ready_close [OF N1(2) five(1)] obtain sb g a t u where "snd_cfg N1 = (Wait (SClose sb g a t), u)" .
  then have S: "snd_cfg ?N1 = (Wait (SClose sb g a t), u)" by simp
  from receiver_ready_data [OF N1(3) five(2,3)] obtain ra buf s out where "rcv_cfg N1 = (Wait (RData ra buf), s, out)" .
  then have R: "rcv_cfg ?N1 = (Wait (RData ra buf), s, out)" by simp
  have rr: "receiver_ready [A, B, A] 5 (Wait (RData ra buf), s, out)" using N1(3) R by simp
  have f: "is_msg [A, B, A] 5 f" using N1(5) by (simp add: is_msg_def msg_def)
  from receiver_gets_close [OF assms(2) rr f] obtain s' w where
    r: "receiver_react er (RxDatagram f) (Wait (RData ra buf), s, out) = (Wait RQuiet, s', out)"
    "receiver_ready [A, B, A] (Suc 5) (Wait RQuiet, s', out)" "is_ack [A, B, A] 5 w" "tx (socket s') = tx (socket s) @ [w]"
    by auto
  have w: "is_ack [A, B, []] 5 w" using r(3) by (simp add: is_ack_def ackno_def)
  have sr: "sender_ready es (read_chunks (A @ B)) 5 (snd_cfg ?N1)" using N1(2) by (simp add: cs)
  have "out = A @ B @ A" using rr by (simp add: written_def)
  moreover have "fwd ?N1 = [f]" and "bwd ?N1 = []" using N1(6) by simp_all
  from close_round [OF assms(1) S sr R this r(1,2) w [folded cs] r(4)] obtain N2 where
    N2: "(fifo_step es er (A @ B))\<^sup>*\<^sup>* ?N1 N2" "sender_returned N2" "receiver_returned N2" "received_file N2 = out" by blast
  moreover from fifo_steps_udp [OF N2(1)] N N1(1) lost have "?udp\<^sup>*\<^sup>* (net_start es er mem) N2"
    by (meson rtranclp.rtrancl_into_rtrancl rtranclp_trans)
  ultimately show ?thesis by (intro exI [of _ N2]) simp
qed

theorem reordering_corrupts_witness:
  "\<exists>N. (udp_step quiet_env quiet_env (replicate MAX_DATA_SIZE 1 @ replicate MAX_DATA_SIZE 2))\<^sup>*\<^sup>*
      (net_start quiet_env quiet_env (\<lambda>_. 0)) N
    \<and> sender_returned N \<and> receiver_returned N
    \<and> received_file N \<noteq> replicate MAX_DATA_SIZE 1 @ replicate MAX_DATA_SIZE 2"
proof -
  let ?A = "replicate MAX_DATA_SIZE (1 :: u8)" and ?B = "replicate MAX_DATA_SIZE (2 :: u8)"
  have "?A @ ?B @ ?A \<noteq> ?A @ ?B" by (simp add: max_sizes)
  with reordering_corrupts [OF env_ok_quiet_env env_ok_quiet_env, of ?A ?B "\<lambda>_. 0"] show ?thesis by fastforce
qed

end
