(* ===== verification/Rdt_Data.thy ===== *)
theory Rdt_Data
  imports Rdt_Progress
begin

text \<open>
  The contracts of \<open>send_data\<close> and \<open>receive_data\<close>: what a call that returns has taken from the
  network and put on it, and how it has moved the state of the socket. They hold for every system
  and every sequence of results of \<open>recv\<close>; the last section shows that calls do return.
\<close>

section \<open>How a receive loop ends\<close>

text \<open>
  A loop that returns ends with an iteration that reads the last result used; what the iterations
  that go on keep holds before it.
\<close>

lemma recv_loop_exit:
  assumes "recv_loop env pre body evs s = (Ret x, (evs', s'))" and "P s"
    and step: "\<And>s t s1 e r s2 s3. pre s = (Ret t, s1) \<Longrightarrow> receive env e s1 = (r, s2)
      \<Longrightarrow> body t r s2 = (Ret None, s3) \<Longrightarrow> P s \<Longrightarrow> P s3"
  obtains used e s0 t s1 r s2 where "evs = used @ e # evs'" "P s0" "pre s0 = (Ret t, s1)"
    "receive env e s1 = (r, s2)" "body t r s2 = (Ret (Some x), s')"
  using assms(1,2)
proof (induction evs arbitrary: s thesis)
  case Nil
  then show ?case by (auto split: prod.splits outcome.splits elim: pass.elims)
next
  case (Cons e evs)
  obtain q1 s1 where p: "pre s = (q1, s1)" by fastforce
  with Cons.prems(2) obtain t where t: "q1 = Ret t" by (cases q1) auto
  obtain r s2 where r: "receive env e s1 = (r, s2)" by fastforce
  obtain q3 s3 where b: "body t r s2 = (q3, s3)" by fastforce
  from Cons.prems(2) p t r b obtain y where y: "q3 = Ret y" by (cases q3) auto
  show ?case
  proof (cases y)
    case None
    with Cons.prems(2) p t r b y have loop: "recv_loop env pre body evs s3 = (Ret x, (evs', s'))" by simp
    have "P s3" using step [OF p [unfolded t] r] b y None Cons.prems(3) by simp
    with Cons.IH loop show ?thesis
      using Cons.prems(1) [of "e # _"] by (metis append_Cons)
  next
    case (Some z)
    with Cons.prems(2) p t r b y have "z = x" "evs = evs'" "s3 = s'" by simp_all
    with Some Cons.prems p t r b y show ?thesis by (metis append_Nil)
  qed
qed

section \<open>Sending one block\<close>

definition sent_copies :: "connection_status \<Rightarrow> u8 \<Rightarrow> bytes list \<Rightarrow> bytes \<Rightarrow> ReliableSocket \<Rightarrow> bool" where
  "sent_copies st q prior buf s \<longleftrightarrow> state s = st \<and> sequence_number s = q
     \<and> (\<exists>n. tx (socket s) = prior @ replicate n buf)"

lemma sent_copies_quiet: "quiet_step s s' \<Longrightarrow> sent_copies st q prior buf s \<Longrightarrow> sent_copies st q prior buf s'"
  by (simp add: sent_copies_def quiet_step_def)

lemma resend_result:
  assumes "resend env b s = (q, s')"
  shows "state s' = state s" "sequence_number s' = sequence_number s"
    "tx (socket s') = tx (socket s) \<or> tx (socket s') = tx (socket s) @ [b]"
    "q = Ret t \<Longrightarrow> seg_buf s' = replicate MAX_SEG_SIZE 0"
  using assms
  by (auto simp: resend_def bind_io_split then_io_split read_clock_def fill_zero_def io_simps split: if_splits)

lemma sent_copies_resend:
  assumes "resend env b s = (q, s')" and "sent_copies st n prior b s"
  shows "sent_copies st n prior b s'"
proof -
  from assms(2) obtain k where "tx (socket s) = prior @ replicate k b" by (auto simp: sent_copies_def)
  moreover have "replicate k b @ [b] = replicate (Suc k) b" by (simp add: replicate_append_same)
  ultimately have "\<exists>k. tx (socket s') = prior @ replicate k b"
    using resend_result(3) [OF assms(1)] by (metis append.assoc)
  with assms(2) resend_result(1,2) [OF assms(1)] show ?thesis by (simp add: sent_copies_def)
qed

lemma await_ack_acked:
  assumes "await_ack env g a t r s = (Ret (Some x), s')"
  shows "(\<exists>n. r = Ret n) \<and> (\<exists>h. RDTSegment_parse (seg_buf s) = Some h \<and> get_type h = RDT_ACK \<and> get_ack_number h = a)"
proof -
  from assms obtain n where r: "r = Ret n"
    by (cases r) (auto simp: await_ack_def io_simps split: sock_exn.splits)
  show ?thesis
  proof (cases "RDTSegment_parse (seg_buf s)")
    case None
    then have "parse_received (s\<lparr>clock_reads := Suc (clock_reads s)\<rparr>) = (Undefined, s\<lparr>clock_reads := Suc (clock_reads s)\<rparr>)"
      by (simp add: parse_received_def io_simps)
    with assms show ?thesis
      by (auto simp: r await_ack_def bind_io_split then_io_split read_clock_def io_simps
          split: outcome.splits prod.splits dest!: of_option_state)
  next
    case (Some h)
    then have "parse_received (s\<lparr>clock_reads := Suc (clock_reads s)\<rparr>) = (Ret h, s\<lparr>clock_reads := Suc (clock_reads s)\<rparr>)"
      by (simp add: parse_received_def io_simps)
    with assms have "get_type h = RDT_ACK \<and> get_ack_number h = a"
      by (auto simp: r await_ack_def bind_io_split then_io_split read_clock_def io_simps
          split: outcome.splits prod.splits if_splits dest!: of_option_state)
    with Some r show ?thesis by simp
  qed
qed

lemma receive_datagram:
  assumes "receive env e s = (Ret n, s')"
  shows "\<exists>d. e = RxDatagram d \<and> seg_buf s' = overlay (take MAX_SEG_SIZE d) (seg_buf s)"
  using assms by (cases e) (auto simp: receive_def Let_def split: if_splits)

text \<open>What arrives in a receive buffer that was zero before.\<close>

definition parses_as_ack :: "bytes \<Rightarrow> u8 \<Rightarrow> bool" where
  "parses_as_ack d a \<longleftrightarrow> (\<exists>h. RDTSegment_parse (overlay (take MAX_SEG_SIZE d) (replicate MAX_SEG_SIZE 0)) = Some h
     \<and> get_type h = RDT_ACK \<and> get_ack_number h = a)"

lemma acked_loop:
  assumes "recv_loop env (resend env buf) (await_ack env g a) evs s = (Ret x, (evs', s'))"
  shows "(\<exists>used d. evs = used @ RxDatagram d # evs' \<and> parses_as_ack d a)
    \<and> sent_copies (state s) (sequence_number s) (tx (socket s)) buf s'"
proof
  let ?P = "sent_copies (state s) (sequence_number s) (tx (socket s)) buf"
  have start: "?P s" by (auto simp: sent_copies_def intro: exI [of _ 0])
  have step: "?P s3" if "resend env buf s = (Ret t, s1)" "receive env e s1 = (r, s2)"
    "await_ack env g a t r s2 = (Ret None, s3)" "?P s" for s t s1 e r s2 s3
    using that sent_copies_resend sent_copies_quiet quietD [OF quiet_receive] quietD [OF quiet_await_ack] by metis
  obtain used e s0 t s1 r s2 where
    exit: "evs = used @ e # evs'" "?P s0" "resend env buf s0 = (Ret t, s1)" "receive env e s1 = (r, s2)"
      "await_ack env g a t r s2 = (Ret (Some x), s')"
    by (rule recv_loop_exit [where P = ?P, OF assms start]; (erule (3) step)?)
  from await_ack_acked [OF exit(5)] obtain n h where r: "r = Ret n"
    and h: "RDTSegment_parse (seg_buf s2) = Some h" "get_type h = RDT_ACK" "get_ack_number h = a" by blast
  from receive_datagram [OF exit(4) [unfolded r]] obtain d where
    d: "e = RxDatagram d" "seg_buf s2 = overlay (take MAX_SEG_SIZE d) (seg_buf s1)" by blast
  have "seg_buf s1 = replicate MAX_SEG_SIZE 0" using resend_result(4) [OF exit(3)] by simp
  with h d have "parses_as_ack d a" by (auto simp: parses_as_ack_def)
  with exit(1) d(1) show "\<exists>used d. evs = used @ RxDatagram d # evs' \<and> parses_as_ack d a" by blast
  have "?P s2"
    using sent_copies_resend [OF exit(3,2)] by (rule sent_copies_quiet [OF quietD [OF quiet_receive exit(4)]])
  then show "?P s'" by (rule sent_copies_quiet [OF quietD [OF quiet_await_ack exit(5)]])
qed

text \<open>C13: When \<open>send_data\<close> returns, it has sent copies of one segment with the block and the current
  sequence number and nothing else, the last datagram it took was an acknowledgement of that
  number, the sequence number has changed, and the socket is ready for the next block.\<close>

theorem send_data_contract:
  assumes "state s = WAIT_SEND" and "length data \<le> MAX_DATA_SIZE"
    and "send_data env data (evs, s) = (Ret (), (evs', s'))"
  shows "state s' = WAIT_SEND \<and> sequence_number s' = 1 - sequence_number s
    \<and> (\<exists>n. tx (socket s') = tx (socket s) @ replicate n (wire (padding env s)
        \<lparr>fr_type = RDT_DATA, fr_seq = sequence_number s, fr_ack = 0, fr_payload = data\<rparr>))
    \<and> (\<exists>used d. evs = used @ RxDatagram d # evs' \<and> parses_as_ack d (sequence_number s))"
proof -
  let ?s = "s\<lparr>state := wait_ack_state s\<rparr>" and ?g = "data_segment env s data"
  let ?buf = "wire (padding env s) \<lparr>fr_type = RDT_DATA, fr_seq = sequence_number s, fr_ack = 0, fr_payload = data\<rparr>"
  have len: "length data \<le> 65529" using assms(2) by (simp add: MAX_DATA_SIZE_def MAX_SEG_SIZE_def sizeof_RDTHeader_def)
  have copy: "copy_to ?g (seg_buffer ?g) = Some ?buf"
    using copy_to_data [OF len] by (simp add: data_segment_def)
  have ack: "expected_ack ?g = Some (sequence_number s)"
    by (simp add: expected_ack_def data_segment_def segment_defs)
  from assms(1,3) have "then_io (send_until_acked env ?g) (on_rs send_finish) (evs, ?s) = (Ret (), (evs', s'))"
    by (simp add: send_data_def then_io_split on_rs_apply set_state_def io_simps)
  then obtain s1 where sent: "send_until_acked env ?g (evs, ?s) = (Ret (), (evs', s1))"
    and s': "s' = s1\<lparr>sequence_number := 1 - sequence_number s1, state := WAIT_SEND\<rparr>"
    by (auto simp: then_io_split on_rs_apply send_finish_def io_simps split: prod.splits outcome.splits)
  have log: "log_segment ?g ?s = (Ret (), ?s) \<or> log_segment ?g ?s = (Exit_Failure, ?s)"
    by (metis log_segment_cases)
  with sent have "recv_loop env (resend env ?buf) (await_ack env ?g (sequence_number s)) evs ?s = (Ret (), (evs', s1))"
    by (auto simp: send_until_acked_def then_io_split bind_io_split on_rs_apply copy ack io_simps loop_apply)
  from acked_loop [OF this] show ?thesis
    by (auto simp: sent_copies_def s')
qed

section \<open>Receiving one block\<close>

text \<open>The messages in a list of datagrams, and what a receiver has sent that goes on waiting.\<close>

abbreviation frames :: "bytes list \<Rightarrow> frame option list" where
  "frames ds \<equiv> map frame_of ds"

definition only_acked :: "ReliableSocket \<Rightarrow> u8 \<Rightarrow> ReliableSocket \<Rightarrow> bool" where
  "only_acked s n s' \<longleftrightarrow> state s' = state s \<and> sequence_number s' = sequence_number s
     \<and> (\<exists>k. frames (tx (socket s')) = frames (tx (socket s)) @ replicate k (Some (ack_frame n)))"

lemma receive_connected:
  "receive env e s = (Ret n, s') \<Longrightarrow> connected (socket s') \<and> state s' = state s \<and> sequence_number s' = sequence_number s
     \<and> tx (socket s') = tx (socket s)"
  by (cases e) (auto simp: receive_def Let_def split: if_splits)

lemma frame_of_ack: "frame_of (wire pad (ack_frame n)) = Some (ack_frame n)"
  using frame_of_wire [of "ack_frame n" pad "[]"] by (simp add: frame_ok_def ack_frame_def)

lemma send_ack_sent:
  assumes "send_ack env n s = (Ret x, s')" and "connected (socket s)"
  shows "state s' = state s \<and> sequence_number s' = sequence_number s
    \<and> frames (tx (socket s')) = frames (tx (socket s)) @ [Some (ack_frame n)]"
  using assms by (auto simp: send_ack_eq frame_of_ack split: if_splits)

lemma await_data_cases:
  assumes "await_data env e buf u r s = (Ret y, s')"
  obtains (block) n g where "r = Ret n" "RDTSegment_parse (seg_buf s) = Some g" "get_type g = RDT_DATA"
      "get_sequence_number g = e" "\<exists>x s1 b. send_ack env e s = (Ret x, s1) \<and> flip_data_state s1 = (Ret (), s')
         \<and> copy_payload_to g buf = Some b \<and> y = Some (get_payload_size g, b)"
  | (again) n where "r = Ret n" "\<exists>x. send_ack env (1 - e) s = (Ret x, s')" "y = None"
  | (closing) n g where "r = Ret n" "RDTSegment_parse (seg_buf s) = Some g" "get_type g = RDT_CLOSE"
      "\<exists>x s1. send_ack env 4 s = (Ret x, s1) \<and> s' = s1\<lparr>state := CLOSING\<rparr>" "y = Some (0, buf)"
  | (other) n where "r = Ret n" "s' = s" "y = None"
proof -
  from assms obtain n where r: "r = Ret n"
    by (cases r) (auto simp: await_data_def io_simps split: sock_exn.splits)
  from assms obtain g where g: "RDTSegment_parse (seg_buf s) = Some g"
    by (cases "RDTSegment_parse (seg_buf s)") (auto simp: r await_data_def parse_received_def io_simps bind_io_split)
  then have parse: "parse_received s = (Ret g, s)" by (simp add: parse_received_def io_simps)
  from assms have log: "log_segment g s = (Ret (), s)"
    by (cases rule: log_segment_cases [of g s]) (simp_all add: r await_data_def bind_io_split then_io_split parse)
  obtain q1 s1 where ack: "send_ack env e s = (q1, s1)" by fastforce
  obtain q2 s2 where again2: "send_ack env (1 - e) s = (q2, s2)" by fastforce
  obtain q4 s4 where close: "send_ack env 4 s = (q4, s4)" by fastforce
  note unfold = r await_data_def bind_io_split then_io_split parse log ret_def halt_def set_state_def upd_def
  show thesis
  proof (cases "get_type g = RDT_DATA")
    case True
    show thesis
    proof (cases "get_sequence_number g = e")
      case seq: True
      from assms True seq ack obtain x where x: "q1 = Ret x" by (cases q1) (simp_all add: unfold)
      obtain s5 where flip: "flip_data_state s1 = (Ret (), s5)" by (simp add: flip_data_state_def upd_def)
      with assms True seq ack x obtain b where b: "copy_payload_to g buf = Some b"
        by (cases "copy_payload_to g buf") (simp_all add: unfold of_option_def)
      with assms True seq ack x flip have "y = Some (get_payload_size g, b)" "s' = s5"
        by (simp_all add: unfold of_option_def)
      with ack x flip b show thesis by (intro block [OF r g True seq]) simp
    next
      case False
      with assms True again2 obtain x where x: "q2 = Ret x" by (cases q2) (simp_all add: unfold)
      with assms True False again2 have "y = None" "s' = s2" by (simp_all add: unfold)
      with again2 x show thesis by (intro again [OF r]) simp_all
    qed
  next
    case False
    show thesis
    proof (cases "get_type g = RDT_CLOSE")
      case ty: True
      with assms False close obtain x where x: "q4 = Ret x" by (cases q4) (simp_all add: unfold)
      with assms ty False close have "y = Some (0, buf)" "s' = s4\<lparr>state := CLOSING\<rparr>" by (simp_all add: unfold)
      with close x show thesis by (intro closing [OF r g ty]) simp_all
    next
      case ty: False
      with assms False have "y = None" "s' = s" by (simp_all add: unfold)
      then show thesis by (intro other [OF r]) simp_all
    qed
  qed
qed

lemma only_acked_step:
  assumes "ret () s = (Ret t, s1)" and "receive env e s1 = (r, s2)"
    and "await_data env a buf t r s2 = (Ret None, s3)" and "only_acked s0 (1 - a) s"
  shows "only_acked s0 (1 - a) s3"
proof -
  have s1: "s1 = s" using assms(1) by (simp add: ret_def)
  from assms(4) obtain k where at: "state s = state s0" "sequence_number s = sequence_number s0"
    "frames (tx (socket s)) = frames (tx (socket s0)) @ replicate k (Some (ack_frame (1 - a)))"
    by (auto simp: only_acked_def)
  from assms(3) show ?thesis
  proof (cases rule: await_data_cases)
    case (again n)
    with assms(2) have c: "connected (socket s2) \<and> state s2 = state s \<and> sequence_number s2 = sequence_number s
        \<and> tx (socket s2) = tx (socket s)" by (simp add: s1 receive_connected)
    from again(2) obtain x where "send_ack env (1 - a) s2 = (Ret x, s3)" ..
    with send_ack_sent c at have "state s3 = state s0" "sequence_number s3 = sequence_number s0"
      "frames (tx (socket s3)) = frames (tx (socket s0)) @ replicate (Suc k) (Some (ack_frame (1 - a)))"
      by (simp_all add: replicate_append_same)
    then show ?thesis unfolding only_acked_def by blast
  next
    case (other n)
    with assms(2) receive_connected have "state s3 = state s \<and> sequence_number s3 = sequence_number s
        \<and> tx (socket s3) = tx (socket s)" by (metis s1)
    with assms(4) show ?thesis by (simp add: only_acked_def)
  qed auto
qed

lemma receive_data_loop:
  assumes "state s = WAIT_DATA0 \<or> state s = WAIT_DATA1"
    and "receive_data env buffer (evs, s) = (Ret x, (evs', s'))"
  shows "\<exists>s0. recv_loop env (ret ()) (await_data env (expected_seq s) buffer) evs s0 = (Ret x, (evs', s'))
    \<and> state s0 = state s \<and> tx (socket s0) = tx (socket s)"
proof -
  obtain q s0 where start: "receive_start env s = (q, s0)" by fastforce
  with assms obtain u where "q = Ret u"
    by (cases q) (auto simp: receive_data_def then_io_split on_rs_apply)
  with assms start have "recv_loop env (ret ()) (await_data env (expected_seq s) buffer) evs s0 = (Ret x, (evs', s'))"
    by (auto simp: receive_data_def then_io_split on_rs_apply loop_apply)
  moreover have "state s0 = state s" "tx (socket s0) = tx (socket s)"
    using start by (auto simp: receive_start_def then_io_split fill_zero_def set_timeout_def on_socket_def
        set_timeout_length_def io_simps split: if_splits prod.splits outcome.splits)
  ultimately show ?thesis by blast
qed

text \<open>C14: When \<open>receive_data\<close> returns, the last datagram it took is either the block with the
  expected number, whose payload it has copied into the buffer, whose length it returns and for
  which it has turned to the other number, or a close, for which it returns 0 with the buffer as it was
  and leaves the data states. Before that it has only repeated the acknowledgement of the other number,
  and it has acknowledged the last datagram once.\<close>

theorem receive_data_contract:
  assumes "state s = WAIT_DATA0 \<or> state s = WAIT_DATA1"
    and "receive_data env buffer (evs, s) = (Ret (n, b), (evs', s'))"
  shows "\<exists>used d rest g k. evs = used @ RxDatagram d # evs' \<and> RDTSegment_parse (overlay (take MAX_SEG_SIZE d) rest) = Some g
    \<and> (get_type g = RDT_DATA \<and> get_sequence_number g = expected_seq s
         \<and> n = get_payload_size g \<and> copy_payload_to g buffer = Some b
         \<and> state s' = (if state s = WAIT_DATA0 then WAIT_DATA1 else WAIT_DATA0)
         \<and> frames (tx (socket s')) = frames (tx (socket s)) @ replicate k (Some (ack_frame (1 - expected_seq s)))
             @ [Some (ack_frame (expected_seq s))]
       \<or> get_type g = RDT_CLOSE \<and> n = 0 \<and> b = buffer \<and> state s' = CLOSING
         \<and> frames (tx (socket s')) = frames (tx (socket s)) @ replicate k (Some (ack_frame (1 - expected_seq s)))
             @ [Some (ack_frame 4)])"
proof -
  let ?e = "expected_seq s"
  from receive_data_loop [OF assms] obtain s0 where
    loop: "recv_loop env (ret ()) (await_data env ?e buffer) evs s0 = (Ret (n, b), (evs', s'))"
    and s0: "state s0 = state s" "tx (socket s0) = tx (socket s)" by blast
  have start: "only_acked s0 (1 - ?e) s0" by (auto simp: only_acked_def intro: exI [of _ 0])
  obtain used e s1 t s2 r s3 where exit: "evs = used @ e # evs'" "only_acked s0 (1 - ?e) s1" "(ret () :: unit rs_io) s1 = (Ret t, s2)"
    "receive env e s2 = (r, s3)" "await_data env ?e buffer t r s3 = (Ret (Some (n, b)), s')"
    by (rule recv_loop_exit [where P = "only_acked s0 (1 - ?e)", OF loop start]; (rule only_acked_step; assumption)?)
  have s2: "s2 = s1" using exit(3) by (simp add: ret_def)
  from exit(2) s0 obtain k where at: "state s1 = state s"
    "frames (tx (socket s1)) = frames (tx (socket s)) @ replicate k (Some (ack_frame (1 - ?e)))"
    by (auto simp: only_acked_def)
  from exit(5) show ?thesis
  proof (cases rule: await_data_cases)
    case (block m g)
    from exit(4) block(1) have "receive env e s1 = (Ret m, s3)" by (simp add: s2)
    with receive_datagram receive_connected obtain d where
      d: "e = RxDatagram d" "seg_buf s3 = overlay (take MAX_SEG_SIZE d) (seg_buf s1)" "connected (socket s3)"
        "state s3 = state s1" "tx (socket s3) = tx (socket s1)" by metis
    from block(5) obtain x s4 where s4: "send_ack env ?e s3 = (Ret x, s4)" "flip_data_state s4 = (Ret (), s')"
      "copy_payload_to g buffer = Some b" "n = get_payload_size g" by auto
    from send_ack_sent [OF s4(1) d(3)] d at have "state s4 = state s"
      "frames (tx (socket s4)) = frames (tx (socket s)) @ replicate k (Some (ack_frame (1 - ?e))) @ [Some (ack_frame ?e)]"
      by simp_all
    with s4(2) have "state s' = (if state s = WAIT_DATA0 then WAIT_DATA1 else WAIT_DATA0)"
      "frames (tx (socket s')) = frames (tx (socket s)) @ replicate k (Some (ack_frame (1 - ?e))) @ [Some (ack_frame ?e)]"
      by (auto simp: flip_data_state_def upd_def)
    with block s4 exit(1) d show ?thesis
      by (intro exI [of _ used] exI [of _ d] exI [of _ "seg_buf s1"] exI [of _ g] exI [of _ k]) simp
  next
    case (closing m g)
    from exit(4) closing(1) have "receive env e s1 = (Ret m, s3)" by (simp add: s2)
    with receive_datagram receive_connected obtain d where
      d: "e = RxDatagram d" "seg_buf s3 = overlay (take MAX_SEG_SIZE d) (seg_buf s1)" "connected (socket s3)"
        "state s3 = state s1" "tx (socket s3) = tx (socket s1)" by metis
    from closing(4) obtain x s4 where s4: "send_ack env 4 s3 = (Ret x, s4)" "s' = s4\<lparr>state := CLOSING\<rparr>" by auto
    from send_ack_sent [OF s4(1) d(3)] d at s4(2)
    have "frames (tx (socket s')) = frames (tx (socket s)) @ replicate k (Some (ack_frame (1 - ?e))) @ [Some (ack_frame 4)]"
      "state s' = CLOSING" by simp_all
    with closing exit(1) d show ?thesis
      by (intro exI [of _ used] exI [of _ d] exI [of _ "seg_buf s1"] exI [of _ g] exI [of _ k]) simp
  qed simp_all
qed

section \<open>Calls that return\<close>

text \<open>On a system that does not fail, one acknowledgement of the block is enough for \<open>send_data\<close> to return.\<close>

lemma send_data_returns:
  assumes env: "env_ok env" and "fit s" and st: "state s = WAIT_SEND" and "length data \<le> MAX_DATA_SIZE"
    and d: "is_frame (ack_frame (sequence_number s)) d"
  shows "\<exists>s'. send_data env data (RxDatagram d # evs, s) = (Ret (), (evs, s'))"
proof -
  let ?s = "s\<lparr>state := wait_ack_state s\<rparr>" and ?g = "data_segment env s data" and ?m = "msec env (clock_reads s)"
  let ?buf = "wire (padding env s) \<lparr>fr_type = RDT_DATA, fr_seq = sequence_number s, fr_ack = 0, fr_payload = data\<rparr>"
  have len: "length data \<le> 65529" using assms(4) by (simp add: MAX_DATA_SIZE_def MAX_SEG_SIZE_def sizeof_RDTHeader_def)
  have ty: "get_type ?g = RDT_DATA" by (simp add: data_segment_def segment_defs)
  have copy: "copy_to ?g (seg_buffer ?g) = Some ?buf" using copy_to_data [OF len] by (simp add: data_segment_def)
  have ack: "expected_ack ?g = Some (sequence_number s)" by (simp add: expected_ack_def data_segment_def segment_defs)
  have log: "log_segment ?g ?s = (Ret (), ?s)" using ty by (intro log_segment_ok) simp
  have "fit ?s" using assms(2) by (simp add: fit_def rtt_ok_def)
  from resend_ok [OF env this, of ?buf] obtain s1 where r: "resend env ?buf ?s = (Ret ?m, s1)" "fit s1"
    "clock_reads s1 = Suc (clock_reads s)" by auto
  let ?s2 = "s1\<lparr>socket := (socket s1)\<lparr>connected := True\<rparr>, seg_buf := overlay d (seg_buf s1)\<rparr>"
  from receive_ok [OF env d, of s1] have rcv: "receive env (RxDatagram d) s1 = (Ret (length d), ?s2)"
    and f: "holds_frame ?s2 (ack_frame (sequence_number s))" by simp_all
  have w: "waits_with env RDT_DATA ?g ?m ?s2" using ty r(3) by (auto simp: waits_with_def)
  have fit: "fit ?s2" using r(2) by (rule fit_received)
  from await_ack_ok [OF env fit w _ f] obtain s3 where
    "await_ack env ?g (sequence_number s) ?m (Ret (length d)) ?s2 = (Ret (Some ()), s3)" by auto
  with r(1) rcv have "recv_loop env (resend env ?buf) (await_ack env ?g (sequence_number s)) (RxDatagram d # evs) ?s
      = (Ret (), (evs, s3))" by simp
  then show ?thesis
    using st by (simp add: send_data_def send_until_acked_def then_io_split bind_io_split on_rs_apply set_state_def
        copy ack log loop_apply send_finish_def io_simps)
qed

definition ready_to_send :: ReliableSocket where
  "ready_to_send = ReliableSocket_new\<lparr>socket := UnreliableSocket_new\<lparr>connected := True\<rparr>, state := WAIT_SEND\<rparr>"

theorem send_data_contract_witness:
  "\<exists>s'. send_data quiet_env [1, 2] ([RxDatagram [0, 0, 1, 0, 0, 0]], ready_to_send) = (Ret (), ([], s'))
    \<and> state s' = WAIT_SEND \<and> sequence_number s' = 1"
proof -
  have fit: "fit ready_to_send"
    by (simp add: fit_def rtt_ok_def rtt_limit_def ready_to_send_def ReliableSocket_new_def)
  have st: "state ready_to_send = WAIT_SEND" by (simp add: ready_to_send_def)
  have d: "is_frame (ack_frame (sequence_number ready_to_send)) [0, 0, 1, 0, 0, 0]"
    by code_simp
  have len: "length [1, 2] \<le> MAX_DATA_SIZE" by (simp add: max_sizes)
  from send_data_returns [OF env_ok_quiet_env fit st len d] obtain s' where
    r: "send_data quiet_env [1, 2] ([RxDatagram [0, 0, 1, 0, 0, 0]], ready_to_send) = (Ret (), ([], s'))" by blast
  from send_data_contract [OF st len r] r show ?thesis
    by (auto simp: ready_to_send_def ReliableSocket_new_def)
qed

lemma receive_data_returns:
  assumes env: "env_ok env" and st: "state s = WAIT_DATA0" and f: "fr_type f = RDT_DATA" "fr_seq f = 0"
    and len: "length (fr_payload f) \<le> length buffer" and d: "is_frame f d"
  shows "\<exists>s'. receive_data env buffer (RxDatagram d # evs, s) =
    (Ret (word_of_nat (length (fr_payload f)), overlay (fr_payload f) buffer), (evs, s'))"
proof -
  obtain s1 where s1: "receive_start env s = (Ret (), s1)"
    using env by (simp add: receive_start_def then_io_split fill_zero_def set_timeout_def on_socket_def env_ok_def io_simps)
  let ?s2 = "s1\<lparr>socket := (socket s1)\<lparr>connected := True\<rparr>, seg_buf := overlay d (seg_buf s1)\<rparr>"
  from receive_ok [OF env d, of s1] have rcv: "receive env (RxDatagram d) s1 = (Ret (length d), ?s2)"
    and h: "holds_frame ?s2 f" by simp_all
  have c: "connected (socket ?s2)" by simp
  from rcv await_data_block [OF env c h f len] obtain s3 where
    "recv_loop env (ret ()) (await_data env 0 buffer) (RxDatagram d # evs) s1
      = (Ret (word_of_nat (length (fr_payload f)), overlay (fr_payload f) buffer), (evs, s3))" by (simp add: io_simps(1))
  then show ?thesis
    using st by (simp add: receive_data_def then_io_split on_rs_apply s1 loop_apply expected_seq_def)
qed

definition ready_to_receive :: ReliableSocket where
  "ready_to_receive = ReliableSocket_new\<lparr>state := WAIT_DATA0\<rparr>"

theorem receive_data_contract_witness:
  "\<exists>b s'. receive_data quiet_env (replicate MAX_DATA_SIZE 9) ([RxDatagram [0, 0, 0, 0, 0, 2, 72, 105]], ready_to_receive)
      = (Ret (2, b), ([], s')) \<and> state s' = WAIT_DATA1"
proof -
  let ?f = "\<lparr>fr_type = RDT_DATA, fr_seq = 0, fr_ack = 0, fr_payload = [72, 105]\<rparr>"
  let ?d = "RxDatagram [0, 0, 0, 0, 0, 2, 72, 105]"
  have st: "state ready_to_receive = WAIT_DATA0" by (simp add: ready_to_receive_def)
  have d: "is_frame ?f [0, 0, 0, 0, 0, 2, 72, 105]" by code_simp
  have len: "length (fr_payload ?f) \<le> length (replicate MAX_DATA_SIZE 9 :: bytes)" by (simp add: max_sizes)
  from receive_data_returns [OF env_ok_quiet_env st _ _ len d, of "[]"] obtain b s' where
    run: "receive_data quiet_env (replicate MAX_DATA_SIZE 9) ([?d], ready_to_receive) = (Ret (2, b), ([], s'))" by auto
  from receive_data_contract [OF disjI1 [OF st] run] have "state s' = WAIT_DATA1"
    by (auto simp: st dest!: arg_cong [of "[_]" _ length])
  with run show ?thesis by blast
qed

end
