(* ===== verification/Fs_Path.thy ===== *)
theory Fs_Path
  imports Net_Prelude
begin

text \<open>
  The part of \<open>std::filesystem::path\<close> that the two servers use, on strings: the file name after
  the last slash, its extension and the replacement of an extension; and input streams of files.
\<close>

definition path_filename :: "string \<Rightarrow> string" where
  "path_filename p = rev (takeWhile (\<lambda>c. c \<noteq> CHR ''/'') (rev p))"

text \<open>The extension begins at the last dot of the file name, unless that is its first character.\<close>

definition path_extension :: "string \<Rightarrow> string" where
  "path_extension p =
     (let f = path_filename p; suffix = takeWhile (\<lambda>c. c \<noteq> CHR ''.'') (rev f)
      in if f = ''..'' \<or> length f \<le> length suffix + 1 then [] else CHR ''.'' # rev suffix)"

definition replace_extension :: "string \<Rightarrow> string \<Rightarrow> string" where
  "replace_extension p e =
     take (length p - length (path_extension p)) p
     @ (if e = [] \<or> hd e = CHR ''.'' then e else CHR ''.'' # e)"

lemma filename_suffix: "\<exists>dir. p = dir @ path_filename p"
proof -
  have "rev p = takeWhile (\<lambda>c. c \<noteq> CHR ''/'') (rev p) @ dropWhile (\<lambda>c. c \<noteq> CHR ''/'') (rev p)" by simp
  then have "rev (rev p) = rev (dropWhile (\<lambda>c. c \<noteq> CHR ''/'') (rev p)) @ path_filename p"
    unfolding path_filename_def by (metis rev_append)
  then show ?thesis by auto
qed

lemma extension_suffix: "\<exists>stem. p = stem @ path_extension p"
proof -
  let ?f = "path_filename p" and ?dot = "\<lambda>c. c \<noteq> CHR ''.''"
  let ?s = "takeWhile ?dot (rev ?f)"
  obtain dir where dir: "p = dir @ ?f" using filename_suffix by blast
  show ?thesis
  proof (cases "?f = ''..'' \<or> length ?f \<le> length ?s + 1")
    case True
    then show ?thesis by (simp add: path_extension_def Let_def)
  next
    case False
    have split: "rev ?f = ?s @ dropWhile ?dot (rev ?f)" by simp
    with False have "dropWhile ?dot (rev ?f) \<noteq> []"
      by (metis append_Nil2 le_add1 length_rev)
    then obtain r where "dropWhile ?dot (rev ?f) = CHR ''.'' # r"
      by (cases "dropWhile ?dot (rev ?f)") (auto simp: dropWhile_eq_Cons_conv)
    with split have "?f = rev r @ CHR ''.'' # rev ?s"
      by (metis append.assoc append_Cons append_Nil rev.simps(2) rev_append rev_rev_ident)
    then have "p = (dir @ rev r) @ path_extension p"
      using dir False by (simp add: path_extension_def Let_def)
    then show ?thesis by blast
  qed
qed

section \<open>File streams\<close>

text \<open>
  An \<open>ifstream\<close>: the file's bytes, the position, and the two state bits. A read on a stream that is not
  good, or past the end, sets the fail bit, and from then on reads give nothing and seeks do nothing.
\<close>

record ifstream =
  f_bytes :: bytes
  f_pos :: int
  f_eof :: bool
  f_fail :: bool

definition ifstream_open :: "bytes \<Rightarrow> ifstream" where
  "ifstream_open data = \<lparr>f_bytes = data, f_pos = 0, f_eof = False, f_fail = False\<rparr>"

definition stream_read :: "nat \<Rightarrow> ifstream \<Rightarrow> bytes \<times> ifstream" where
  "stream_read n f =
     (if f_eof f \<or> f_fail f then ([], f\<lparr>f_fail := True\<rparr>)
      else let got = take n (drop (nat (f_pos f)) (f_bytes f)); short = length got < n
           in (got, f\<lparr>f_pos := f_pos f + int (length got), f_eof := short, f_fail := short\<rparr>))"

definition stream_seek_cur :: "int \<Rightarrow> ifstream \<Rightarrow> ifstream" where
  "stream_seek_cur off f =
     (let f' = f\<lparr>f_eof := False\<rparr> in
      if f_fail f' then f'
      else if f_pos f' + off < 0 then f'\<lparr>f_fail := True\<rparr>
      else f'\<lparr>f_pos := f_pos f' + off\<rparr>)"

lemma stream_read_good:
  assumes "\<not> f_eof s" and "\<not> f_fail s" and "f_pos s = int k"
  shows "stream_read n s = (take n (drop k (f_bytes s)),
    s\<lparr>f_pos := int (k + min n (length (f_bytes s) - k)), f_eof := length (f_bytes s) - k < n, f_fail := length (f_bytes s) - k < n\<rparr>)"
  using assms by (auto simp: stream_read_def Let_def min_def)

end
