(* ===== verification/Rdt_Programs.thy ===== *)
theory Rdt_Programs
  imports Rdt_Data Fs_Path
begin

text \<open>
  The two programs of project 4 from their command lines on (\<open>main\<close> of sender.cpp and receiver.cpp):
  the arguments, the files, the loops over them with the byte counts they print, and what is not
  caught. \<open>sender_main\<close> and \<open>receiver_main\<close> are what they compute when the arguments are in order and
  the files can be opened.
\<close>

datatype program_exn = Socket_Exn sock_exn | Number_Exn number_error

type_synonym script_state = "rx_event list \<times> ReliableSocket"

section \<open>The sender\<close>

text \<open>A stream whose file does not open is in the fail state, and not at its end.\<close>

definition open_input :: "(string \<Rightarrow> bytes option) \<Rightarrow> string \<Rightarrow> ifstream" where
  "open_input fs name = (case fs name of
      Some data \<Rightarrow> ifstream_open data
    | None \<Rightarrow> (ifstream_open [])\<lparr>f_fail := True\<rparr>)"

text \<open>\<open>None\<close> is a loop that never ends. The count is an \<open>int\<close>, to which a wider sum is assigned.\<close>

partial_function (option) send_stream :: "os_env \<Rightarrow> ifstream \<Rightarrow> int \<Rightarrow> script_state
    \<Rightarrow> ((sock_exn, int) outcome \<times> script_state) option" where
  "send_stream env f count st =
     (if f_eof f then Some (Ret count, st)
      else case stream_read MAX_DATA_SIZE f of (data, f') \<Rightarrow>
        (case send_data env data st of
           (Ret _, st') \<Rightarrow> send_stream env f' (narrow_to_int (count + int (length data))) st'
         | (q, st') \<Rightarrow> Some (pass q, st')))"

definition sender_program :: "os_env \<Rightarrow> (string \<Rightarrow> bytes option) \<Rightarrow> string list \<Rightarrow> rx_event list
    \<Rightarrow> ((program_exn, int) outcome \<times> script_state) option" where
  "sender_program env fs argv evs =
     (if length argv < 4 \<or> 5 < length argv then Some (Exit_Failure, (evs, ReliableSocket_new))
      else case stoi (argv ! 2) of
          Inl e \<Rightarrow> Some (Throw (Number_Exn e), (evs, ReliableSocket_new))
        | Inr remote_port_num \<Rightarrow>
            (case ReliableSocket_create env of
               Ret new_socket \<Rightarrow>
                 (case connect_to_remote env (evs, new_socket) of
                    (Ret _, st) \<Rightarrow>
                      (case send_stream env (open_input fs (argv ! 3)) 0 st of
                         None \<Rightarrow> None
                       | Some (Ret total_bytes, st') \<Rightarrow>
                           (case close_connection env st' of
                              (q, st'') \<Rightarrow> Some (map_outcome Socket_Exn (\<lambda>_. total_bytes) q, st''))
                       | Some (q, st') \<Rightarrow> Some (map_outcome Socket_Exn id q, st'))
                  | (q, st) \<Rightarrow> Some (map_outcome Socket_Exn id (pass q), st))
             | q \<Rightarrow> Some (map_outcome Socket_Exn id (pass q), (evs, ReliableSocket_new))))"

section \<open>The receiver\<close>

text \<open>
  The output file is \<open>None\<close> when \<open>fopen\<close> gave a null pointer, with which the program goes on. The count is
  a sum of \<open>int\<close>.
\<close>

function receive_stream :: "os_env \<Rightarrow> bytes \<Rightarrow> rx_event list \<Rightarrow> ReliableSocket \<Rightarrow> bytes option \<Rightarrow> int
    \<Rightarrow> (sock_exn, int) outcome \<times> bytes option \<times> script_state" where
  "receive_stream env segment evs s output_file count =
     (case receive_data env segment (evs, s) of
        (Ret (n, b), (evs', s')) \<Rightarrow>
          if n = 0 then (Ret count, (output_file, (evs', s')))
          else (case (checked_int (count + int (unat n)), output_file) of
              (Some count', Some out) \<Rightarrow> receive_stream env b evs' s' (Some (out @ take (unat n) b)) count'
            | _ \<Rightarrow> (Undefined, (output_file, (evs', s'))))
      | (q, st) \<Rightarrow> (pass q, (output_file, st)))"
  by pat_completeness auto
termination
  by (relation "measure (\<lambda>(env, buf, evs, s, out, c). length evs)") (auto dest: receive_data_shorter [OF sym])

declare receive_stream.simps [simp del]

definition receiver_program :: "os_env \<Rightarrow> (string \<Rightarrow> bool) \<Rightarrow> bytes \<Rightarrow> string list \<Rightarrow> rx_event list
    \<Rightarrow> (program_exn, int) outcome \<times> bytes option \<times> script_state" where
  "receiver_program env fopens segment argv evs =
     (if length argv < 3 \<or> 4 < length argv then (Exit_Failure, (None, (evs, ReliableSocket_new)))
      else let output_file = (if fopens (argv ! 2) then Some [] else None) in
        (case ReliableSocket_create env of
           Ret new_socket \<Rightarrow>
             (case stoi (argv ! 1) of
                Inl e \<Rightarrow> (Throw (Number_Exn e), (output_file, (evs, new_socket)))
              | Inr port \<Rightarrow>
                  (case accept_connection env (evs, new_socket) of
                     (Ret _, (evs', s)) \<Rightarrow>
                       (case receive_stream env segment evs' s output_file 0 of
                          (Ret total_bytes, (file', st)) \<Rightarrow>
                            if file' = None then (Undefined, (file', st))
                            else (case close_connection env st of
                                (q, st') \<Rightarrow> (map_outcome Socket_Exn (\<lambda>_. total_bytes) q, (file', st')))
                        | (q, (file', st)) \<Rightarrow> (map_outcome Socket_Exn id (pass q), (file', st)))
                   | (q, st) \<Rightarrow> (map_outcome Socket_Exn id (pass q), (output_file, st))))
         | q \<Rightarrow> (map_outcome Socket_Exn id (pass q), (output_file, (evs, ReliableSocket_new)))))"

section \<open>Results\<close>

lemma map_outcome_pass [simp]: "\<forall>x. q \<noteq> Ret x \<Longrightarrow> map_outcome f g (pass q) = pass (map_outcome f g q)"
  by (cases q) auto

lemma outcome_cases [case_names Ret stop]:
  fixes q :: "('e, 'a) outcome"
  obtains x where "q = Ret x" | "\<forall>x. q \<noteq> Ret x"
  by (cases q) auto

lemma narrow_add: "narrow_to_int (narrow_to_int a + b) = narrow_to_int (a + b)"
  by (simp add: narrow_to_int_def take_bit_eq_mod mod_simps)

section \<open>The sender and its file\<close>

lemma send_data_progress:
  assumes "send_data env data (evs, s) = (Ret x, (evs', s'))" and "state s = WAIT_SEND"
  shows "state s' = WAIT_SEND" "length evs' < length evs"
proof -
  let ?s = "s\<lparr>state := wait_ack_state s\<rparr>" and ?g = "data_segment env s data"
  from assms obtain s1 where sent: "send_until_acked env ?g (evs, ?s) = (Ret (), (evs', s1))"
    and s': "s' = s1\<lparr>sequence_number := 1 - sequence_number s1, state := WAIT_SEND\<rparr>"
    by (auto simp: send_data_def then_io_split on_rs_apply set_state_def send_finish_def io_simps
        split: prod.splits outcome.splits)
  from s' show "state s' = WAIT_SEND" by simp
  have "expected_ack ?g \<noteq> None" by (simp add: expected_ack_def data_segment_def segment_defs)
  with sent show "length evs' < length evs"
    by (auto simp: send_until_acked_def then_io_split bind_io_split on_rs_apply io_simps loop_apply
        split: prod.splits outcome.splits option.splits dest!: of_option_state recv_loop_shorter)
qed

lemma send_stream_ends:
  "state s = WAIT_SEND \<Longrightarrow> \<exists>r. send_stream env f t (evs, s) = Some r"
proof (induction evs arbitrary: f t s rule: length_induct)
  case (1 evs)
  obtain data f' where read: "stream_read MAX_DATA_SIZE f = (data, f')" by fastforce
  obtain q evs' s' where sent: "send_data env data (evs, s) = (q, (evs', s'))" by (metis prod_cases3)
  show ?case
  proof (cases q rule: outcome_cases)
    case (Ret x)
    with sent 1 have "\<exists>r. send_stream env f' (narrow_to_int (t + int (length data))) (evs', s') = Some r"
      using send_data_progress by blast
    with Ret read sent show ?thesis by (subst send_stream.simps) simp
  next
    case stop
    with read sent show ?thesis by (subst send_stream.simps) (cases q; simp)
  qed
qed

lemma send_stream_failed:
  assumes "send_stream env f t st = Some r" and "f_fail f" and "\<not> f_eof f"
  shows "\<forall>x. fst r \<noteq> Ret x"
proof -
  from assms(1) have "f_fail f \<longrightarrow> \<not> f_eof f \<longrightarrow> (\<forall>x. fst r \<noteq> Ret x)"
  proof (rule send_stream.raw_induct [where P = "\<lambda>_ f _ _ r. f_fail f \<longrightarrow> \<not> f_eof f \<longrightarrow> (\<forall>x. fst r \<noteq> Ret x)", rotated], goal_cases)
    case (1 loop env f t st r)
    show ?case
    proof (intro impI allI notI)
      fix x assume f: "f_fail f" "\<not> f_eof f" and r: "fst r = Ret x"
      have read: "stream_read MAX_DATA_SIZE f = ([], f\<lparr>f_fail := True\<rparr>)" using f by (simp add: stream_read_def)
      obtain q st' where sent: "send_data env [] st = (q, st')" by (rule prod.exhaust)
      from 1(2) f r read sent have "loop env (f\<lparr>f_fail := True\<rparr>) (narrow_to_int t) st' = Some r"
        by (cases q) auto
      from 1(1) [OF this] f(2) r show False by simp
    qed
  qed
  with assms(2,3) show ?thesis by blast
qed

lemma send_stream_chunks:
  assumes "\<not> f_eof f" and "\<not> f_fail f" and "f_pos f = int k" and "k \<le> length (f_bytes f)" and "rest = drop k (f_bytes f)"
  shows "send_stream env f (narrow_to_int t) st = Some (case send_all env (read_chunks rest) st of
    (q, st') \<Rightarrow> (map_outcome id (\<lambda>_. narrow_to_int (t + int (length rest))) q, st'))"
  using assms
proof (induction rest arbitrary: f k t st rule: read_chunks.induct)
  case (1 rest)
  let ?data = "take MAX_DATA_SIZE rest"
  let ?f' = "f\<lparr>f_pos := int (k + min MAX_DATA_SIZE (length rest)), f_eof := length rest < MAX_DATA_SIZE, f_fail := length rest < MAX_DATA_SIZE\<rparr>"
  from stream_read_good [OF 1(2-4)] 1(6) have read: "stream_read MAX_DATA_SIZE f = (?data, ?f')"
    by simp
  obtain q st' where sent: "send_data env ?data st = (q, st')" by (rule prod.exhaust)
  note loop = send_stream.simps [of env f "narrow_to_int t" st]
  show ?case
  proof (cases q rule: outcome_cases)
    case stop
    then have "map_outcome id g (pass q) = pass q" for g :: "unit \<Rightarrow> int" by (cases q) auto
    moreover have "map_outcome id g q = pass q" for g :: "unit \<Rightarrow> int" using stop by (cases q) auto
    moreover have "(case q of Ret x \<Rightarrow> F x | _ \<Rightarrow> Some (pass q, st')) = Some (pass q, st')" for F
      using stop by (cases q) auto
    ultimately show ?thesis
      using 1(2) read sent stop unfolding loop
      by (cases q; subst read_chunks.simps) (auto simp: then_io_split)
  next
    case (Ret x)
    show ?thesis
    proof (cases "length rest < MAX_DATA_SIZE")
      case True
      then have "read_chunks rest = [rest]" "?data = rest" by (simp_all add: read_chunks.simps)
      with Ret 1(2) read sent True show ?thesis unfolding loop
        by (simp add: then_io_split ret_def narrow_add send_stream.simps [of env "f\<lparr>f_pos := _, f_eof := True, f_fail := True\<rparr>"])
    next
      case False
      let ?k = "k + MAX_DATA_SIZE"
      have chunks: "read_chunks rest = ?data # read_chunks (drop MAX_DATA_SIZE rest)"
        using False by (subst read_chunks.simps) simp
      have len: "t + int (length ?data) + int (length (drop MAX_DATA_SIZE rest)) = t + int (length rest)"
        using False by simp
      have "send_stream env ?f' (narrow_to_int (t + int (length ?data))) st' =
          Some (case send_all env (read_chunks (drop MAX_DATA_SIZE rest)) st' of
            (q, st') \<Rightarrow> (map_outcome id (\<lambda>_. narrow_to_int (t + int (length rest))) q, st'))"
        using False 1(5,6) by (subst 1(1) [OF False, of ?f' ?k]) (simp_all add: min_def len add.commute)
      with Ret 1(2) read sent False show ?thesis unfolding loop chunks
        by (simp add: then_io_split narrow_add id_def)
    qed
  qed
qed

lemma connect_WAIT_SEND:
  assumes "connect_to_remote env (evs, s) = (Ret x, (evs', s'))"
  shows "state s' = WAIT_SEND"
proof -
  from assms have "bind_io (on_rs (connect_start env))
      (\<lambda>buf. then_io (loop env (connect_send env buf) await_ack2) (on_rs (connect_finish env))) (evs, s) = (Ret x, (evs', s'))"
    by (simp add: connect_to_remote_def split: if_splits)
  then obtain st1 where "on_rs (connect_finish env) st1 = (Ret x, (evs', s'))"
    unfolding then_io_def by (elim bind_io_RetE)
  then show ?thesis
    by (cases st1) (auto simp: on_rs_apply connect_finish_def then_io_split set_state_def io_simps
        split: if_splits prod.splits outcome.splits)
qed

lemma sender_main_result:
  assumes "connect_to_remote env st = (q, st1)" and "send_all env (read_chunks data) st1 = (q2, st2)"
  shows "sender_main env data st = (if \<exists>x. q = Ret x then if \<exists>x. q2 = Ret x then close_connection env st2 else (pass q2, st2)
    else (pass q, st1))"
  using assms by (cases q; cases q2; simp add: sender_main_def then_io_split)

text \<open>C11: With its arguments in order and a file that opens, the program ends if it gets no socket; else it does what the
  composition of the socket's methods does on the blocks of the file, and prints the length of the file, modulo
  the range of \<open>int\<close>.\<close>

theorem sender_program_runs:
  assumes "length argv = 4 \<or> length argv = 5" and "stoi (argv ! 2) = Inr port" and "fs (argv ! 3) = Some data"
  shows "sender_program env fs argv evs = Some (if socket_fails env then (Exit_Failure, (evs, ReliableSocket_new))
    else case sender_main env data (evs, ReliableSocket_new) of
    (q, st) \<Rightarrow> (map_outcome Socket_Exn (\<lambda>_. narrow_to_int (int (length data))) q, st))"
proof -
  have zero: "narrow_to_int 0 = 0" by (simp add: narrow_to_int_def)
  have stream: "send_stream env (open_input fs (argv ! 3)) 0 st = Some (case send_all env (read_chunks data) st of
      (q, st') \<Rightarrow> (map_outcome id (\<lambda>_. narrow_to_int (int (length data))) q, st'))" for st
    by (rule send_stream_chunks [of "open_input fs (argv ! 3)" 0 data env 0 st, unfolded zero add_0])
      (simp_all add: assms(3) open_input_def ifstream_open_def)
  have args: "\<not> (length argv < 4 \<or> 5 < length argv)" using assms(1) by auto
  obtain q st where con: "connect_to_remote env (evs, ReliableSocket_new) = (q, st)" by (rule prod.exhaust)
  obtain q2 st2 where all: "send_all env (read_chunks data) st = (q2, st2)" by (rule prod.exhaust)
  show ?thesis
    unfolding sender_program_def if_not_P [OF args] sender_main_result [OF con all]
    by (cases q; cases q2) (simp_all add: assms(2) con stream all split: prod.split)
qed

theorem sender_program_runs_witness:
  "sender_program quiet_env [''f'' \<mapsto> [1, 2, 3]] [''sender'', ''host'', ''7000'', ''f''] []
    = Some (case sender_main quiet_env [1, 2, 3] ([], ReliableSocket_new) of (q, st) \<Rightarrow> (map_outcome Socket_Exn (\<lambda>_. 3) q, st))"
proof -
  have port: "stoi ([''sender'', ''host'', ''7000'', ''f''] ! 2) = Inr 7000" by code_simp
  have "narrow_to_int 3 = 3" and "\<not> socket_fails quiet_env"
    by (simp_all add: narrow_to_int_fits int_fits_def quiet_env_def)
  then show ?thesis
    using sender_program_runs [of "[''sender'', ''host'', ''7000'', ''f'']" 7000 "[''f'' \<mapsto> [1, 2, 3]]" "[1, 2, 3]" quiet_env "[]"] port
    by simp
qed

text \<open>When the file cannot be opened the program does not notice: whatever it receives, it never gets past its loop
  (a stream that failed to open is never at its end), and is still sending or waiting when the script ends, unless
  an error stops it.\<close>

lemma missing_file_never_sent:
  assumes "fs (argv ! 3) = None"
  shows "\<exists>q st. sender_program env fs argv evs = Some (q, st) \<and> (\<forall>total. q \<noteq> Ret total)"
proof -
  have failed: "f_fail (open_input fs (argv ! 3))" "\<not> f_eof (open_input fs (argv ! 3))"
    using assms by (simp_all add: open_input_def ifstream_open_def)
  obtain q evs1 s1 where con: "connect_to_remote env (evs, ReliableSocket_new) = (q, (evs1, s1))" by (metis prod_cases3)
  show ?thesis
  proof (cases q)
    case (Ret x)
    with con have "state s1 = WAIT_SEND" using connect_WAIT_SEND by blast
    then obtain q2 st2 where str: "send_stream env (open_input fs (argv ! 3)) 0 (evs1, s1) = Some (q2, st2)"
      using send_stream_ends by (metis surj_pair)
    with send_stream_failed [OF str failed] Ret con show ?thesis
      by (cases q2) (auto simp: sender_program_def split: sum.split)
  qed (use con in \<open>auto simp: sender_program_def split: sum.split\<close>)
qed

section \<open>The receiver and its file\<close>

lemma copy_payload_sizes:
  assumes "copy_payload_to g d = Some b"
  shows "length b = length d \<and> unat (get_payload_size g) \<le> length d"
proof -
  from assms obtain p where p: "copy_span (payload g) = Some p" "length p \<le> length d" "b = overlay p d"
    by (auto simp: copy_payload_to_def split: option.splits if_splits)
  then have "span_size (payload g) = length p" by (auto simp: copy_span_def split: if_splits)
  moreover have "unat (word_of_nat (span_size (payload g)) :: u16) \<le> span_size (payload g)"
    by (simp add: unsigned_of_nat take_bit_nat_less_eq_self)
  ultimately show ?thesis using p by (simp add: get_payload_size_def overlay_def)
qed

lemma receive_data_sizes:
  assumes "receive_data env buf (evs, s) = (Ret (n, b), (evs', s'))"
  shows "length b = length buf \<and> unat n \<le> length buf"
proof (cases "state s = WAIT_DATA0 \<or> state s = WAIT_DATA1")
  case True
  from receive_data_loop [OF True assms] obtain s0 where
    loop: "recv_loop env (ret ()) (await_data env (expected_seq s) buf) evs s0 = (Ret (n, b), (evs', s'))" by blast
  obtain r s2 t where "await_data env (expected_seq s) buf t r s2 = (Ret (Some (n, b)), s')"
    by (rule recv_loop_exit [OF loop, of "\<lambda>_. True"]) simp_all
  then show ?thesis
    by (cases rule: await_data_cases) (auto dest: copy_payload_sizes)
next
  case False
  with assms show ?thesis by (auto simp: receive_data_def)
qed

lemma receive_all_extends:
  "receive_all env buf evs s out = (q, (out', st)) \<Longrightarrow> length out \<le> length out'"
proof (induction env buf evs s out rule: receive_all.induct)
  case (1 env buf evs s out)
  obtain r evs1 s1 where rcv: "receive_data env buf (evs, s) = (r, (evs1, s1))" by (metis prod_cases3)
  show ?case
  proof (cases "\<exists>n b. r = Ret (n, b) \<and> n \<noteq> 0")
    case True
    then obtain n b where r: "r = Ret (n, b)" "n \<noteq> 0" by blast
    with 1(2) rcv have "receive_all env b evs1 s1 (out @ take (unat n) b) = (q, (out', st))"
      by (simp add: receive_all.simps [of env buf])
    from 1(1) [OF rcv [symmetric] r(1) refl refl r(2) this] have "length (out @ take (unat n) b) \<le> length out'" .
    then show ?thesis by simp
  next
    case False
    with 1(2) rcv show ?thesis
      by (cases r) (auto simp: receive_all.simps [of env buf])
  qed
qed

lemma receive_stream_all:
  assumes "receive_all env buf evs s out = (q, (out', st))" and "int (length out') < 2 ^ 31"
  shows "receive_stream env buf evs s (Some out) (int (length out))
    = (map_outcome id (\<lambda>_. int (length out')) q, (Some out', st))"
  using assms
proof (induction env buf evs s out rule: receive_all.induct)
  case (1 env buf evs s out)
  obtain r evs1 s1 where rcv: "receive_data env buf (evs, s) = (r, (evs1, s1))" by (metis prod_cases3)
  note run = receive_all.simps [of env buf evs s] receive_stream.simps [of env buf evs s]
  show ?case
  proof (cases "\<exists>n b. r = Ret (n, b) \<and> n \<noteq> 0")
    case True
    then obtain n b where r: "r = Ret (n, b)" "n \<noteq> 0" by blast
    let ?out = "out @ take (unat n) b"
    have all: "receive_all env b evs1 s1 ?out = (q, (out', st))" using 1(2) rcv r by (simp add: run)
    have len: "int (length ?out) = int (length out) + int (unat n)"
      using receive_data_sizes [OF rcv [unfolded r]] by simp
    have "int (length ?out) < 2 ^ 31" using receive_all_extends [OF all] 1(3) by linarith
    moreover have "0 \<le> int (length ?out)" by (rule of_nat_0_le_iff)
    ultimately have "int_fits (int (length ?out))" unfolding int_fits_def by linarith
    then have fits: "checked_int (int (length out) + int (unat n)) = Some (int (length ?out))"
      unfolding len [symmetric] by (rule checked_int_Some)
    from 1(1) [OF rcv [symmetric] r(1) refl refl r(2) all 1(3)] have
      "receive_stream env b evs1 s1 (Some ?out) (int (length ?out))
        = (map_outcome id (\<lambda>_. int (length out')) q, (Some out', st))" .
    with rcv r fits show ?thesis by (simp add: run id_def)
  next
    case False
    with 1(2) rcv show ?thesis
      by (cases r) (auto simp: run)
  qed
qed

text \<open>With its arguments in order, a file that can be created and a socket, the program writes what
  the composition of the socket's methods receives and prints the number of bytes written, as long as that fits in an \<open>int\<close>.\<close>

lemma receiver_program_runs:
  assumes "length argv = 3 \<or> length argv = 4" and "stoi (argv ! 1) = Inr port" and "fopens (argv ! 2)"
    and "receiver_main env segment (evs, ReliableSocket_new) = (q, (out, st))" and "int (length out) < 2 ^ 31"
    and "\<not> socket_fails env"
  shows "receiver_program env fopens segment argv evs
    = (map_outcome Socket_Exn (\<lambda>_. int (length out)) q, (Some out, st))"
proof -
  have args: "\<not> (length argv < 3 \<or> 4 < length argv)" using assms(1) by auto
  obtain q1 evs1 s1 where acc: "accept_connection env (evs, ReliableSocket_new) = (q1, (evs1, s1))" by (metis prod_cases3)
  obtain q2 out2 st2 where all: "receive_all env segment evs1 s1 [] = (q2, (out2, st2))" by (metis prod_cases3)
  have run: "receiver_program env fopens segment argv evs =
      (case (q1, (evs1, s1)) of
         (Ret _, (evs', s)) \<Rightarrow>
           (case receive_stream env segment evs' s (Some []) 0 of
              (Ret total_bytes, (file', st)) \<Rightarrow>
                if file' = None then (Undefined, (file', st))
                else (case close_connection env st of
                    (q, st') \<Rightarrow> (map_outcome Socket_Exn (\<lambda>_. total_bytes) q, (file', st')))
            | (q, (file', st)) \<Rightarrow> (map_outcome Socket_Exn id (pass q), (file', st)))
       | (q, st) \<Rightarrow> (map_outcome Socket_Exn id (pass q), (Some [], st)))"
    unfolding receiver_program_def if_not_P [OF args] assms(2) Let_def if_P [OF assms(3)] by (simp add: acc assms(6))
  show ?thesis
  proof (cases q1 rule: outcome_cases)
    case (Ret x)
    with assms(4) acc all have "out = out2"
      by (cases q2) (auto simp: receiver_main_def split: prod.splits)
    with receive_stream_all [OF all] assms(5) have stream: "receive_stream env segment evs1 s1 (Some []) 0
        = (map_outcome id (\<lambda>_. int (length out)) q2, (Some out, st2))" by simp
    from Ret assms(4) acc all show ?thesis
      by (cases q2) (auto simp: run stream receiver_main_def split: prod.splits)
  next
    case stop
    with assms(4) acc show ?thesis
      by (cases q1) (auto simp: run receiver_main_def)
  qed
qed

end
