(* ===== verification/Rdt_Typestate.thy ===== *)
theory Rdt_Typestate
  imports Rdt_Data
begin

text \<open>
  The reliable socket as an object with a protocol: which calls its user may make in which status,
  how a call that returns moves the status, and which exceptions leave a call. A socket has one role,
  the sender's or the receiver's, and a status only moves forward in it; that is an order on the
  statuses.
\<close>

section \<open>The order of the statuses\<close>

text \<open>The statuses of the two roles, each in the order in which the code goes through them; \<open>INIT\<close> comes
  before both, \<open>CLOSED\<close> after.\<close>

fun sender_phase :: "connection_status \<Rightarrow> nat option" where
  "sender_phase WAIT_HS2 = Some 0"
| "sender_phase WAIT_HS3 = Some 1"
| "sender_phase WAIT_SEND = Some 2"
| "sender_phase WAIT_ACK0 = Some 2"
| "sender_phase WAIT_ACK1 = Some 2"
| "sender_phase _ = None"

fun receiver_phase :: "connection_status \<Rightarrow> nat option" where
  "receiver_phase WAIT_DATA0 = Some 0"
| "receiver_phase WAIT_DATA1 = Some 0"
| "receiver_phase CLOSING = Some 1"
| "receiver_phase _ = None"

definition phase_le :: "nat option \<Rightarrow> nat option \<Rightarrow> bool" where
  "phase_le a b = (case (a, b) of (Some m, Some n) \<Rightarrow> m \<le> n | _ \<Rightarrow> False)"

instantiation connection_status :: preorder
begin

definition less_eq_connection_status :: "connection_status \<Rightarrow> connection_status \<Rightarrow> bool" where
  "a \<le> b \<longleftrightarrow> a = INIT \<or> b = CLOSED \<or> phase_le (sender_phase a) (sender_phase b)
     \<or> phase_le (receiver_phase a) (receiver_phase b)"

definition less_connection_status :: "connection_status \<Rightarrow> connection_status \<Rightarrow> bool" where
  "a < b \<longleftrightarrow> a \<le> b \<and> \<not> b \<le> (a :: connection_status)"

instance
proof
  fix a b c :: connection_status
  show "a < b \<longleftrightarrow> a \<le> b \<and> \<not> b \<le> a" by (rule less_connection_status_def)
  show "a \<le> a" by (cases a) (simp_all add: less_eq_connection_status_def phase_le_def)
  show "a \<le> c" if "a \<le> b" and "b \<le> c"
    using that by (cases a; cases b; cases c; simp add: less_eq_connection_status_def phase_le_def)
qed

end

lemma status_le [simp]: "INIT \<le> st" "st \<le> CLOSED"
  by (simp_all add: less_eq_connection_status_def)

section \<open>The calls\<close>

datatype socket_call = Connect | Accept | Send bytes | Receive bytes | Close

fun run_call :: "os_env \<Rightarrow> socket_call \<Rightarrow> unit script_io" where
  "run_call env Connect = connect_to_remote env"
| "run_call env Accept = accept_connection env"
| "run_call env (Send data) = send_data env data"
| "run_call env (Receive buffer) = bind_io (receive_data env buffer) (\<lambda>_. ret ())"
| "run_call env Close = close_connection env"

text \<open>The statuses in which a call that was made in a given one can return; none if it does not return.\<close>

fun typestate :: "socket_call \<Rightarrow> connection_status \<Rightarrow> connection_status set" where
  "typestate Connect st = (if st = INIT then {WAIT_SEND} else {})"
| "typestate Accept st = (if st = INIT then {WAIT_DATA0} else {})"
| "typestate (Send data) st = {st}"
| "typestate (Receive buffer) st =
     (if st = WAIT_DATA0 then {WAIT_DATA1, CLOSING} else if st = WAIT_DATA1 then {WAIT_DATA0, CLOSING} else {st})"
| "typestate Close st = (if st = WAIT_SEND \<or> st = CLOSING then {CLOSED} else {st})"

lemma typestate_forward: "st' \<in> typestate c st \<Longrightarrow> st \<le> st'"
  by (cases c; cases st) (auto simp: less_eq_connection_status_def phase_le_def split: if_splits)

section \<open>What keeps the status\<close>

text \<open>\<open>steady\<close> operations keep the status and the sequence number; they may send.\<close>

abbreviation steady :: "'a rs_io \<Rightarrow> bool" where
  "steady \<equiv> framed (\<lambda>s s'. state s' = state s \<and> sequence_number s' = sequence_number s)"

interpretation steady: io_frame "\<lambda>s s'. state s' = state s \<and> sequence_number s' = sequence_number s"
  by unfold_locales simp_all

named_theorems steady_intros \<open>operations that keep the status and the sequence number\<close>

lemmas steadyD = framedD [where R = "\<lambda>s s'. state s' = state s \<and> sequence_number s' = sequence_number s"]

lemmas steady_basic [steady_intros] = steady.frame_intros

lemma steady_quiet: "quiet m \<Longrightarrow> steady m"
  by (simp add: framed_def quiet_step_def)

lemmas steady_quiets [steady_intros] =
  quiet_parse_received [THEN steady_quiet] quiet_log_segment [THEN steady_quiet] quiet_read_clock [THEN steady_quiet]
  quiet_fill_zero [THEN steady_quiet] quiet_rtt_timeout [THEN steady_quiet] quiet_set_timeout [THEN steady_quiet]
  quiet_await_ack [THEN steady_quiet] quiet_await_ack2 [THEN steady_quiet] quiet_await_conn [THEN steady_quiet]

lemma steady_send [steady_intros]: "steady (send_buffer env b)" "steady (send_ack env n)"
  by (simp_all add: framed_def send_buffer_eq send_ack_eq)

lemma steady_socket [steady_intros]: "steady (on_socket m)"
  by (auto simp: framed_def on_socket_def split: prod.splits)

lemma steady_resend [steady_intros]: "steady (resend env b)"
  unfolding resend_def by (intro steady_intros)

lemma steady_connect_send [steady_intros]: "steady (connect_send env b)"
  unfolding connect_send_def by (intro steady_intros)

lemma steady_accept_ack2 [steady_intros]: "steady (accept_ack2 env)"
  unfolding accept_ack2_def by (intro steady_intros)

lemma steady_await_ack3 [steady_intros]: "steady (await_ack3 env t r)"
  by (auto simp: await_ack3_def split: outcome.split sock_exn.split intro!: steady_intros)

lemma steady_await_quiet [steady_intros]: "steady (await_quiet env t r)"
  by (auto simp: await_quiet_def split: outcome.split intro!: steady_intros)

lemma steady_loop:
  assumes "recv_loop env pre body evs s = (q, (evs', s'))"
    and "steady pre" and "\<And>t r. steady (body t r)"
  shows "state s' = state s \<and> sequence_number s' = sequence_number s"
proof (rule recv_loop_keeps [where P = "\<lambda>s1. state s1 = state s \<and> sequence_number s1 = sequence_number s", OF assms(1)])
  fix s1 q s2
  assume "pre s1 = (q, s2)" and "state s1 = state s \<and> sequence_number s1 = sequence_number s"
  with steadyD [OF assms(2)] show "state s2 = state s \<and> sequence_number s2 = sequence_number s" by metis
next
  fix e s1 q s2
  assume "receive env e s1 = (q, s2)" and "state s1 = state s \<and> sequence_number s1 = sequence_number s"
  with steadyD [OF steady_quiet [OF quiet_receive]] show "state s2 = state s \<and> sequence_number s2 = sequence_number s" by metis
next
  fix t r s1 q s2
  assume "body t r s1 = (q, s2)" and "state s1 = state s \<and> sequence_number s1 = sequence_number s"
  with steadyD [OF assms(3)] show "state s2 = state s \<and> sequence_number s2 = sequence_number s" by metis
qed simp

section \<open>Where each call leads\<close>

lemma on_rs_RetE:
  assumes "on_rs m (evs, s) = (Ret x, st)"
  obtains s' where "m s = (Ret x, s')" "st = (evs, s')"
  using assms by (auto simp: on_rs_apply split: prod.splits)

lemma then_RetE:
  assumes "then_io m k st = (Ret x, st')"
  obtains st1 where "m st = (Ret (), st1)" "k st1 = (Ret x, st')"
  using assms unfolding then_io_def by (elim bind_io_RetE) (metis unit.exhaust)

lemma connect_leads:
  assumes "connect_to_remote env (evs, s) = (Ret x, (evs', s'))"
  shows "state s = INIT \<and> state s' = WAIT_SEND \<and> sequence_number s' = sequence_number s"
proof -
  from assms have st: "state s = INIT" by (auto simp: connect_to_remote_def split: if_splits)
  with assms obtain buf st1 where "on_rs (connect_start env) (evs, s) = (Ret buf, st1)"
    and rest: "then_io (loop env (connect_send env buf) await_ack2) (on_rs (connect_finish env)) st1 = (Ret x, (evs', s'))"
    unfolding connect_to_remote_def by (simp, elim bind_io_RetE) blast
  then obtain s1 where start: "connect_start env s = (Ret buf, s1)" and st1: "st1 = (evs, s1)" by (elim on_rs_RetE)
  from start have "sequence_number s1 = sequence_number s"
    unfolding connect_start_def Let_def then_io_def
    by (elim bind_io_RetE) (auto simp: set_state_def io_simps dest!: of_option_state,
        metis steadyD [OF steady_socket] steadyD [OF steady_quiet [OF quiet_rtt_timeout]])
  moreover from rest obtain st2 where "loop env (connect_send env buf) await_ack2 st1 = (Ret (), st2)"
    and fin: "on_rs (connect_finish env) st2 = (Ret x, (evs', s'))" by (rule then_RetE)
  then obtain evs2 s2 where s2: "st2 = (evs2, s2)" "sequence_number s2 = sequence_number s1"
    using st1 by (cases st2) (auto simp: loop_apply dest!: steady_loop intro: steady_intros)
  moreover from fin s2(1) obtain s3 where "connect_finish env s2 = (Ret x, s')" by (auto elim: on_rs_RetE)
  then have "state s' = WAIT_SEND \<and> sequence_number s' = sequence_number s2"
    unfolding connect_finish_def by (elim then_RetE) (auto simp: set_state_def io_simps split: if_splits)
  ultimately show ?thesis using st by simp
qed

lemma accept_leads:
  assumes "accept_connection env (evs, s) = (Ret x, (evs', s'))"
  shows "state s = INIT \<and> state s' = WAIT_DATA0 \<and> sequence_number s' = sequence_number s"
proof -
  from assms have st: "state s = INIT" by (auto simp: accept_connection_def split: if_splits)
  with assms obtain st1 st2 st3 st4 where "on_rs (on_socket (us_bind env)) (evs, s) = (Ret (), st1)"
    "loop env fill_zero await_conn st1 = (Ret (), st2)" "on_rs (accept_ack2 env) st2 = (Ret (), st3)"
    "loop env fill_zero (await_ack3 env) st3 = (Ret (), st4)" "on_rs (set_state WAIT_DATA0) st4 = (Ret x, (evs', s'))"
    unfolding accept_connection_def by (simp, elim then_RetE) blast
  moreover obtain evs1 s1 evs2 s2 evs3 s3 evs4 s4 where "st1 = (evs1, s1)" "st2 = (evs2, s2)" "st3 = (evs3, s3)" "st4 = (evs4, s4)"
    by (metis surj_pair)
  ultimately have run: "on_socket (us_bind env) s = (Ret (), s1)" "recv_loop env fill_zero await_conn evs1 s1 = (Ret (), (evs2, s2))"
    "accept_ack2 env s2 = (Ret (), s3)" "recv_loop env fill_zero (await_ack3 env) evs3 s3 = (Ret (), (evs4, s4))"
    "s' = s4\<lparr>state := WAIT_DATA0\<rparr>"
    by (auto simp: on_rs_apply loop_apply set_state_def upd_def split: prod.splits)
  have "sequence_number s1 = sequence_number s" using steadyD [OF steady_socket run(1)] ..
  moreover have "sequence_number s2 = sequence_number s1" by (rule steady_loop [OF run(2), THEN conjunct2]) (intro steady_intros)+
  moreover have "sequence_number s3 = sequence_number s2" using steadyD [OF steady_accept_ack2 run(3)] ..
  moreover have "sequence_number s4 = sequence_number s3" by (rule steady_loop [OF run(4), THEN conjunct2]) (intro steady_intros)+
  ultimately show ?thesis using st run(5) by simp
qed

lemma until_acked_steady:
  assumes "send_until_acked env g (evs, s) = (q, (evs', s'))"
  shows "state s' = state s \<and> sequence_number s' = sequence_number s"
proof (cases "copy_to g (seg_buffer g)")
  case None
  with assms steadyD [OF steady_quiet [OF quiet_log_segment]] show ?thesis
    by (auto simp: send_until_acked_def then_io_split bind_io_split on_rs_apply io_simps split: prod.splits outcome.splits)
next
  case (Some buf)
  obtain q1 s1 where log: "log_segment g s = (q1, s1)" by fastforce
  have s1: "state s1 = state s \<and> sequence_number s1 = sequence_number s"
    using steadyD [OF steady_quiet [OF quiet_log_segment] log] .
  show ?thesis
  proof (cases "q1 = Ret ()")
    case False
    with assms log s1 show ?thesis by (cases q1) (simp_all add: send_until_acked_def then_io_split on_rs_apply)
  next
    case True
    with assms log Some have run: "(case expected_ack g of
        None \<Rightarrow> on_rs (send_buffer env buf) | Some a \<Rightarrow> loop env (resend env buf) (await_ack env g a)) (evs, s1) = (q, (evs', s'))"
      by (simp add: send_until_acked_def then_io_split bind_io_split on_rs_apply io_simps)
    have "state s' = state s1 \<and> sequence_number s' = sequence_number s1"
    proof (cases "expected_ack g")
      case None
      with run obtain s2 where "send_buffer env buf s1 = (q, s')" by (auto simp: on_rs_apply split: prod.splits)
      then show ?thesis using steadyD [OF steady_send(1)] by metis
    next
      case (Some a)
      with run have "recv_loop env (resend env buf) (await_ack env g a) evs s1 = (q, (evs', s'))" by (simp add: loop_apply)
      then show ?thesis by (rule steady_loop) (intro steady_intros)+
    qed
    with s1 show ?thesis by simp
  qed
qed

lemma send_leads:
  assumes "send_data env data (evs, s) = (Ret x, (evs', s'))"
  shows "state s' = state s \<and> sequence_number s' = (if state s = WAIT_SEND then 1 - sequence_number s else sequence_number s)"
proof (cases "state s = WAIT_SEND")
  case False
  with assms show ?thesis by (simp add: send_data_def)
next
  case True
  with assms obtain st1 st2 where "on_rs (set_state (wait_ack_state s)) (evs, s) = (Ret (), st1)"
    "send_until_acked env (data_segment env s data) st1 = (Ret (), st2)" "on_rs send_finish st2 = (Ret x, (evs', s'))"
    unfolding send_data_def by (simp, elim then_RetE) blast
  moreover obtain evs2 s2 where "st2 = (evs2, s2)" by fastforce
  ultimately have "send_until_acked env (data_segment env s data) (evs, s\<lparr>state := wait_ack_state s\<rparr>) = (Ret (), (evs2, s2))"
    "s' = s2\<lparr>sequence_number := 1 - sequence_number s2, state := WAIT_SEND\<rparr>"
    by (auto simp: on_rs_apply set_state_def send_finish_def upd_def)
  with until_acked_steady True show ?thesis by fastforce
qed

lemma receive_leads:
  assumes "receive_data env buffer (evs, s) = (Ret x, (evs', s'))"
  shows "state s' \<in> typestate (Receive buffer) (state s) \<and> sequence_number s' = sequence_number s"
proof (cases "state s = WAIT_DATA0 \<or> state s = WAIT_DATA1")
  case False
  with assms show ?thesis by (auto simp: receive_data_def)
next
  case True
  let ?P = "\<lambda>s1. state s1 = state s \<and> sequence_number s1 = sequence_number s"
  obtain q s0 where start: "receive_start env s = (q, s0)" by fastforce
  then have s0: "?P s0" unfolding receive_start_def by (rule steadyD [rotated]) (intro steady_intros)
  from assms True start have loop: "recv_loop env (ret ()) (await_data env (expected_seq s) buffer) evs s0 = (Ret x, (evs', s'))"
    by (cases q) (auto simp: receive_data_def then_io_split on_rs_apply loop_apply)
  have ack: "?P s2" if "send_ack env n s1 = (Ret y, s2)" "?P s1" for n s1 y s2
    using steadyD [OF steady_send(2) that(1)] that(2) by simp
  have rcv: "?P s2" if "receive env e s1 = (r, s2)" "?P s1" for e s1 r s2
    using steadyD [OF steady_quiet [OF quiet_receive] that(1)] that(2) by simp
  have step: "?P s3" if "ret () s1 = (Ret t, s2)" "receive env e s2 = (r, s2')"
    "await_data env (expected_seq s) buffer t r s2' = (Ret None, s3)" "?P s1" for s1 t s2 e r s2' s3
    using that(3)
  proof (cases rule: await_data_cases)
    case (again n)
    with ack rcv that show ?thesis by (metis ret_apply prod.inject)
  next
    case (other n)
    with rcv that show ?thesis by (metis ret_apply prod.inject)
  qed auto
  obtain used e s1 t s2 r s3 where exit: "evs = used @ e # evs'" "?P s1" "(ret () :: unit rs_io) s1 = (Ret t, s2)"
    "receive env e s2 = (r, s3)" "await_data env (expected_seq s) buffer t r s3 = (Ret (Some x), s')"
    by (rule recv_loop_exit [where P = ?P, OF loop s0]; (rule step; assumption)?)
  then have s3: "?P s3" using rcv by (metis ret_apply prod.inject)
  from exit(5) show ?thesis
  proof (cases rule: await_data_cases)
    case (block n g)
    then obtain y s4 where s4: "send_ack env (expected_seq s) s3 = (Ret y, s4)" "flip_data_state s4 = (Ret (), s')" by auto
    with ack s3 have "?P s4" by blast
    with s4(2) True show ?thesis by (auto simp: flip_data_state_def upd_def)
  next
    case (closing n g)
    then obtain y s4 where "send_ack env 4 s3 = (Ret y, s4)" "s' = s4\<lparr>state := CLOSING\<rparr>" by auto
    with ack s3 True show ?thesis by auto
  qed auto
qed

lemma closed_RetE:
  assumes "on_rs (set_state st) (evs, s) = (Ret x, (evs', s'))"
  shows "s' = s\<lparr>state := st\<rparr>"
  using assms by (auto simp: on_rs_apply set_state_def upd_def)

lemma close_leads:
  assumes "close_connection env (evs, s) = (Ret x, (evs', s'))"
  shows "state s' \<in> typestate Close (state s) \<and> sequence_number s' = sequence_number s"
proof -
  from assms obtain evs1 s1 where first: "(if state s = WAIT_SEND then
          then_io (send_until_acked env (close_segment env s)) (on_rs (set_state CLOSED))
        else if state s = CLOSING then
          then_io (on_rs (set_timeout env 2000)) (then_io (loop env fill_zero (await_quiet env)) (on_rs (set_state CLOSED)))
        else ret ()) (evs, s) = (Ret (), (evs1, s1))"
    and last: "on_rs (on_socket us_close) (evs1, s1) = (Ret x, (evs', s'))"
    unfolding close_connection_def by (simp only: prod.case, elim then_RetE) (metis surj_pair)
  from last have s': "state s' = state s1 \<and> sequence_number s' = sequence_number s1"
    by (elim on_rs_RetE) (use steadyD [OF steady_socket] in fastforce)
  consider "state s = WAIT_SEND" | "state s = CLOSING" | "state s \<noteq> WAIT_SEND" "state s \<noteq> CLOSING" by blast
  then have "state s1 \<in> typestate Close (state s) \<and> sequence_number s1 = sequence_number s"
  proof cases
    case 1
    with first obtain evs2 s2 where "send_until_acked env (close_segment env s) (evs, s) = (Ret (), (evs2, s2))"
      "on_rs (set_state CLOSED) (evs2, s2) = (Ret (), (evs1, s1))" by (simp, elim then_RetE) (metis surj_pair)
    with until_acked_steady closed_RetE 1 show ?thesis by fastforce
  next
    case 2
    with first obtain evs2 s2 evs3 s3 where run: "on_rs (set_timeout env 2000) (evs, s) = (Ret (), (evs2, s2))"
      "loop env fill_zero (await_quiet env) (evs2, s2) = (Ret (), (evs3, s3))"
      "on_rs (set_state CLOSED) (evs3, s3) = (Ret (), (evs1, s1))" by (simp, elim then_RetE) (metis surj_pair)
    from run(1) have "sequence_number s2 = sequence_number s"
      using steadyD [OF steady_quiet [OF quiet_set_timeout]] by (auto elim!: on_rs_RetE)
    moreover have "sequence_number s3 = sequence_number s2"
      by (rule steady_loop [OF run(2) [unfolded loop_apply], THEN conjunct2]) (intro steady_intros)+
    ultimately show ?thesis using closed_RetE [OF run(3)] 2 by simp
  next
    case 3
    with first show ?thesis by (simp add: io_simps)
  qed
  with s' show ?thesis by simp
qed

section \<open>The typestate of a socket\<close>

text \<open>A socket between two calls.\<close>

definition socket_typed :: "ReliableSocket \<Rightarrow> bool" where
  "socket_typed s \<longleftrightarrow> state s \<in> {INIT, WAIT_SEND, WAIT_DATA0, WAIT_DATA1, CLOSING, CLOSED}
     \<and> sequence_number s \<in> {0, 1}
     \<and> (state s \<in> {INIT, WAIT_DATA0, WAIT_DATA1, CLOSING} \<longrightarrow> sequence_number s = 0)"

lemma run_call_leads:
  assumes "run_call env c (evs, s) = (Ret (), (evs', s'))"
  shows "state s' \<in> typestate c (state s)
    \<and> sequence_number s' = (case c of Send _ \<Rightarrow> if state s = WAIT_SEND then 1 - sequence_number s else sequence_number s
        | _ \<Rightarrow> sequence_number s)"
proof (cases c)
  case Connect
  with assms connect_leads show ?thesis by fastforce
next
  case Accept
  with assms accept_leads show ?thesis by fastforce
next
  case (Send data)
  with assms send_leads [of env data evs s] show ?thesis by auto
next
  case (Receive buffer)
  with assms have "bind_io (receive_data env buffer) (\<lambda>_. ret ()) (evs, s) = (Ret (), (evs', s'))" by simp
  then obtain x where "receive_data env buffer (evs, s) = (Ret x, (evs', s'))"
    by (elim bind_io_RetE) (auto simp: ret_def)
  with receive_leads Receive show ?thesis by simp
next
  case Close
  with assms close_leads show ?thesis by fastforce
qed

inductive client_run :: "os_env \<Rightarrow> socket_call list \<Rightarrow> rx_event list \<times> ReliableSocket \<Rightarrow> rx_event list \<times> ReliableSocket \<Rightarrow> bool"
  for env where
  none: "client_run env [] st st"
| call: "run_call env c st = (Ret (), st1) \<Longrightarrow> client_run env cs st1 st2 \<Longrightarrow> client_run env (c # cs) st st2"

inductive_cases client_run_ConsE: "client_run env (c # cs) st st'"

lemma run_call_typed:
  assumes "run_call env c (evs, s) = (Ret (), (evs', s'))" and "socket_typed s"
  shows "socket_typed s'"
  using run_call_leads [OF assms(1)] assms(2)
  by (cases c) (auto simp: socket_typed_def split: if_splits)

lemma client_run_forward:
  "client_run env cs st st' \<Longrightarrow> socket_typed (snd st) \<Longrightarrow> socket_typed (snd st') \<and> state (snd st) \<le> state (snd st')"
proof (induction rule: client_run.induct)
  case (call c st st1 cs st2)
  obtain evs s evs1 s1 where st: "st = (evs, s)" "st1 = (evs1, s1)" by fastforce
  with call.hyps(1) call.prems have "socket_typed s1" "state s \<le> state s1"
    using run_call_typed run_call_leads typestate_forward by (simp, blast)+
  with call.IH st show ?case by (auto intro: order_trans)
qed simp

text \<open>C15: Whatever calls were made on a new socket, with whatever the network delivers: between two
  calls the socket is in one of six statuses with sequence number 0 or 1, a further call that returns leads
  where the table says, and the status never goes back, nor from the sender's role to the receiver's.\<close>

theorem socket_typestate:
  assumes "client_run env cs (evs, ReliableSocket_new) (evs1, s)" and "run_call env c (evs1, s) = (Ret (), (evs2, s'))"
  shows "socket_typed s \<and> socket_typed s' \<and> state s' \<in> typestate c (state s) \<and> state s \<le> state s'"
proof -
  have "socket_typed ReliableSocket_new" by (simp add: socket_typed_def ReliableSocket_new_def)
  with client_run_forward [OF assms(1)] have "socket_typed s" by simp
  with run_call_typed [OF assms(2)] run_call_leads [OF assms(2)] show ?thesis by (auto dest: typestate_forward)
qed

section \<open>The exceptions that leave a call\<close>

definition nothrow :: "('s, 'e, 'a) io \<Rightarrow> bool" where
  "nothrow m \<longleftrightarrow> (\<forall>st x st'. m st \<noteq> (Throw x, st'))"

named_theorems nothrow_intros \<open>operations that throw no exception\<close>

lemma nothrowD: "nothrow m \<Longrightarrow> m st = (Throw x, st') \<Longrightarrow> False"
  by (simp add: nothrow_def)

lemma nothrow_basic [nothrow_intros]:
  "nothrow (ret x)" "nothrow (halt Exit_Failure)" "nothrow (halt Undefined)" "nothrow (halt Blocked)" "nothrow (upd f)"
  by (simp_all add: nothrow_def io_simps)

lemma nothrow_of_option [nothrow_intros]: "nothrow (of_option x)"
  by (cases x) (simp_all add: nothrow_def io_simps)

lemma nothrow_bind [nothrow_intros]:
  assumes "nothrow m" and "\<And>x. nothrow (f x)"
  shows "nothrow (bind_io m f)"
  using assms unfolding nothrow_def bind_io_split by (force split: prod.splits outcome.splits)

lemma nothrow_then [nothrow_intros]: "nothrow m \<Longrightarrow> nothrow k \<Longrightarrow> nothrow (then_io m k)"
  unfolding then_io_def by (intro nothrow_bind) auto

lemma nothrow_here: "(\<And>s0. nothrow (m s0)) \<Longrightarrow> nothrow (\<lambda>s. m s s)"
  by (simp add: nothrow_def)

lemma nothrow_if [nothrow_intros]: "nothrow m \<Longrightarrow> nothrow k \<Longrightarrow> nothrow (if b then m else k)"
  by simp

lemma nothrow_on_rs [nothrow_intros]: "nothrow m \<Longrightarrow> nothrow (on_rs m)"
  by (auto simp: nothrow_def on_rs_def split: prod.splits)

lemma nothrow_small [nothrow_intros]:
  "nothrow fill_zero" "nothrow (set_state st)" "nothrow parse_received" "nothrow (log_segment g)" "nothrow (read_clock env)"
  "nothrow (send_buffer env b)" "nothrow (send_ack env n)" "nothrow (set_timeout env ms)"
  "nothrow send_finish" "nothrow flip_data_state"
  "nothrow (on_socket us_close)" "nothrow (on_socket (us_bind env))" "nothrow (on_socket (us_connect env))"
  by (auto simp: nothrow_def fill_zero_def set_state_def parse_received_def log_segment_def read_clock_def send_buffer_eq
      send_ack_eq set_timeout_def on_socket_def send_finish_def flip_data_state_def us_close_def us_bind_def us_connect_def
      then_io_split of_option_def io_simps split: option.splits prod.splits if_splits)

lemma nothrow_rtt [nothrow_intros]: "nothrow (rtt_timeout env)" "nothrow (update_rtt env x)"
  unfolding rtt_timeout_def update_rtt_def Let_def by (rule nothrow_here, intro nothrow_intros)+

lemma nothrow_resend [nothrow_intros]: "nothrow (resend env b)" "nothrow (connect_send env b)" "nothrow (accept_ack2 env)"
    "nothrow (connect_finish env)" "nothrow (receive_start env)"
  unfolding resend_def connect_send_def accept_ack2_def connect_finish_def receive_start_def by (intro nothrow_intros)+

lemma nothrow_connect_start [nothrow_intros]: "nothrow (connect_start env)"
  unfolding connect_start_def Let_def by (rule nothrow_here, intro nothrow_intros)

text \<open>Which event makes \<open>recv\<close> raise which exception.\<close>

fun raises :: "rx_event \<Rightarrow> sock_exn \<Rightarrow> bool" where
  "raises RxAgain x \<longleftrightarrow> x = SocketTimeout"
| "raises (RxDatagram d) x \<longleftrightarrow> d = [] \<and> x = ConnectionClosed"
| "raises RxError x \<longleftrightarrow> False"

lemma receive_raises: "receive env e s = (Throw x, s') \<Longrightarrow> raises e x"
  by (cases e) (auto simp: receive_def Let_def MAX_SEG_SIZE_def split: if_splits)

lemma body_received:
  "nothrow (await_conn u (Ret n))" "nothrow (await_ack3 env u (Ret n))" "nothrow (await_ack2 u (Ret n))"
  "nothrow (await_data env a buf u (Ret n))" "nothrow (await_ack env g b t (Ret n))" "nothrow (await_quiet env u (Ret n))"
  by (auto simp: await_conn_def await_ack3_def await_ack2_def await_data_def await_ack_def await_quiet_def intro!: nothrow_intros)

lemma await_conn_throws:
  assumes "await_conn u r s = (Throw x, s')"
  shows "r = Throw x"
proof (cases r)
  case (Ret n)
  with assms nothrowD [OF body_received(1)] show ?thesis by blast
next
  case (Throw e)
  with assms show ?thesis by (cases e) (simp_all add: await_conn_def then_io_split send_ack_eq io_simps(1,2) split: if_splits)
qed (use assms in \<open>simp_all add: await_conn_def io_simps(2)\<close>)

lemma await_ack3_throws:
  assumes "await_ack3 env u r s = (Throw x, s')"
  shows "r = Throw x \<and> x = ConnectionClosed"
proof (cases r)
  case (Ret n)
  with assms nothrowD [OF body_received(2)] show ?thesis by blast
next
  case (Throw e)
  with assms show ?thesis by (cases e) (simp_all add: await_ack3_def then_io_split send_ack_eq io_simps(1,2) split: if_splits)
qed (use assms in \<open>simp_all add: await_ack3_def io_simps(2)\<close>)

lemma await_ack2_throws:
  assumes "await_ack2 u r s = (Throw x, s')"
  shows "r = Throw x \<and> x = ConnectionClosed"
proof (cases r)
  case (Ret n)
  with assms nothrowD [OF body_received(3)] show ?thesis by blast
next
  case (Throw e)
  with assms show ?thesis by (cases e) (simp_all add: await_ack2_def then_io_split send_ack_eq io_simps(1,2) split: if_splits)
qed (use assms in \<open>simp_all add: await_ack2_def io_simps(2)\<close>)

lemma await_data_throws:
  assumes "await_data env a buf u r s = (Throw x, s')"
  shows "r = Throw x \<and> x = SocketTimeout"
proof (cases r)
  case (Ret n)
  with assms nothrowD [OF body_received(4)] show ?thesis by blast
next
  case (Throw e)
  with assms show ?thesis by (cases e) (simp_all add: await_data_def then_io_split send_ack_eq io_simps(1,2) split: if_splits)
qed (use assms in \<open>simp_all add: await_data_def io_simps(2)\<close>)

lemma await_ack_throws:
  assumes "await_ack env g b t r s = (Throw x, s')"
  shows "False"
proof (cases r)
  case (Ret n)
  with assms nothrowD [OF body_received(5)] show ?thesis by blast
next
  case (Throw e)
  with assms show ?thesis by (cases e) (simp_all add: await_ack_def then_io_split send_ack_eq io_simps(1,2) split: if_splits)
qed (use assms in \<open>simp_all add: await_ack_def io_simps(2)\<close>)

lemma await_quiet_throws:
  assumes "await_quiet env u r s = (Throw x, s')"
  shows "False"
proof (cases r)
  case (Ret n)
  with assms nothrowD [OF body_received(6)] show ?thesis by blast
next
  case (Throw e)
  with assms show ?thesis by (cases e) (simp_all add: await_quiet_def then_io_split send_ack_eq io_simps(1,2) split: if_splits)
qed (use assms in \<open>simp_all add: await_quiet_def io_simps(2)\<close>)

lemma recv_loop_throws:
  assumes "recv_loop env pre body evs s = (Throw x, (evs', s'))" and pre: "nothrow pre"
  obtains used e t r s1 s2 s3 where "evs = used @ e # evs'" "receive env e s1 = (r, s2)" "body t r s2 = (Throw x, s3)"
  using assms(1)
proof (induction evs arbitrary: s thesis)
  case Nil
  then show ?case using pre by (auto simp: nothrow_def split: prod.splits outcome.splits elim: pass.elims)
next
  case (Cons e evs)
  obtain q1 s1 where p: "pre s = (q1, s1)" by fastforce
  with Cons.prems(2) pre obtain t where t: "q1 = Ret t" by (cases q1) (auto simp: nothrow_def)
  obtain r s2 where r: "receive env e s1 = (r, s2)" by fastforce
  obtain q3 s3 where b: "body t r s2 = (q3, s3)" by fastforce
  show ?case
  proof (cases "q3 = Ret None")
    case True
    with Cons.prems(2) p t r b have "recv_loop env pre body evs s3 = (Throw x, (evs', s'))" by simp
    with Cons.IH show ?thesis
      using Cons.prems(1) [of "e # _"] by (metis append_Cons)
  next
    case False
    with Cons.prems(2) p t r b have "q3 = Throw x" "evs' = evs"
      by (auto split: outcome.splits option.splits)
    with Cons.prems(1) [of "[]"] r b show ?thesis by simp
  qed
qed

lemma bind_throws:
  assumes "bind_io m f st = (Throw x, st')"
  obtains "m st = (Throw x, st')" | y st1 where "m st = (Ret y, st1)" "f y st1 = (Throw x, st')"
  using assms by (cases rule: bind_io_cases) (auto elim: pass.elims [OF sym])

lemma nothrow_then_right:
  assumes "then_io m k st = (Throw x, st')" and "nothrow m"
  obtains st1 where "m st = (Ret (), st1)" "k st1 = (Throw x, st')"
  using assms unfolding then_io_def by (elim bind_throws) (auto dest: nothrowD)

lemma loop_raises:
  assumes "recv_loop env pre body evs s = (Throw x, (evs', s'))" and "nothrow pre"
    and "\<And>t r s s'. body t r s = (Throw x, s') \<Longrightarrow> r = Throw x \<and> Q"
  shows "(\<exists>used e. evs = used @ e # evs' \<and> raises e x) \<and> Q"
proof -
  from assms(1,2) obtain used e t r s1 s2 s3 where "evs = used @ e # evs'" and r: "receive env e s1 = (r, s2)"
    and b: "body t r s2 = (Throw x, s3)" by (rule recv_loop_throws)
  moreover from assms(3) [OF b] r have "raises e x \<and> Q" by (auto dest: receive_raises)
  ultimately show ?thesis by blast
qed

lemma recv_loop_suffix:
  assumes "recv_loop env pre body evs s = (Ret x, (evs', s'))"
  shows "\<exists>used. evs = used @ evs'"
  by (rule recv_loop_exit [OF assms, of "\<lambda>_. True"]) auto

lemma nothrow_loop:
  assumes "nothrow pre" and "\<And>t r s x s'. body t r s = (Throw x, s') \<Longrightarrow> False"
  shows "nothrow (loop env pre body)"
  using assms unfolding nothrow_def
  by (auto simp: loop_def elim!: recv_loop_throws [OF _ assms(1)])

lemma nothrow_until_acked [nothrow_intros]: "nothrow (send_until_acked env g)"
  unfolding send_until_acked_def
  by (auto intro!: nothrow_intros nothrow_loop elim: await_ack_throws split: option.split)

lemma nothrow_send_close: "nothrow (send_data env data)" "nothrow (close_connection env)"
proof -
  have "nothrow (then_io (on_rs (set_state st)) (then_io (send_until_acked env g) (on_rs send_finish)))" for st g
    by (intro nothrow_intros)
  then show "nothrow (send_data env data)" by (auto simp: nothrow_def send_data_def)
  have "nothrow (loop env fill_zero (await_quiet env))"
    by (intro nothrow_loop nothrow_intros) (rule await_quiet_throws)
  then have "nothrow (then_io (if state s = WAIT_SEND then
          then_io (send_until_acked env (close_segment env s)) (on_rs (set_state CLOSED))
        else if state s = CLOSING then
          then_io (on_rs (set_timeout env 2000)) (then_io (loop env fill_zero (await_quiet env)) (on_rs (set_state CLOSED)))
        else ret ()) (on_rs (on_socket us_close)))" for s
    by (intro nothrow_intros)
  then show "nothrow (close_connection env)" by (auto simp: nothrow_def close_connection_def)
qed

text \<open>C16: \<open>send_data\<close> and \<open>close_connection\<close> never throw. An exception that leaves another call is the one
  that the last result of \<open>recv\<close> raised: a \<open>ConnectionClosed\<close> for an empty datagram in either half of the
  handshake, or a timeout where the code waits without one (for the first message of the handshake and
  for data).\<close>

theorem exceptions_escape:
  assumes "run_call env c (evs, s) = (Throw x, (evs', s'))"
  shows "(\<exists>used e. evs = used @ e # evs' \<and> raises e x)
    \<and> (case c of Connect \<Rightarrow> x = ConnectionClosed | Accept \<Rightarrow> True | Receive _ \<Rightarrow> x = SocketTimeout | _ \<Rightarrow> False)"
proof (cases c)
  case Connect
  with assms have "bind_io (on_rs (connect_start env))
      (\<lambda>buf. then_io (loop env (connect_send env buf) await_ack2) (on_rs (connect_finish env))) (evs, s) = (Throw x, (evs', s'))"
    by (auto simp: connect_to_remote_def split: if_splits)
  then obtain buf st1 where "on_rs (connect_start env) (evs, s) = (Ret buf, st1)"
    and "then_io (loop env (connect_send env buf) await_ack2) (on_rs (connect_finish env)) st1 = (Throw x, (evs', s'))"
    by (rule bind_throws) (auto dest: nothrowD [rotated] intro!: nothrow_intros)
  moreover from this(1) obtain s1 where "st1 = (evs, s1)" by (rule on_rs_RetE)
  ultimately have "recv_loop env (connect_send env buf) await_ack2 evs s1 = (Throw x, (evs', s'))"
    unfolding then_io_def by (elim bind_throws) (auto simp: loop_apply dest: nothrowD [rotated] intro!: nothrow_intros)
  from loop_raises [OF this nothrow_resend(2), of "x = ConnectionClosed"] await_ack2_throws Connect show ?thesis by auto
next
  case Accept
  with assms have "then_io (on_rs (on_socket (us_bind env))) (then_io (loop env fill_zero await_conn)
      (then_io (on_rs (accept_ack2 env)) (then_io (loop env fill_zero (await_ack3 env))
        (on_rs (set_state WAIT_DATA0))))) (evs, s) = (Throw x, (evs', s'))"
    by (auto simp: accept_connection_def split: if_splits)
  then obtain st1 where "on_rs (on_socket (us_bind env)) (evs, s) = (Ret (), st1)"
    and "then_io (loop env fill_zero await_conn) (then_io (on_rs (accept_ack2 env)) (then_io (loop env fill_zero (await_ack3 env))
        (on_rs (set_state WAIT_DATA0)))) st1 = (Throw x, (evs', s'))"
    by (rule nothrow_then_right) (intro nothrow_intros)
  moreover from this(1) obtain s1 where st1: "st1 = (evs, s1)" by (rule on_rs_RetE)
  ultimately have "bind_io (loop env fill_zero await_conn) (\<lambda>_. then_io (on_rs (accept_ack2 env))
      (then_io (loop env fill_zero (await_ack3 env)) (on_rs (set_state WAIT_DATA0)))) (evs, s1) = (Throw x, (evs', s'))"
    by (simp add: then_io_def)
  then have "\<exists>used e. evs = used @ e # evs' \<and> raises e x"
  proof (rule bind_throws)
    assume "loop env fill_zero await_conn (evs, s1) = (Throw x, (evs', s'))"
    then have loop: "recv_loop env fill_zero await_conn evs s1 = (Throw x, (evs', s'))" by (simp add: loop_apply)
    from loop_raises [OF loop nothrow_small(1), of True] await_conn_throws show ?thesis by blast
  next
    fix y st2
    assume first: "loop env fill_zero await_conn (evs, s1) = (Ret y, st2)"
      and "then_io (on_rs (accept_ack2 env)) (then_io (loop env fill_zero (await_ack3 env))
        (on_rs (set_state WAIT_DATA0))) st2 = (Throw x, (evs', s'))"
    from this(2) obtain st3 where "on_rs (accept_ack2 env) st2 = (Ret (), st3)"
      and rest: "then_io (loop env fill_zero (await_ack3 env)) (on_rs (set_state WAIT_DATA0)) st3 = (Throw x, (evs', s'))"
      by (rule nothrow_then_right) (intro nothrow_intros)
    moreover obtain evs2 s2 where st2: "st2 = (evs2, s2)" by fastforce
    ultimately obtain s3 where st3: "st3 = (evs2, s3)" by (auto elim: on_rs_RetE)
    from rest have "recv_loop env fill_zero (await_ack3 env) evs2 s3 = (Throw x, (evs', s'))"
      unfolding then_io_def st3 by (elim bind_throws) (auto simp: loop_apply dest: nothrowD [rotated] intro!: nothrow_intros)
    from loop_raises [OF this nothrow_small(1), of True] await_ack3_throws
    obtain used e where "evs2 = used @ e # evs'" "raises e x" by blast
    moreover from first st2 obtain used1 where "evs = used1 @ evs2" by (auto simp: loop_apply dest!: recv_loop_suffix)
    ultimately show ?thesis by (metis append.assoc)
  qed
  with Accept show ?thesis by simp
next
  case (Receive buffer)
  with assms have "bind_io (receive_data env buffer) (\<lambda>_. ret ()) (evs, s) = (Throw x, (evs', s'))" by simp
  then have "receive_data env buffer (evs, s) = (Throw x, (evs', s'))"
    by (rule bind_throws) (simp_all add: ret_def)
  then obtain s1 where "recv_loop env (ret ()) (await_data env (expected_seq s) buffer) evs s1 = (Throw x, (evs', s'))"
    by (auto simp: receive_data_def on_rs_apply loop_apply split: if_splits prod.splits
        elim!: nothrow_then_right [OF _ nothrow_on_rs [OF nothrow_resend(5)]])
  from loop_raises [OF this nothrow_basic(1), of "x = SocketTimeout"] await_data_throws Receive show ?thesis by auto
qed (use assms nothrow_send_close nothrowD in fastforce)+

section \<open>Witnesses\<close>

lemma demo_connect:
  "\<exists>s. connect_to_remote quiet_env ([RxDatagram [0, 2, 1, 0, 0, 0], RxAgain], ReliableSocket_new) = (Ret (), ([RxAgain], s))"
proof -
  have "(case connect_to_remote quiet_env ([RxDatagram [0, 2, 1, 0, 0, 0], RxAgain], ReliableSocket_new) of
      (r, (evs, s)) \<Rightarrow> r = Ret () \<and> evs = [RxAgain])"
    by code_simp
  then show ?thesis by (auto split: prod.splits)
qed

theorem socket_typestate_witness:
  "\<exists>s. connect_to_remote quiet_env ([RxDatagram [0, 2, 1, 0, 0, 0], RxAgain], ReliableSocket_new) = (Ret (), ([RxAgain], s))
    \<and> socket_typed s \<and> state s = WAIT_SEND"
proof -
  from demo_connect obtain s where
    run: "run_call quiet_env Connect ([RxDatagram [0, 2, 1, 0, 0, 0], RxAgain], ReliableSocket_new) = (Ret (), ([RxAgain], s))" by auto
  with socket_typestate [OF client_run.none run] show ?thesis by (auto split: if_splits)
qed

theorem exceptions_escape_witness:
  "\<exists>s used e. connect_to_remote quiet_env ([RxAgain, RxDatagram [], RxAgain], ReliableSocket_new)
      = (Throw ConnectionClosed, ([RxAgain], s)) \<and> [RxAgain, RxDatagram [], RxAgain] = used @ e # [RxAgain] \<and> raises e ConnectionClosed"
proof -
  have "(case connect_to_remote quiet_env ([RxAgain, RxDatagram [], RxAgain], ReliableSocket_new) of
      (r, (evs, s)) \<Rightarrow> r = Throw ConnectionClosed \<and> evs = [RxAgain])"
    by code_simp
  then obtain s where
    run: "run_call quiet_env Connect ([RxAgain, RxDatagram [], RxAgain], ReliableSocket_new) = (Throw ConnectionClosed, ([RxAgain], s))"
    by (auto split: prod.splits)
  from exceptions_escape [OF run] run show ?thesis by auto
qed

end
