(* ===== verification/Music_Host.thy ===== *)
theory Music_Host
  imports Net_Prelude
begin

text \<open>
  The system under the music server and the helpers of \<open>networking.cpp\<close>. The kernel is a state: what
  it took over for each socket, the epoll interest list, which sockets are non-blocking or shut down
  for writing. \<open>send_script\<close> holds the results that the coming \<open>send\<close> calls get; a result that says
  more bytes than were offered stands for all of them. Writing on a socket that the server shut down
  raises SIGPIPE, which ends the server.
\<close>

datatype music_exn = Filesystem_Error | Sigpipe | Bad_Number number_error

datatype send_result = is_Sent: Sent nat | Send_Again | Send_Error

record host =
  send_script :: "send_result list"
  sent :: "int \<Rightarrow> bytes"
  interest :: "int \<Rightarrow> u32 option"
  nonblocking :: "int set"
  wr_shut :: "int set"

type_synonym 'a host_io = "(host, music_exn, 'a) io"

definition EPOLLIN :: u32 where "EPOLLIN = 1"
definition EPOLLOUT :: u32 where "EPOLLOUT = 4"
definition EPOLLRDHUP :: u32 where "EPOLLRDHUP = 0x2000"

lemmas epoll_defs = EPOLLIN_def EPOLLOUT_def EPOLLRDHUP_def

section \<open>Sending\<close>

definition send_sys :: "int \<Rightarrow> bytes \<Rightarrow> send_result host_io" where
  "send_sys fd data = (\<lambda>h.
     if fd \<in> wr_shut h then (Throw Sigpipe, h)
     else if data = [] then (Ret (Sent 0), h)
     else case send_script h of
         [] \<Rightarrow> (Blocked, h)
       | Sent k # scr \<Rightarrow>
           let n = max 1 (min k (length data))
           in (Ret (Sent n), h\<lparr>send_script := scr, sent := (sent h)(fd := sent h fd @ take n data)\<rparr>)
       | r # scr \<Rightarrow> (Ret r, h\<lparr>send_script := scr\<rparr>))"

definition shutdown_wr :: "int \<Rightarrow> unit host_io" where
  "shutdown_wr fd = upd (\<lambda>h. h\<lparr>wr_shut := insert fd (wr_shut h)\<rparr>)"

text \<open>Closing a socket also removes it from the interest list.\<close>

definition close_fd :: "int \<Rightarrow> unit host_io" where
  "close_fd fd = upd (\<lambda>h. h\<lparr>interest := (interest h)(fd := None), nonblocking := nonblocking h - {fd},
     wr_shut := wr_shut h - {fd}\<rparr>)"

section \<open>The helpers of networking.cpp\<close>

text \<open>
  What the parameters of a run say about calls that can fail: the descriptors for which \<open>fcntl\<close>
  fails, and whether the calls that set the listening socket up do.
\<close>

record host_env =
  fcntl_fails :: "int \<Rightarrow> bool"
  reuseaddr_fails :: bool
  listen_bind_fails :: bool
  listen_fails :: bool
  epoll_create_fails :: bool
  listen_fd :: int

definition add_socket_to_epoll :: "int \<Rightarrow> u32 \<Rightarrow> unit host_io" where
  "add_socket_to_epoll fd events = (\<lambda>h.
     if interest h fd \<noteq> None then (Exit_Failure, h)
     else (Ret (), h\<lparr>interest := (interest h)(fd \<mapsto> events)\<rparr>))"

definition modify_socket_in_epoll :: "int \<Rightarrow> u32 \<Rightarrow> unit host_io" where
  "modify_socket_in_epoll fd events = (\<lambda>h.
     if interest h fd = None then (Exit_Failure, h)
     else (Ret (), h\<lparr>interest := (interest h)(fd \<mapsto> events)\<rparr>))"

definition remove_socket_from_epoll :: "int \<Rightarrow> unit host_io" where
  "remove_socket_from_epoll fd = (\<lambda>h.
     if interest h fd = None then (Exit_Failure, h)
     else (Ret (), h\<lparr>interest := (interest h)(fd := None)\<rparr>))"

definition set_non_blocking :: "host_env \<Rightarrow> int \<Rightarrow> unit host_io" where
  "set_non_blocking env fd =
     (if fcntl_fails env fd then halt Exit_Failure
      else upd (\<lambda>h. h\<lparr>nonblocking := insert fd (nonblocking h)\<rparr>))"

text \<open>\<open>None\<close> is an \<open>accept\<close> that failed.\<close>

definition accept_connection_sys :: "int option \<Rightarrow> int host_io" where
  "accept_connection_sys r = (case r of None \<Rightarrow> halt Exit_Failure | Some fd \<Rightarrow> ret fd)"

definition setup_server_socket :: "host_env \<Rightarrow> int host_io" where
  "setup_server_socket env =
     (if reuseaddr_fails env then halt Exit_Failure
      else then_io (set_non_blocking env (listen_fd env))
        (if listen_bind_fails env then halt Exit_Failure
         else if listen_fails env then halt Exit_Failure
         else ret (listen_fd env)))"

lemma send_sys_cases:
  assumes "fd \<notin> wr_shut h" and "data \<noteq> []"
  shows "send_script h = Sent k # scr \<Longrightarrow> \<exists>n. 0 < n \<and> n \<le> length data \<and> n = max 1 (min k (length data))
      \<and> send_sys fd data h =
        (Ret (Sent n), h\<lparr>send_script := scr, sent := (sent h)(fd := sent h fd @ take n data)\<rparr>)"
    and "send_script h = Send_Again # scr \<Longrightarrow> send_sys fd data h = (Ret Send_Again, h\<lparr>send_script := scr\<rparr>)"
    and "send_script h = Send_Error # scr \<Longrightarrow> send_sys fd data h = (Ret Send_Error, h\<lparr>send_script := scr\<rparr>)"
    and "send_script h = [] \<Longrightarrow> send_sys fd data h = (Blocked, h)"
  using assms by (auto simp: send_sys_def Let_def Suc_le_eq)

lemma send_sys_consumes:
  "send_sys fd data h = (Ret r, h') \<Longrightarrow> data \<noteq> [] \<Longrightarrow> length (send_script h') < length (send_script h)"
  by (auto simp: send_sys_def Let_def split: if_splits list.splits send_result.splits)

end
