(* ===== verification/Chunk_Sender.thy ===== *)
theory Chunk_Sender
  imports Music_Host Fs_Path
begin

text \<open>
  Sending in chunks (\<open>ChunkedDataSender.h\<close>, \<open>ChunkedDataSender.cpp\<close>): a sender of an array, a sender of a
  file, and the loop that drains a sender, which two methods of \<open>ConnectedClient\<close> share. The
  contract of a sender is the locale \<open>chunk_sender\<close>: every call hands the kernel the next bytes of
  what is left, and an interrupted transfer can go on where it stopped. The array sender meets it;
  the file sender only as long as no call finds the socket buffer full.
\<close>

definition CHUNK_SIZE :: nat where
  "CHUNK_SIZE = 4096"

section \<open>The two senders\<close>

record ArraySender =
  arr_data :: bytes
  curr_loc :: nat

definition ArraySender_new :: "bytes \<Rightarrow> ArraySender" where
  "ArraySender_new data = \<lparr>arr_data = data, curr_loc = 0\<rparr>"

definition array_send_next_chunk :: "int \<Rightarrow> ArraySender \<Rightarrow> (int \<times> ArraySender) host_io" where
  "array_send_next_chunk fd a =
     (let num_bytes_remaining = length (arr_data a) - curr_loc a;
          bytes_in_chunk = min num_bytes_remaining CHUNK_SIZE
      in if 0 < bytes_in_chunk then
           bind_io (send_sys fd (take bytes_in_chunk (drop (curr_loc a) (arr_data a))))
             (\<lambda>r. case r of
                 Sent n \<Rightarrow> if 0 < n then ret (int n, a\<lparr>curr_loc := curr_loc a + n\<rparr>) else halt Exit_Failure
               | Send_Again \<Rightarrow> ret (- 1, a)
               | Send_Error \<Rightarrow> halt Exit_Failure)
         else ret (0, a))"

record FileSender =
  fs_stream :: ifstream
  fs_file_size :: nat
  fs_bytes_sent :: nat

definition FileSender_new :: "bytes \<Rightarrow> FileSender" where
  "FileSender_new data = \<lparr>fs_stream = ifstream_open data, fs_file_size = length data, fs_bytes_sent = 0\<rparr>"

definition get_file_size :: "FileSender \<Rightarrow> nat" where
  "get_file_size f = fs_file_size f"

definition file_send_next_chunk :: "int \<Rightarrow> FileSender \<Rightarrow> (int \<times> FileSender) host_io" where
  "file_send_next_chunk fd f =
     (let num_bytes_remaining = fs_file_size f - fs_bytes_sent f;
          bytes_in_chunk = min num_bytes_remaining CHUNK_SIZE
      in if 0 < bytes_in_chunk then
           (case stream_read bytes_in_chunk (fs_stream f) of (file_data, s) \<Rightarrow>
             let bytes_read = int (length file_data) in
             bind_io (send_sys fd file_data)
               (\<lambda>r. case r of
                   Sent n \<Rightarrow>
                     if 0 < n then
                       ret (int n, f\<lparr>fs_bytes_sent := fs_bytes_sent f + n,
                         fs_stream := (if int n < bytes_read then stream_seek_cur (int n - bytes_read) s else s)\<rparr>)
                     else halt Exit_Failure
                 | _ \<Rightarrow> ret (- 1, f\<lparr>fs_stream := stream_seek_cur bytes_read s\<rparr>)))
         else ret (0, f))"

datatype ChunkedDataSender = Array_Sender ArraySender | File_Sender FileSender

fun send_next_chunk :: "int \<Rightarrow> ChunkedDataSender \<Rightarrow> (int \<times> ChunkedDataSender) host_io" where
  "send_next_chunk fd (Array_Sender a) =
     bind_io (array_send_next_chunk fd a) (\<lambda>(n, a'). ret (n, Array_Sender a'))"
| "send_next_chunk fd (File_Sender f) =
     bind_io (file_send_next_chunk fd f) (\<lambda>(n, f'). ret (n, File_Sender f'))"

lemma array_consumes:
  "array_send_next_chunk fd a h = (Ret (n, a'), h') \<Longrightarrow> 0 < n \<Longrightarrow> length (send_script h') < length (send_script h)"
  by (auto simp: array_send_next_chunk_def Let_def bind_io_def ret_def halt_def CHUNK_SIZE_def
      dest: send_sys_consumes split: if_splits prod.splits outcome.splits send_result.splits)

lemma file_consumes:
  "file_send_next_chunk fd f h = (Ret (n, f'), h') \<Longrightarrow> 0 < n \<Longrightarrow> length (send_script h') < length (send_script h)"
  by (auto simp: file_send_next_chunk_def Let_def bind_io_def ret_def halt_def send_sys_def
      split: if_splits prod.splits outcome.splits send_result.splits list.splits)

lemma send_next_chunk_consumes:
  "send_next_chunk fd c h = (Ret (n, c'), h') \<Longrightarrow> 0 < n \<Longrightarrow> length (send_script h') < length (send_script h)"
  by (cases c) (auto simp: bind_io_def ret_def split: prod.splits outcome.splits elim: pass.elims
      dest: array_consumes file_consumes)

text \<open>The loop of \<open>send_with_sender\<close> and \<open>resume_sending\<close>: the last result, the total, the sender.\<close>

function send_loop :: "int \<Rightarrow> ChunkedDataSender \<Rightarrow> int \<Rightarrow> host
    \<Rightarrow> (music_exn, int \<times> int \<times> ChunkedDataSender) outcome \<times> host" where
  "send_loop fd c tot h =
     (case send_next_chunk fd c h of
        (Ret (n, c'), h') \<Rightarrow> if n > 0 then send_loop fd c' (tot + n) h' else (Ret (n, tot, c'), h')
      | (q, h') \<Rightarrow> (pass q, h'))"
  by pat_completeness auto
termination
  by (relation "measure (\<lambda>(fd, c, tot, h). length (send_script h))") (auto dest: send_next_chunk_consumes [OF sym])

declare send_loop.simps [simp del]

section \<open>What sending leaves alone\<close>

text \<open>A send writes to its own socket and uses up results; the other sockets and the settings stay.\<close>

definition send_frame :: "int \<Rightarrow> host \<Rightarrow> host \<Rightarrow> bool" where
  "send_frame fd h h' \<longleftrightarrow>
     (\<exists>scr data. h' = h\<lparr>send_script := scr, sent := (sent h)(fd := sent h fd @ data)\<rparr> \<and> suffix scr (send_script h))"

lemma send_frame_refl [simp]: "send_frame fd h h"
  unfolding send_frame_def by (intro exI [of _ "send_script h"] exI [of _ "[]"]) simp

lemma send_frame_trans: "send_frame fd h h' \<Longrightarrow> send_frame fd h' h'' \<Longrightarrow> send_frame fd h h''"
  unfolding send_frame_def by (fastforce dest: suffix_order.trans)

lemma send_sys_frame:
  assumes "send_sys fd data h = (q, h')"
  shows "send_frame fd h h' \<and> q \<noteq> Undefined \<and> (fd \<notin> wr_shut h \<longrightarrow> (\<forall>e. q \<noteq> Throw e))"
proof (cases "fd \<in> wr_shut h \<or> data = [] \<or> send_script h = []")
  case True
  with assms show ?thesis by (auto simp: send_sys_def split: if_splits list.splits)
next
  case False
  then obtain r scr where scr: "send_script h = r # scr" by (cases "send_script h") auto
  have "suffix scr (send_script h)" by (simp add: scr suffix_Cons)
  moreover have "\<exists>data. h' = h\<lparr>send_script := scr, sent := (sent h)(fd := sent h fd @ data)\<rparr>"
    using assms False by (cases r) (auto simp: scr send_sys_def Let_def intro: exI [of _ "[]"])
  ultimately show ?thesis
    using assms False unfolding send_frame_def
    by (auto simp: scr send_sys_def Let_def split: send_result.splits)
qed

lemma send_next_chunk_frame:
  "send_next_chunk fd c h = (q, h') \<Longrightarrow>
     send_frame fd h h' \<and> q \<noteq> Undefined \<and> (fd \<notin> wr_shut h \<longrightarrow> (\<forall>e. q \<noteq> Throw e))"
  by (cases c) (auto simp: array_send_next_chunk_def file_send_next_chunk_def Let_def ret_def halt_def
      elim!: bind_io_cases dest!: send_sys_frame
      split: if_splits send_result.splits prod.splits)

lemma send_loop_frame:
  "send_loop fd c tot h = (q, h') \<Longrightarrow>
     send_frame fd h h' \<and> q \<noteq> Undefined \<and> (fd \<notin> wr_shut h \<longrightarrow> (\<forall>e. q \<noteq> Throw e))"
proof (induction fd c tot h rule: send_loop.induct)
  case (1 fd c tot h)
  obtain q1 h1 where step: "send_next_chunk fd c h = (q1, h1)" by fastforce
  note first = send_next_chunk_frame [OF step]
  then have shut: "wr_shut h1 = wr_shut h" by (auto simp: send_frame_def)
  show ?case
  proof (cases "\<exists>n c'. q1 = Ret (n, c') \<and> n > 0")
    case True
    then obtain n c' where q1: "q1 = Ret (n, c')" "n > 0" by blast
    with 1(2) step have "send_loop fd c' (tot + n) h1 = (q, h')" by (simp add: send_loop.simps [of fd c])
    from "1.IH" [OF step [symmetric] q1(1) refl q1(2) this] first shut show ?thesis
      using send_frame_trans by metis
  next
    case False
    with 1(2) step first show ?thesis
      by (cases q1) (auto simp: send_loop.simps [of fd c])
  qed
qed

section \<open>The contract of a sender\<close>

text \<open>
  \<open>rest\<close> is what a sender has still to send, \<open>ok\<close> says which results of \<open>send\<close> the laws cover: with
  them, a call hands over a nonempty prefix of the rest, or leaves it as it is and reports \<open>- 1\<close>, or
  reports 0 when nothing is left.
\<close>

locale chunk_sender =
  fixes wrap :: "'s \<Rightarrow> ChunkedDataSender"
    and rest :: "'s \<Rightarrow> bytes"
    and wf :: "'s \<Rightarrow> bool"
    and ok :: "send_result \<Rightarrow> bool"
  assumes finished: "wf s \<Longrightarrow> rest s = [] \<Longrightarrow> send_next_chunk fd (wrap s) h = (Ret (0, wrap s), h)"
    and chunk: "wf s \<Longrightarrow> rest s \<noteq> [] \<Longrightarrow> fd \<notin> wr_shut h \<Longrightarrow> send_script h = Sent k # scr \<Longrightarrow>
      \<exists>n s'. 0 < n \<and> n \<le> length (rest s) \<and> wf s' \<and> rest s' = drop n (rest s)
        \<and> send_next_chunk fd (wrap s) h = (Ret (int n, wrap s'),
            h\<lparr>send_script := scr, sent := (sent h)(fd := sent h fd @ take n (rest s))\<rparr>)"
    and again: "wf s \<Longrightarrow> rest s \<noteq> [] \<Longrightarrow> fd \<notin> wr_shut h \<Longrightarrow> ok Send_Again \<Longrightarrow> send_script h = Send_Again # scr \<Longrightarrow>
      send_next_chunk fd (wrap s) h = (Ret (- 1, wrap s), h\<lparr>send_script := scr\<rparr>)"
    and blocked: "wf s \<Longrightarrow> rest s \<noteq> [] \<Longrightarrow> fd \<notin> wr_shut h \<Longrightarrow> send_script h = [] \<Longrightarrow>
      \<exists>q. send_next_chunk fd (wrap s) h = (Blocked, q) \<and> sent q = sent h"
begin

lemma loop_finished:
  "wf s \<Longrightarrow> rest s = [] \<Longrightarrow> send_loop fd (wrap s) tot h = (Ret (0, tot, wrap s), h)"
  by (simp add: send_loop.simps finished)

text \<open>What a drained sender has handed over, for every script of covered results.\<close>

lemma loop_sends:
  assumes "wf s" and "fd \<notin> wr_shut h" and "list_all (\<lambda>r. ok r \<and> r \<noteq> Send_Error) (send_script h)"
    and "send_loop fd (wrap s) tot h = (q, h')"
  shows "\<exists>m scr. m \<le> length (rest s) \<and> sent h' = (sent h)(fd := sent h fd @ take m (rest s)) \<and>
    (q = Blocked \<or>
     (\<exists>s'. wf s' \<and> rest s' = drop m (rest s) \<and> h' = h\<lparr>send_script := scr, sent := sent h'\<rparr> \<and>
       (rest s' = [] \<and> q = Ret (0, tot + int m, wrap s')
        \<or> rest s' \<noteq> [] \<and> ok Send_Again \<and> q = Ret (- 1, tot + int m, wrap s'))))"
  using assms
proof (induction "send_script h" arbitrary: s h tot)
  case Nil
  show ?case
  proof (cases "rest s = []")
    case True
    with Nil loop_finished [OF Nil.prems(1)] show ?thesis
      by (intro exI [of _ 0] exI [of _ "send_script h"]) auto
  next
    case False
    with Nil blocked [OF Nil.prems(1) False Nil.prems(2)] show ?thesis
      by (intro exI [of _ 0]) (auto simp: send_loop.simps)
  qed
next
  case (Cons r scr)
  show ?case
  proof (cases "rest s = []")
    case True
    with Cons.prems loop_finished [OF Cons.prems(1)] show ?thesis
      by (intro exI [of _ 0] exI [of _ "send_script h"]) auto
  next
    case False
    from Cons.prems(3) have r: "ok r" "r \<noteq> Send_Error" and scr: "list_all (\<lambda>r. ok r \<and> r \<noteq> Send_Error) scr"
      unfolding Cons.hyps(2) [symmetric] by simp_all
    show ?thesis
    proof (cases r)
      case (Sent k)
      from Sent Cons.hyps(2) have "send_script h = Sent k # scr" by simp
      from chunk [OF Cons.prems(1) False Cons.prems(2) this] obtain n s1 where
        n: "0 < n" "n \<le> length (rest s)" "wf s1" "rest s1 = drop n (rest s)"
        and step: "send_next_chunk fd (wrap s) h = (Ret (int n, wrap s1),
            h\<lparr>send_script := scr, sent := (sent h)(fd := sent h fd @ take n (rest s))\<rparr>)"
        by blast
      let ?h = "h\<lparr>send_script := scr, sent := (sent h)(fd := sent h fd @ take n (rest s))\<rparr>"
      have run: "send_loop fd (wrap s1) (tot + int n) ?h = (q, h')"
        using Cons.prems(4) step n(1) by (simp add: send_loop.simps [of fd "wrap s"])
      have "\<exists>m scr'. m \<le> length (rest s1) \<and> sent h' = (sent ?h)(fd := sent ?h fd @ take m (rest s1)) \<and>
        (q = Blocked \<or>
         (\<exists>s'. wf s' \<and> rest s' = drop m (rest s1) \<and> h' = ?h\<lparr>send_script := scr', sent := sent h'\<rparr> \<and>
           (rest s' = [] \<and> q = Ret (0, tot + int n + int m, wrap s')
            \<or> rest s' \<noteq> [] \<and> ok Send_Again \<and> q = Ret (- 1, tot + int n + int m, wrap s'))))"
        by (rule Cons.hyps(1)) (use n(3) Cons.prems(2) scr run in simp_all)
      then obtain m scr' where m: "m \<le> length (rest s1)"
        "sent h' = (sent ?h)(fd := sent ?h fd @ take m (rest s1))"
        "q = Blocked \<or> (\<exists>s'. wf s' \<and> rest s' = drop m (rest s1) \<and> h' = ?h\<lparr>send_script := scr', sent := sent h'\<rparr> \<and>
           (rest s' = [] \<and> q = Ret (0, tot + int n + int m, wrap s')
            \<or> rest s' \<noteq> [] \<and> ok Send_Again \<and> q = Ret (- 1, tot + int n + int m, wrap s')))"
        by (elim exE conjE) (rule that)
      have sent: "n + m \<le> length (rest s)" "sent h' = (sent h)(fd := sent h fd @ take (n + m) (rest s))"
        using n(2,4) m(1,2) by (simp_all add: take_add)
      have shift: "drop m (rest s1) = drop (n + m) (rest s)" "tot + int n + int m = tot + int (n + m)"
        using n(4) by (simp_all add: add.commute)
      have host: "?h\<lparr>send_script := scr', sent := sent h'\<rparr> = h\<lparr>send_script := scr', sent := sent h'\<rparr>"
        by simp
      from m(3) [unfolded shift host] sent show ?thesis by blast
    next
      case Send_Again
      with r Cons.hyps(2) have a: "ok Send_Again" "send_script h = Send_Again # scr" by simp_all
      from again [OF Cons.prems(1) False Cons.prems(2) a] Cons.prems(4)
      have "q = Ret (- 1, tot, wrap s)" "h' = h\<lparr>send_script := scr\<rparr>"
        by (simp_all add: send_loop.simps [of fd "wrap s"])
      with Cons.prems(1) False a(1) show ?thesis
        by (intro exI [of _ 0] exI [of _ scr]) (auto intro: exI [of _ s])
    qed (use r in simp)
  qed
qed

text \<open>With a kernel that takes something over at each call, as many calls as there are bytes are enough.\<close>

lemma loop_drains:
  assumes "wf s" and "fd \<notin> wr_shut h" and "list_all is_Sent (send_script h)" and "length (rest s) \<le> length (send_script h)"
  shows "\<exists>s' pre scr. wf s' \<and> rest s' = [] \<and> send_script h = pre @ scr \<and> length pre \<le> length (rest s) \<and>
    send_loop fd (wrap s) tot h = (Ret (0, tot + int (length (rest s)), wrap s'),
      h\<lparr>send_script := scr, sent := (sent h)(fd := sent h fd @ rest s)\<rparr>)"
  using assms
proof (induction "send_script h" arbitrary: s h tot)
  case Nil
  then show ?case
    using loop_finished [of s fd tot h] by (intro exI [of _ s] exI [of _ "[]"]) auto
next
  case (Cons r scr)
  show ?case
  proof (cases "rest s = []")
    case True
    with Cons.prems show ?thesis
      using loop_finished [of s fd tot h]
      by (intro exI [of _ s] exI [of _ "[]"] exI [of _ "send_script h"]) auto
  next
    case False
    from Cons.prems(3) obtain k where "send_script h = Sent k # scr" and scr: "list_all is_Sent scr"
      unfolding Cons.hyps(2) [symmetric] by (auto simp: is_Sent_def)
    from chunk [OF Cons.prems(1) False Cons.prems(2) this(1)] obtain n s1 where
      n: "0 < n" "n \<le> length (rest s)" "wf s1" "rest s1 = drop n (rest s)"
      and step: "send_next_chunk fd (wrap s) h = (Ret (int n, wrap s1),
          h\<lparr>send_script := scr, sent := (sent h)(fd := sent h fd @ take n (rest s))\<rparr>)"
      by blast
    let ?h = "h\<lparr>send_script := scr, sent := (sent h)(fd := sent h fd @ take n (rest s))\<rparr>"
    have len: "length (rest s1) \<le> length (send_script ?h)"
      using Cons.prems(4) n unfolding Cons.hyps(2) [symmetric] by simp
    have "\<exists>s' pre scr'. wf s' \<and> rest s' = [] \<and> send_script ?h = pre @ scr' \<and> length pre \<le> length (rest s1) \<and>
        send_loop fd (wrap s1) (tot + int n) ?h = (Ret (0, tot + int n + int (length (rest s1)), wrap s'),
          ?h\<lparr>send_script := scr', sent := (sent ?h)(fd := sent ?h fd @ rest s1)\<rparr>)"
      by (rule Cons.hyps(1)) (use n(3) Cons.prems(2) scr len in simp_all)
    then obtain s' pre scr' where s': "wf s'" "rest s' = []" "scr = pre @ scr'" "length pre \<le> length (rest s1)"
      and run: "send_loop fd (wrap s1) (tot + int n) ?h = (Ret (0, tot + int n + int (length (rest s1)), wrap s'),
        ?h\<lparr>send_script := scr', sent := (sent ?h)(fd := sent ?h fd @ rest s1)\<rparr>)"
      by (elim exE conjE) (rule that, simp_all)
    have "send_loop fd (wrap s) tot h = (Ret (0, tot + int (length (rest s)), wrap s'),
        h\<lparr>send_script := scr', sent := (sent h)(fd := sent h fd @ rest s)\<rparr>)"
      using step run n by (simp add: send_loop.simps [of fd "wrap s"])
    moreover have "send_script h = (r # pre) @ scr'" "length (r # pre) \<le> length (rest s)"
      using s' n Cons.hyps(2) by auto
    ultimately show ?thesis using s'(1,2) by blast
  qed
qed

end

section \<open>The array sender meets it\<close>

definition array_rest :: "ArraySender \<Rightarrow> bytes" where
  "array_rest a = drop (curr_loc a) (arr_data a)"

definition array_ok :: "ArraySender \<Rightarrow> bool" where
  "array_ok a \<longleftrightarrow> curr_loc a \<le> length (arr_data a)"

definition array_after :: "ArraySender \<Rightarrow> send_result \<Rightarrow> (int \<times> ArraySender) host_io" where
  "array_after a r = (case r of
      Sent n \<Rightarrow> if 0 < n then ret (int n, a\<lparr>curr_loc := curr_loc a + n\<rparr>) else halt Exit_Failure
    | Send_Again \<Rightarrow> ret (- 1, a)
    | Send_Error \<Rightarrow> halt Exit_Failure)"

lemma array_call:
  assumes "array_rest a \<noteq> []"
  obtains n where "take n (array_rest a) \<noteq> []" "n \<le> length (array_rest a)"
    "\<And>fd. array_send_next_chunk fd a = bind_io (send_sys fd (take n (array_rest a))) (array_after a)"
proof
  let ?n = "min (length (array_rest a)) CHUNK_SIZE"
  show "take ?n (array_rest a) \<noteq> []" using assms by (simp add: CHUNK_SIZE_def)
  show "array_send_next_chunk fd a = bind_io (send_sys fd (take ?n (array_rest a))) (array_after a)" for fd
    using assms by (auto simp: array_send_next_chunk_def Let_def array_rest_def CHUNK_SIZE_def array_after_def [abs_def])
qed simp

interpretation array_sender: chunk_sender Array_Sender array_rest array_ok "\<lambda>_. True"
proof unfold_locales
  fix a fd and h :: host
  assume "array_ok a" "array_rest a = []"
  then show "send_next_chunk fd (Array_Sender a) h = (Ret (0, Array_Sender a), h)"
    by (simp add: array_rest_def array_ok_def array_send_next_chunk_def bind_io_def ret_def)
next
  fix a fd scr k and h :: host
  assume a: "array_ok a" "array_rest a \<noteq> []" and fd: "fd \<notin> wr_shut h" and scr: "send_script h = Sent k # scr"
  obtain n where ne: "take n (array_rest a) \<noteq> []" and n: "n \<le> length (array_rest a)"
    and call: "\<And>fd. array_send_next_chunk fd a = bind_io (send_sys fd (take n (array_rest a))) (array_after a)"
    using array_call [OF a(2)] by blast
  from send_sys_cases(1) [OF fd ne scr] obtain m where m: "0 < m" "m \<le> length (take n (array_rest a))"
    "send_sys fd (take n (array_rest a)) h = (Ret (Sent m), h\<lparr>send_script := scr,
       sent := (sent h)(fd := sent h fd @ take m (take n (array_rest a)))\<rparr>)" by blast
  have mn: "m \<le> n" using m(2) by simp
  with m have "send_next_chunk fd (Array_Sender a) h = (Ret (int m, Array_Sender (a\<lparr>curr_loc := curr_loc a + m\<rparr>)),
      h\<lparr>send_script := scr, sent := (sent h)(fd := sent h fd @ take m (array_rest a))\<rparr>)"
    using mn by (simp add: call bind_io_def ret_def min_absorb1 array_after_def)
  moreover have "array_ok (a\<lparr>curr_loc := curr_loc a + m\<rparr>)" "array_rest (a\<lparr>curr_loc := curr_loc a + m\<rparr>) = drop m (array_rest a)"
    using a(1) m(2) n by (auto simp: array_ok_def array_rest_def add.commute)
  ultimately show "\<exists>n s'. 0 < n \<and> n \<le> length (array_rest a) \<and> array_ok s' \<and> array_rest s' = drop n (array_rest a)
      \<and> send_next_chunk fd (Array_Sender a) h = (Ret (int n, Array_Sender s'),
          h\<lparr>send_script := scr, sent := (sent h)(fd := sent h fd @ take n (array_rest a))\<rparr>)"
    using m(1,2) n by (intro exI [of _ m] exI [of _ "a\<lparr>curr_loc := curr_loc a + m\<rparr>"]) auto
next
  fix a fd scr and h :: host
  assume a: "array_ok a" "array_rest a \<noteq> []" and fd: "fd \<notin> wr_shut h" and scr: "send_script h = Send_Again # scr"
  obtain n where n: "take n (array_rest a) \<noteq> []"
    and call: "\<And>fd. array_send_next_chunk fd a = bind_io (send_sys fd (take n (array_rest a))) (array_after a)"
    using array_call [OF a(2)] by blast
  from send_sys_cases(2) [OF fd n scr]
  show "send_next_chunk fd (Array_Sender a) h = (Ret (- 1, Array_Sender a), h\<lparr>send_script := scr\<rparr>)"
    by (simp add: call bind_io_def ret_def array_after_def)
next
  fix a fd and h :: host
  assume a: "array_ok a" "array_rest a \<noteq> []" and fd: "fd \<notin> wr_shut h" and scr: "send_script h = []"
  obtain n where n: "take n (array_rest a) \<noteq> []"
    and call: "\<And>fd. array_send_next_chunk fd a = bind_io (send_sys fd (take n (array_rest a))) (array_after a)"
    using array_call [OF a(2)] by blast
  from send_sys_cases(4) [OF fd n scr]
  show "\<exists>q. send_next_chunk fd (Array_Sender a) h = (Blocked, q) \<and> sent q = sent h"
    by (simp add: call bind_io_def)
qed

section \<open>The file sender, and what a full buffer does to it\<close>

definition file_rest :: "FileSender \<Rightarrow> bytes" where
  "file_rest f = drop (fs_bytes_sent f) (f_bytes (fs_stream f))"

text \<open>The stream stands at the first byte that was not sent.\<close>

definition file_ok :: "FileSender \<Rightarrow> bool" where
  "file_ok f \<longleftrightarrow> \<not> f_eof (fs_stream f) \<and> \<not> f_fail (fs_stream f)
     \<and> f_pos (fs_stream f) = int (fs_bytes_sent f) \<and> fs_bytes_sent f \<le> length (f_bytes (fs_stream f))
     \<and> fs_file_size f = length (f_bytes (fs_stream f))"

definition file_chunk :: "FileSender \<Rightarrow> nat" where
  "file_chunk f = min (length (file_rest f)) CHUNK_SIZE"

definition read_stream :: "FileSender \<Rightarrow> ifstream" where
  "read_stream f = (fs_stream f)\<lparr>f_pos := int (fs_bytes_sent f + file_chunk f)\<rparr>"

definition file_after :: "FileSender \<Rightarrow> send_result \<Rightarrow> (int \<times> FileSender) host_io" where
  "file_after f r = (case r of
      Sent n \<Rightarrow>
        if 0 < n then
          ret (int n, f\<lparr>fs_bytes_sent := fs_bytes_sent f + n,
            fs_stream := (if n < file_chunk f then stream_seek_cur (int n - int (file_chunk f)) (read_stream f)
                          else read_stream f)\<rparr>)
        else halt Exit_Failure
    | _ \<Rightarrow> ret (- 1, f\<lparr>fs_stream := stream_seek_cur (int (file_chunk f)) (read_stream f)\<rparr>))"

lemma file_call:
  assumes "file_ok f" and "file_rest f \<noteq> []"
  shows "file_send_next_chunk fd f = bind_io (send_sys fd (take (file_chunk f) (file_rest f))) (file_after f)"
    and "take (file_chunk f) (file_rest f) \<noteq> []"
proof -
  let ?n = "file_chunk f"
  have n: "0 < ?n" "?n \<le> length (file_rest f)" using assms(2) by (simp_all add: file_chunk_def CHUNK_SIZE_def)
  have size: "min (fs_file_size f - fs_bytes_sent f) CHUNK_SIZE = ?n"
    using assms(1) by (simp add: file_chunk_def file_rest_def file_ok_def)
  have got: "take ?n (drop (nat (f_pos (fs_stream f))) (f_bytes (fs_stream f))) = take ?n (file_rest f)"
    using assms(1) by (simp add: file_rest_def file_ok_def)
  have len: "length (take ?n (file_rest f)) = ?n" using n(2) by simp
  have read: "stream_read ?n (fs_stream f) = (take ?n (file_rest f), read_stream f)"
    using assms(1) unfolding stream_read_def Let_def got len
    by (simp add: file_ok_def read_stream_def)
  show "file_send_next_chunk fd f = bind_io (send_sys fd (take ?n (file_rest f))) (file_after f)"
    using n(1) unfolding file_send_next_chunk_def Let_def size read prod.case len of_nat_less_iff
    by (simp add: file_after_def [abs_def])
  show "take ?n (file_rest f) \<noteq> []" using assms(2) n(1) by auto
qed

lemma file_sends:
  assumes "file_ok f" and "file_rest f \<noteq> []" and "fd \<notin> wr_shut h" and "send_script h = Sent k # scr"
  shows "\<exists>n s'. 0 < n \<and> n \<le> length (file_rest f) \<and> file_ok s' \<and> file_rest s' = drop n (file_rest f)
      \<and> send_next_chunk fd (File_Sender f) h = (Ret (int n, File_Sender s'),
          h\<lparr>send_script := scr, sent := (sent h)(fd := sent h fd @ take n (file_rest f))\<rparr>)"
proof -
  let ?c = "file_chunk f"
  note call = file_call [OF assms(1,2)]
  from send_sys_cases(1) [OF assms(3) call(2) assms(4)] obtain m where
    m: "0 < m" "m \<le> length (take ?c (file_rest f))" "send_sys fd (take ?c (file_rest f)) h =
      (Ret (Sent m), h\<lparr>send_script := scr, sent := (sent h)(fd := sent h fd @ take m (take ?c (file_rest f)))\<rparr>)"
    by blast
  have c: "?c \<le> length (file_rest f)" by (simp add: file_chunk_def)
  with m(2) have mc: "m \<le> ?c" by simp
  let ?f = "f\<lparr>fs_bytes_sent := fs_bytes_sent f + m,
      fs_stream := (if m < ?c then stream_seek_cur (int m - int ?c) (read_stream f) else read_stream f)\<rparr>"
  have "send_next_chunk fd (File_Sender f) h = (Ret (int m, File_Sender ?f),
      h\<lparr>send_script := scr, sent := (sent h)(fd := sent h fd @ take m (file_rest f))\<rparr>)"
    using m(1,3) mc by (simp add: call(1) bind_io_def ret_def file_after_def min_absorb1)
  moreover have "file_rest ?f = drop m (file_rest f)"
    by (simp add: file_rest_def stream_seek_cur_def Let_def read_stream_def add.commute)
  moreover have "file_ok ?f"
    using assms(1) mc c by (auto simp: file_ok_def stream_seek_cur_def Let_def read_stream_def file_rest_def)
  ultimately show ?thesis
    using m(1) mc c by (intro exI [of _ m] exI [of _ ?f]) auto
qed

lemma file_blocks:
  assumes "file_ok f" and "file_rest f \<noteq> []" and "fd \<notin> wr_shut h"
  shows "send_script h = [] \<Longrightarrow> \<exists>q. send_next_chunk fd (File_Sender f) h = (Blocked, q) \<and> sent q = sent h"
    and "send_script h = Send_Again # scr \<Longrightarrow> send_next_chunk fd (File_Sender f) h =
      (Ret (- 1, File_Sender (f\<lparr>fs_stream := stream_seek_cur (int (file_chunk f)) (read_stream f)\<rparr>)), h\<lparr>send_script := scr\<rparr>)"
  using file_call [OF assms(1,2)] send_sys_cases(2,4) [OF assms(3)]
  by (simp_all add: bind_io_def ret_def file_after_def)

interpretation file_sender: chunk_sender File_Sender file_rest file_ok "\<lambda>r. r \<noteq> Send_Again"
proof unfold_locales
  fix f fd and h :: host
  assume "file_ok f" "file_rest f = []"
  then show "send_next_chunk fd (File_Sender f) h = (Ret (0, File_Sender f), h)"
    by (simp add: file_rest_def file_ok_def file_send_next_chunk_def Let_def bind_io_def ret_def)
qed (use file_sends file_blocks(1) in \<open>simp_all\<close>)

section \<open>Counting, for both senders\<close>

text \<open>
  The number of bytes a sender takes itself to have left. By this count a loop ends with 0 exactly if
  it has handed over all that was left, for a file sender too (whose bytes may be the wrong ones).
\<close>

fun unsent :: "ChunkedDataSender \<Rightarrow> nat" where
  "unsent (Array_Sender a) = length (arr_data a) - curr_loc a"
| "unsent (File_Sender f) = fs_file_size f - fs_bytes_sent f"

fun array_takes :: "ChunkedDataSender \<Rightarrow> bytes \<Rightarrow> ChunkedDataSender \<Rightarrow> bool" where
  "array_takes (Array_Sender a) data s' \<longleftrightarrow> (\<exists>a'. s' = Array_Sender a' \<and> array_rest a = data @ array_rest a')"
| "array_takes (File_Sender f) data s' \<longleftrightarrow> True"

definition handed :: "int \<Rightarrow> bytes \<Rightarrow> host \<Rightarrow> host \<Rightarrow> bool" where
  "handed fd data h h' \<longleftrightarrow> (\<exists>scr. h' = h\<lparr>send_script := scr, sent := (sent h)(fd := sent h fd @ data)\<rparr>)"

lemma handed_refl: "handed fd [] h h"
  unfolding handed_def by (intro exI [of _ "send_script h"]) simp

lemma handed_trans: "handed fd d h h' \<Longrightarrow> handed fd e h' h'' \<Longrightarrow> handed fd (d @ e) h h''"
  by (auto simp: handed_def)

lemma send_sys_handed:
  assumes "send_sys fd data h = (Ret r, h')"
  obtains n where "r = Sent n" "n \<le> length data" "0 < n \<or> data = []" "handed fd (take n data) h h'"
  | "\<And>n. r \<noteq> Sent n" "data \<noteq> []" "handed fd [] h h'"
proof (cases "data = []")
  case True
  with assms that(1) [of 0] handed_refl show thesis by (auto simp: send_sys_def split: if_splits)
next
  case False
  with assms obtain q scr where scr: "send_script h = q # scr" "fd \<notin> wr_shut h"
    by (auto simp: send_sys_def split: if_splits list.splits)
  show thesis
  proof (cases q)
    case (Sent k)
    let ?n = "max 1 (min k (length data))"
    have "r = Sent ?n" "h' = h\<lparr>send_script := scr, sent := (sent h)(fd := sent h fd @ take ?n data)\<rparr>"
      using assms False scr Sent by (simp_all add: send_sys_def Let_def)
    moreover from this(2) have "handed fd (take ?n data) h h'" unfolding handed_def by blast
    moreover have "?n \<le> length data" using False by (simp add: Suc_le_eq)
    ultimately show thesis by (intro that(1) [of ?n]) auto
  qed (use assms False scr that(2) in \<open>auto simp: send_sys_def handed_def\<close>)
qed

lemma stream_read_length: "stream_read n f = (data, f') \<Longrightarrow> length data \<le> n"
  by (auto simp: stream_read_def Let_def split: if_splits)

lemma chunk_counts:
  assumes "send_next_chunk fd s h = (Ret (n, s'), h')"
  obtains (some) data where "n = int (length data)" "data \<noteq> []" "unsent s = length data + unsent s'"
      "handed fd data h h'" "array_takes s data s'"
  | (none) "n = 0" "s' = s" "h' = h" "unsent s = 0"
  | (full) "n = - 1" "unsent s' = unsent s" "0 < unsent s" "handed fd [] h h'" "array_takes s [] s'"
proof (cases s)
  case (Array_Sender a)
  let ?c = "min (length (arr_data a) - curr_loc a) CHUNK_SIZE"
  let ?d = "take ?c (drop (curr_loc a) (arr_data a))"
  show thesis
  proof (cases "0 < ?c")
    case False
    with assms Array_Sender show thesis
      by (intro none) (auto simp: array_send_next_chunk_def Let_def bind_io_def ret_def CHUNK_SIZE_def)
  next
    case True
    with assms Array_Sender obtain r h1 where r: "send_sys fd ?d h = (Ret r, h1)"
      by (auto simp: array_send_next_chunk_def Let_def elim!: bind_io_RetE)
    from r show thesis
    proof (cases rule: send_sys_handed)
      case (1 m)
      with True have m: "0 < m" "m \<le> ?c" by auto
      then have "array_rest a = take m ?d @ drop (curr_loc a + m) (arr_data a)"
        by (simp add: array_rest_def min_absorb1 add.commute flip: drop_drop)
      with assms Array_Sender True r 1 m show thesis
        by (intro some [of "take m ?d"])
          (auto simp: array_send_next_chunk_def Let_def bind_io_def ret_def array_rest_def min_absorb1)
    next
      case 2
      with assms Array_Sender True r show thesis
        by (intro full) (auto simp: array_send_next_chunk_def Let_def bind_io_def ret_def halt_def split: send_result.splits)
    qed
  qed
next
  case (File_Sender f)
  let ?c = "min (fs_file_size f - fs_bytes_sent f) CHUNK_SIZE"
  obtain data st where read: "stream_read ?c (fs_stream f) = (data, st)" by fastforce
  note len = stream_read_length [OF read]
  show thesis
  proof (cases "0 < ?c")
    case False
    with assms File_Sender show thesis
      by (intro none) (auto simp: file_send_next_chunk_def Let_def bind_io_def ret_def CHUNK_SIZE_def)
  next
    case True
    with assms File_Sender read obtain r h1 where r: "send_sys fd data h = (Ret r, h1)"
      by (auto simp: file_send_next_chunk_def Let_def elim!: bind_io_RetE)
    from r show thesis
    proof (cases rule: send_sys_handed)
      case (1 m)
      with assms File_Sender True read r len show thesis
        by (intro some [of "take m data"])
          (auto simp: file_send_next_chunk_def Let_def bind_io_def ret_def halt_def min_absorb1 split: if_splits)
    next
      case 2
      with assms File_Sender True read r show thesis
        by (intro full) (auto simp: file_send_next_chunk_def Let_def bind_io_def ret_def split: send_result.splits)
    qed
  qed
qed

lemma array_takes_trans:
  "array_takes s d s1 \<Longrightarrow> array_takes s1 e s2 \<Longrightarrow> array_takes s (d @ e) s2"
  by (cases s) auto

lemma array_takes_refl: "array_takes s [] s"
  by (cases s) auto

lemma loop_counts:
  "send_loop fd s tot h = (Ret (n, t, s'), h') \<Longrightarrow> \<exists>data. handed fd data h h' \<and> unsent s = length data + unsent s'
     \<and> array_takes s data s' \<and> (n = 0 \<and> unsent s' = 0 \<or> n = - 1 \<and> 0 < unsent s')"
proof (induction fd s tot h rule: send_loop.induct)
  case (1 fd s tot h)
  obtain q h1 where step: "send_next_chunk fd s h = (q, h1)" by fastforce
  with 1(2) obtain k s1 where q: "q = Ret (k, s1)"
    by (cases q) (auto simp: send_loop.simps [of fd s])
  from step [unfolded q] show ?case
  proof (cases rule: chunk_counts)
    case (some data)
    then have k: "0 < k" by simp
    with 1(2) step q have "send_loop fd s1 (tot + k) h1 = (Ret (n, t, s'), h')" by (simp add: send_loop.simps [of fd s])
    from "1.IH" [OF step [symmetric] q refl k this] obtain rest where rest: "handed fd rest h1 h'"
      "unsent s1 = length rest + unsent s'" "array_takes s1 rest s'" "n = 0 \<and> unsent s' = 0 \<or> n = - 1 \<and> 0 < unsent s'" by blast
    with some show ?thesis
      by (intro exI [of _ "data @ rest"]) (simp add: handed_trans array_takes_trans)
  next
    case none
    with 1(2) step q have "n = 0" "s' = s" "h' = h" by (simp_all add: send_loop.simps [of fd s])
    with none show ?thesis by (intro exI [of _ "[]"]) (simp add: handed_refl array_takes_refl)
  next
    case full
    with 1(2) step q have "n = - 1" "s' = s1" "h' = h1" by (simp_all add: send_loop.simps [of fd s])
    with full show ?thesis by (intro exI [of _ "[]"]) simp
  qed
qed

lemma loop_none: "unsent s = 0 \<Longrightarrow> send_loop fd s tot h = (Ret (0, tot, s), h)"
  by (cases s) (simp_all add: send_loop.simps array_send_next_chunk_def file_send_next_chunk_def Let_def bind_io_def ret_def)

section \<open>Transfers\<close>

text \<open>C24: However the socket takes an array over (in pieces of any size, with the buffer
  full in between), what was handed over is a prefix of the array and the sender still holds
  exactly the rest, from which a later call goes on; the loop reports 0 only when all is sent.\<close>

theorem array_transfer:
  assumes "array_ok a" and "fd \<notin> wr_shut h" and "list_all (\<lambda>r. r \<noteq> Send_Error) (send_script h)"
    and "send_loop fd (Array_Sender a) 0 h = (Ret (n, t, c), h')"
  shows "\<exists>a'. c = Array_Sender a' \<and> array_ok a' \<and> sent h' fd @ array_rest a' = sent h fd @ array_rest a
    \<and> t = int (length (array_rest a)) - int (length (array_rest a'))
    \<and> (n = 0 \<and> array_rest a' = [] \<or> n = - 1)"
  using array_sender.loop_sends [OF assms(1,2) _ assms(4)] assms(3) by fastforce

theorem array_transfer_witness:
  "\<exists>a'. array_ok a' \<and> sent \<lparr>send_script = [], sent = (\<lambda>_. [])(4 := [1, 2]), interest = \<lambda>_. None,
      nonblocking = {}, wr_shut = {}\<rparr> 4 @ array_rest a' = [1, 2, 3]"
proof -
  let ?h = "\<lparr>send_script = [Sent 2, Send_Again], sent = \<lambda>_. [], interest = \<lambda>_. None, nonblocking = {}, wr_shut = {}\<rparr>"
  have run: "send_loop 4 (Array_Sender (ArraySender_new [1, 2, 3])) 0 ?h =
      (Ret (- 1, 2, Array_Sender \<lparr>arr_data = [1, 2, 3], curr_loc = 2\<rparr>),
       ?h\<lparr>send_script := [], sent := (\<lambda>_. [])(4 := [1, 2])\<rparr>)"
    by (simp add: send_loop.simps array_send_next_chunk_def Let_def bind_io_def ret_def send_sys_def
        ArraySender_new_def CHUNK_SIZE_def numeral_eq_Suc)
  have "array_ok (ArraySender_new [1, 2, 3])" by (simp add: array_ok_def ArraySender_new_def)
  from array_transfer [OF this _ _ run] show ?thesis
    by (auto simp: array_rest_def ArraySender_new_def)
qed

text \<open>C25: As long as the socket buffer is never full, the file sender hands over the whole
  file in order, whatever the sizes of the pieces, and reports the end.\<close>

theorem file_transfer:
  assumes "fd \<notin> wr_shut h" and "list_all is_Sent (send_script h)" and "length content \<le> length (send_script h)"
  shows "\<exists>f h'. send_loop fd (File_Sender (FileSender_new content)) 0 h = (Ret (0, int (length content), File_Sender f), h')
    \<and> fs_bytes_sent f = get_file_size f \<and> sent h' = (sent h)(fd := sent h fd @ content)"
proof -
  have new: "file_ok (FileSender_new content)" "file_rest (FileSender_new content) = content"
    by (simp_all add: file_ok_def FileSender_new_def ifstream_open_def file_rest_def)
  from file_sender.loop_drains [OF new(1) assms(1,2), unfolded new(2), OF assms(3), of 0]
  obtain f scr where "file_ok f" "file_rest f = []" and run: "send_loop fd (File_Sender (FileSender_new content)) 0 h =
      (Ret (0, 0 + int (length content), File_Sender f), h\<lparr>send_script := scr, sent := (sent h)(fd := sent h fd @ content)\<rparr>)"
    by blast
  then have "fs_bytes_sent f = get_file_size f" by (simp add: file_ok_def file_rest_def get_file_size_def)
  then show ?thesis unfolding run by simp
qed

theorem file_transfer_witness:
  "\<exists>f h'. send_loop 4 (File_Sender (FileSender_new [1, 2, 3])) 0
      \<lparr>send_script = [Sent 2, Sent 1, Sent 1], sent = \<lambda>_. [], interest = \<lambda>_. None, nonblocking = {}, wr_shut = {}\<rparr>
    = (Ret (0, 3, File_Sender f), h') \<and> sent h' = (\<lambda>_. [])(4 := [1, 2, 3])"
  using file_transfer [of 4 "\<lparr>send_script = [Sent 2, Sent 1, Sent 1], sent = \<lambda>_. [], interest = \<lambda>_. None,
    nonblocking = {}, wr_shut = {}\<rparr>" "[1, 2, 3]"] by (fastforce simp: is_Sent_def)

text \<open>C26: If the socket buffer is full when a file sender has a chunk ready, the sender seeks
  forward where it should seek back: the next call offers the bytes two chunks further on, and
  where fewer than that are left it ends the server.\<close>

theorem file_full_buffer:
  assumes "file_ok f" and "file_rest f \<noteq> []" and "fd \<notin> wr_shut h" and "send_script h = Send_Again # Sent k # scr"
  shows "\<exists>f' h'. send_next_chunk fd (File_Sender f) h = (Ret (- 1, File_Sender f'), h')
    \<and> (if 2 * file_chunk f < length (file_rest f)
       then \<exists>j r. 0 < j \<and> send_next_chunk fd (File_Sender f') h' = (Ret (int j, r),
         h\<lparr>send_script := scr, sent := (sent h)(fd := sent h fd @ take j (drop (2 * file_chunk f) (file_rest f)))\<rparr>)
       else send_next_chunk fd (File_Sender f') h' = (Exit_Failure, h'))"
proof -
  let ?c = "file_chunk f" and ?h = "h\<lparr>send_script := Sent k # scr\<rparr>"
  let ?s = "stream_seek_cur (int ?c) (read_stream f)"
  let ?f = "f\<lparr>fs_stream := ?s\<rparr>"
  have first: "send_next_chunk fd (File_Sender f) h = (Ret (- 1, File_Sender ?f), ?h)"
    using file_blocks(2) [OF assms] .
  have c: "0 < ?c" "?c = min (length (file_rest f)) CHUNK_SIZE"
    using assms(2) by (simp_all add: file_chunk_def CHUNK_SIZE_def)
  have size: "min (fs_file_size ?f - fs_bytes_sent ?f) CHUNK_SIZE = ?c"
    using assms(1) by (simp add: file_chunk_def file_rest_def file_ok_def)
  have s: "\<not> f_eof ?s" "\<not> f_fail ?s" "f_pos ?s = int (fs_bytes_sent f + 2 * ?c)" "f_bytes ?s = f_bytes (fs_stream f)"
    using assms(1) by (simp_all add: stream_seek_cur_def Let_def read_stream_def file_ok_def)
  let ?got = "take ?c (drop (2 * ?c) (file_rest f))"
  have "drop (nat (f_pos ?s)) (f_bytes ?s) = drop (2 * ?c) (file_rest f)"
    unfolding s nat_int by (simp add: file_rest_def add.commute)
  then have read: "\<exists>s'. stream_read ?c ?s = (?got, s')"
    using s by (simp add: stream_read_def Let_def)
  then obtain s' where s': "stream_read ?c ?s = (?got, s')" by blast
  have second: "\<exists>k'. file_send_next_chunk fd ?f = bind_io (send_sys fd ?got) k'
      \<and> k' (Sent 0) = halt Exit_Failure \<and> (\<forall>j>0. \<exists>r. k' (Sent j) = ret (int j, r))"
  proof -
    have f: "fs_stream ?f = ?s" by simp
    show ?thesis
      unfolding file_send_next_chunk_def Let_def size unfolding f s' prod.case if_P [OF c(1)]
      by (intro exI conjI, rule refl) auto
  qed
  then obtain k' where k': "file_send_next_chunk fd ?f = bind_io (send_sys fd ?got) k'"
    "k' (Sent 0) = halt Exit_Failure" "\<And>j. 0 < j \<Longrightarrow> \<exists>r. k' (Sent j) = ret (int j, r)" by blast
  show ?thesis
  proof (cases "2 * ?c < length (file_rest f)")
    case True
    then have "?got \<noteq> []" using c(1) by simp
    from send_sys_cases(1) [of fd ?h, OF _ this] assms(3) obtain j where
      j: "0 < j" "j \<le> length ?got" "send_sys fd ?got ?h = (Ret (Sent j),
        ?h\<lparr>send_script := scr, sent := (sent ?h)(fd := sent ?h fd @ take j ?got)\<rparr>)" by auto
    from k'(3) [OF j(1)] obtain r where r: "k' (Sent j) = ret (int j, r)" ..
    have "take j ?got = take j (drop (2 * ?c) (file_rest f))"
      using j(2) by (simp add: min_absorb1)
    with True first j r show ?thesis
      by (intro exI [of _ ?f] exI [of _ ?h]) (auto simp: k'(1) bind_io_def ret_def)
  next
    case False
    then have "?got = []" by simp
    with False first k'(2) assms(3) show ?thesis
      by (intro exI [of _ ?f] exI [of _ ?h]) (simp add: k'(1) bind_io_def send_sys_def halt_def)
  qed
qed

theorem file_full_buffer_witness:
  "\<exists>f' h'. send_next_chunk 4 (File_Sender (FileSender_new [1, 2, 3]))
      \<lparr>send_script = [Send_Again, Sent 3], sent = \<lambda>_. [], interest = \<lambda>_. None, nonblocking = {}, wr_shut = {}\<rparr>
      = (Ret (- 1, File_Sender f'), h')
    \<and> send_next_chunk 4 (File_Sender f') h' = (Exit_Failure, h')"
  using file_full_buffer [of "FileSender_new [1, 2, 3]" 4
      "\<lparr>send_script = [Send_Again, Sent 3], sent = \<lambda>_. [], interest = \<lambda>_. None, nonblocking = {}, wr_shut = {}\<rparr>" 3 "[]"]
  by (simp add: file_ok_def file_rest_def FileSender_new_def ifstream_open_def file_chunk_def CHUNK_SIZE_def)

end
