(* ===== verification/Song_Library.thy ===== *)
theory Song_Library
  imports Fs_Path
begin

text \<open>
  The song library (\<open>SongLibrary.h\<close>, \<open>SongLibrary.cpp\<close>) and \<open>find_mp3_files\<close> of the main program. A \<open>std::map\<close>
  is an association list in the order of its keys. The directory is a parameter: the paths its
  iterator gives, in its order, and which paths are regular files.
\<close>

section \<open>Maps in key order\<close>

type_synonym 'v ordered_map = "(u32 \<times> 'v) list"

fun map_put :: "u32 \<Rightarrow> 'v \<Rightarrow> 'v ordered_map \<Rightarrow> 'v ordered_map" where
  "map_put k v [] = [(k, v)]"
| "map_put k v ((k', v') # m) =
     (if k < k' then (k, v) # (k', v') # m else if k = k' then (k, v) # m else (k', v') # map_put k v m)"

definition in_order :: "'v ordered_map \<Rightarrow> bool" where
  "in_order m \<longleftrightarrow> sorted_wrt (<) (map fst m)"

lemma map_of_put: "map_of (map_put k v m) = (map_of m)(k \<mapsto> v)"
  by (induction m) (auto simp: fun_eq_iff)

lemma set_put: "fst ` set (map_put k v m) = insert k (fst ` set m)"
  by (simp add: dom_map_of_conv_image_fst [symmetric] map_of_put)

lemma in_order_put: "in_order m \<Longrightarrow> in_order (map_put k v m)"
proof (induction m)
  case (Cons p m)
  obtain k' v' where p: "p = (k', v')" by fastforce
  from Cons.prems have m: "in_order m" "\<forall>x\<in>fst ` set m. k' < x" by (auto simp: in_order_def p)
  show ?case
  proof (cases "k < k' \<or> k = k'")
    case True
    with Cons.prems m show ?thesis by (auto simp: in_order_def p)
  next
    case False
    then have "\<forall>x\<in>fst ` set (map_put k v m). k' < x" using m(2) by (auto simp: set_put)
    with False Cons.IH m show ?thesis by (auto simp: in_order_def p)
  qed
qed (simp add: in_order_def)

lemma map_put_last: "\<forall>x\<in>fst ` set m. x < k \<Longrightarrow> map_put k v m = m @ [(k, v)]"
  by (induction m) (auto dest: order.asym)

section \<open>The library\<close>

record SongLibrary =
  song_files :: "string ordered_map"
  info_files :: "string ordered_map"

definition SongLibrary_new :: SongLibrary where
  "SongLibrary_new = \<lparr>song_files = [], info_files = []\<rparr>"

definition get_song_file_path :: "SongLibrary \<Rightarrow> u32 \<Rightarrow> string option" where
  "get_song_file_path lib song_id = map_of (song_files lib) song_id"

definition get_info_file_path :: "SongLibrary \<Rightarrow> u32 \<Rightarrow> string option" where
  "get_info_file_path lib song_id = map_of (info_files lib) song_id"

definition num_songs :: "SongLibrary \<Rightarrow> u32" where
  "num_songs lib = word_of_nat (length (song_files lib))"

fun song_lines :: "string ordered_map \<Rightarrow> string" where
  "song_lines [] = []"
| "song_lines ((i, p) # m) = to_string_nat (unat i) @ '':'' @ path_filename p @ [CHR 0x0A] @ song_lines m"

definition get_song_list :: "SongLibrary \<Rightarrow> string" where
  "get_song_list lib =
     (let result = song_lines (song_files lib)
      in if result \<noteq> [] \<and> last result = CHR 0x0A then butlast result else result)"

fun scan_entries :: "(string \<Rightarrow> bool) \<Rightarrow> string list \<Rightarrow> u32 \<Rightarrow> SongLibrary \<Rightarrow> SongLibrary" where
  "scan_entries is_file [] current_id lib = lib"
| "scan_entries is_file (p # ps) current_id lib =
     (if path_extension p = ''.mp3'' then
        let lib' = lib\<lparr>song_files := map_put current_id p (song_files lib)\<rparr>;
            info = replace_extension p ''.mp3.info'';
            lib'' = (if is_file info then lib'\<lparr>info_files := map_put current_id info (info_files lib')\<rparr> else lib')
        in scan_entries is_file ps (current_id + 1) lib''
      else scan_entries is_file ps current_id lib)"

definition scan_files :: "(string \<Rightarrow> bool) \<Rightarrow> string list \<Rightarrow> SongLibrary \<Rightarrow> SongLibrary" where
  "scan_files is_file entries lib = scan_entries is_file entries 0 lib"

text \<open>\<open>find_mp3_files\<close> counts the songs and prints what it finds; the printing is left out.\<close>

fun find_mp3_files :: "string list \<Rightarrow> u32" where
  "find_mp3_files [] = 0"
| "find_mp3_files (p # ps) = (if path_extension p = ''.mp3'' then 1 else 0) + find_mp3_files ps"

section \<open>What a scan finds\<close>

definition songs_of :: "string list \<Rightarrow> string list" where
  "songs_of entries = filter (\<lambda>p. path_extension p = ''.mp3'') entries"

definition song_ids :: "nat \<Rightarrow> string list \<Rightarrow> string ordered_map" where
  "song_ids n ps = zip (map word_of_nat [n..<n + length ps]) ps"

definition info_of :: "(string \<Rightarrow> bool) \<Rightarrow> string ordered_map \<Rightarrow> string ordered_map" where
  "info_of is_file m =
     map (\<lambda>(i, p). (i, replace_extension p ''.mp3.info'')) (filter (\<lambda>(i, p). is_file (replace_extension p ''.mp3.info'')) m)"

lemma song_ids_Cons: "song_ids n (p # ps) = (word_of_nat n, p) # song_ids (Suc n) ps"
  by (simp add: song_ids_def upt_conv_Cons del: upt_Suc)

lemma word_of_nat_less32: "m < n \<Longrightarrow> n < 2 ^ 32 \<Longrightarrow> (word_of_nat m :: u32) < word_of_nat n"
  by (simp add: word_less_nat_alt unat_of_nat take_bit_nat_eq_self)

lemma scan_entries_finds:
  assumes "n + length (songs_of ps) \<le> 2 ^ 32"
    and "\<forall>x\<in>fst ` set (song_files lib) \<union> fst ` set (info_files lib). \<exists>k<n. x = word_of_nat k"
  shows "song_files (scan_entries is_file ps (word_of_nat n) lib) = song_files lib @ song_ids n (songs_of ps)
    \<and> info_files (scan_entries is_file ps (word_of_nat n) lib) = info_files lib @ info_of is_file (song_ids n (songs_of ps))"
  using assms
proof (induction ps arbitrary: n lib)
  case Nil
  then show ?case by (simp add: songs_of_def song_ids_def info_of_def)
next
  case (Cons p ps)
  show ?case
  proof (cases "path_extension p = ''.mp3''")
    case False
    with Cons show ?thesis by (simp add: songs_of_def)
  next
    case True
    let ?i = "word_of_nat n :: u32" and ?info = "replace_extension p ''.mp3.info''"
    from Cons.prems(1) True have n: "Suc n + length (songs_of ps) \<le> 2 ^ 32" by (simp add: songs_of_def)
    have below: "\<forall>x\<in>fst ` set (song_files lib) \<union> fst ` set (info_files lib). x < ?i"
    proof
      fix x
      assume "x \<in> fst ` set (song_files lib) \<union> fst ` set (info_files lib)"
      with Cons.prems(2) obtain k where "k < n" "x = word_of_nat k" by blast
      with n show "x < ?i" by (simp add: word_of_nat_less32)
    qed
    let ?lib = "lib\<lparr>song_files := song_files lib @ [(?i, p)],
        info_files := info_files lib @ (if is_file ?info then [(?i, ?info)] else [])\<rparr>"
    have put: "map_put ?i p (song_files lib) = song_files lib @ [(?i, p)]"
      "map_put ?i ?info (info_files lib) = info_files lib @ [(?i, ?info)]"
      by (rule map_put_last, use below in simp)+
    have step: "scan_entries is_file (p # ps) ?i lib = scan_entries is_file ps (word_of_nat (Suc n)) ?lib"
      using True put by (simp add: Let_def add.commute)
    have ids: "\<forall>x\<in>fst ` set (song_files ?lib) \<union> fst ` set (info_files ?lib). \<exists>k<Suc n. x = word_of_nat k"
    proof
      fix x
      assume "x \<in> fst ` set (song_files ?lib) \<union> fst ` set (info_files ?lib)"
      then have "x \<in> fst ` set (song_files lib) \<union> fst ` set (info_files lib) \<or> x = ?i"
        by (auto split: if_split_asm)
      with Cons.prems(2) show "\<exists>k<Suc n. x = word_of_nat k" using less_Suc_eq by blast
    qed
    have "songs_of (p # ps) = p # songs_of ps" using True by (simp add: songs_of_def)
    with Cons.IH [OF n ids] show ?thesis
      unfolding step by (simp add: song_ids_Cons info_of_def)
  qed
qed

lemma map_of_song_ids:
  assumes "n + length ps \<le> 2 ^ 32"
  shows "map_of (song_ids n ps) i = (if n \<le> unat i \<and> unat i < n + length ps then Some (ps ! (unat i - n)) else None)"
  using assms
proof (induction ps arbitrary: n)
  case Nil
  then show ?case by (simp add: song_ids_def)
next
  case (Cons p ps)
  have "i = word_of_nat n \<longleftrightarrow> unat i = n"
    using Cons.prems by (auto simp: unat_of_nat take_bit_nat_eq_self)
  moreover have "ps ! (unat i - Suc n) = (p # ps) ! (unat i - n)" if "Suc n \<le> unat i"
    using that by (simp add: Suc_diff_Suc [symmetric])
  ultimately show ?case
    using Cons.IH [of "Suc n"] Cons.prems by (auto simp: song_ids_Cons)
qed

lemma map_of_info_of:
  "distinct (map fst m) \<Longrightarrow> map_of (info_of is_file m) i =
     (case map_of m i of None \<Rightarrow> None
      | Some p \<Rightarrow> if is_file (replace_extension p ''.mp3.info'') then Some (replace_extension p ''.mp3.info'') else None)"
  by (induction m) (auto simp: info_of_def map_of_eq_None_iff image_iff split: option.splits)

lemma scan_new:
  assumes "length (songs_of entries) \<le> 2 ^ 32"
  shows "song_files (scan_files is_file entries SongLibrary_new) = song_ids 0 (songs_of entries)"
    and "info_files (scan_files is_file entries SongLibrary_new) = info_of is_file (song_ids 0 (songs_of entries))"
  using scan_entries_finds [of 0 entries SongLibrary_new is_file] assms
  by (simp_all add: scan_files_def SongLibrary_new_def)

lemma length_song_ids [simp]: "length (song_ids n ps) = length ps"
  by (simp add: song_ids_def)

lemma in_order_song_ids: "n + length ps \<le> 2 ^ 32 \<Longrightarrow> in_order (song_ids n ps)"
proof (induction ps arbitrary: n)
  case (Cons p ps)
  have "word_of_nat n < i" if "i \<in> fst ` set (song_ids (Suc n) ps)" for i
  proof -
    from that obtain k where "Suc n \<le> k" "k < Suc n + length ps" "i = word_of_nat k"
      by (auto simp: song_ids_def simp del: upt_Suc dest!: set_zip_leftD)
    with Cons.prems show ?thesis by (simp add: word_of_nat_less32)
  qed
  with Cons show ?case by (auto simp: song_ids_Cons in_order_def)
qed (simp add: song_ids_def in_order_def)

lemma find_mp3_files_count: "find_mp3_files entries = word_of_nat (length (songs_of entries))"
  by (induction entries) (simp_all add: songs_of_def)

text \<open>C29: A scan gives the directory's MP3 files the numbers from 0 in the order of the directory, and a
  song has an info file exactly when the file named after it is a regular file.\<close>

theorem scan_files_finds:
  assumes "length (songs_of entries) \<le> 2 ^ 32"
  shows "get_song_file_path (scan_files is_file entries SongLibrary_new) i =
      (if unat i < length (songs_of entries) then Some (songs_of entries ! unat i) else None)
    \<and> get_info_file_path (scan_files is_file entries SongLibrary_new) i =
      (case get_song_file_path (scan_files is_file entries SongLibrary_new) i of
         None \<Rightarrow> None
       | Some p \<Rightarrow> if is_file (replace_extension p ''.mp3.info'') then Some (replace_extension p ''.mp3.info'') else None)"
proof -
  have "distinct (map fst (song_ids 0 (songs_of entries)))"
    using in_order_song_ids [of 0 "songs_of entries"] assms
    by (auto simp: in_order_def strict_sorted_iff)
  then show ?thesis
    using assms by (simp add: get_song_file_path_def get_info_file_path_def scan_new map_of_song_ids map_of_info_of)
qed

theorem scan_files_finds_witness:
  "get_song_file_path (scan_files (\<lambda>p. p = ''m/b.mp3.info'') [''m/a.txt'', ''m/b.mp3''] SongLibrary_new) 0 = Some ''m/b.mp3''"
  using scan_files_finds [of "[''m/a.txt'', ''m/b.mp3'']" "\<lambda>p. p = ''m/b.mp3.info''" 0]
  by (simp add: songs_of_def path_extension_def path_filename_def Let_def)

text \<open>The count of the main program's own search is the number of songs in the library.\<close>

lemma counts_agree:
  assumes "length (songs_of entries) \<le> 2 ^ 32"
  shows "find_mp3_files entries = num_songs (scan_files is_file entries SongLibrary_new)"
  using assms by (simp add: find_mp3_files_count num_songs_def scan_new)

section \<open>The song list\<close>

text \<open>The lines of the list, separated by newlines, with none after the last.\<close>

fun join_lines :: "string list \<Rightarrow> string" where
  "join_lines [] = []"
| "join_lines [l] = l"
| "join_lines (l # ls) = l @ [CHR 0x0A] @ join_lines ls"

definition song_line :: "u32 \<times> string \<Rightarrow> string" where
  "song_line s = to_string_nat (unat (fst s)) @ '':'' @ path_filename (snd s)"

lemma song_lines_eq: "song_lines m = concat (map (\<lambda>s. song_line s @ [CHR 0x0A]) m)"
  by (induction m rule: song_lines.induct) (simp_all add: song_line_def)

lemma join_lines_concat: "ls \<noteq> [] \<Longrightarrow> concat (map (\<lambda>l. l @ [CHR 0x0A]) ls) = join_lines ls @ [CHR 0x0A]"
  by (induction ls rule: join_lines.induct) auto

text \<open>The song list has one line for each song, its number and its file name, in the order of the
  numbers, and no newline at the end.\<close>

lemma song_list_lines: "get_song_list lib = join_lines (map song_line (song_files lib))"
proof (cases "song_files lib = []")
  case False
  then have "song_lines (song_files lib) = join_lines (map song_line (song_files lib)) @ [CHR 0x0A]"
    using join_lines_concat [of "map song_line (song_files lib)"] by (simp add: song_lines_eq comp_def)
  then show ?thesis by (simp add: get_song_list_def)
qed (simp add: get_song_list_def)

end
