(* ===== verification/Music_Protocol.thy ===== *)
theory Music_Protocol
  imports Net_Prelude
begin

text \<open>
  The message header of the streaming protocol (\<open>protocol.h\<close>, \<open>protocol.cpp\<close> of project 5): a type byte
  and a payload length, kept in network order as the class keeps it.
\<close>

datatype message_type =
    LIST_REQUEST | LIST_RESPONSE | INFO_REQUEST | INFO_RESPONSE | PLAY_REQUEST | PLAY_RESPONSE
  | STOP_REQUEST | AUDIO_DATA | STREAM_END | ERROR_RESPONSE | UNKNOWN_MESSAGE u8

fun byte_of_message :: "message_type \<Rightarrow> u8" where
  "byte_of_message LIST_REQUEST = 0"
| "byte_of_message LIST_RESPONSE = 1"
| "byte_of_message INFO_REQUEST = 2"
| "byte_of_message INFO_RESPONSE = 3"
| "byte_of_message PLAY_REQUEST = 4"
| "byte_of_message PLAY_RESPONSE = 5"
| "byte_of_message STOP_REQUEST = 6"
| "byte_of_message AUDIO_DATA = 7"
| "byte_of_message STREAM_END = 8"
| "byte_of_message ERROR_RESPONSE = 255"
| "byte_of_message (UNKNOWN_MESSAGE b) = b"

definition message_of_byte :: "u8 \<Rightarrow> message_type" where
  "message_of_byte b =
     (if b = 0 then LIST_REQUEST else if b = 1 then LIST_RESPONSE else if b = 2 then INFO_REQUEST
      else if b = 3 then INFO_RESPONSE else if b = 4 then PLAY_REQUEST else if b = 5 then PLAY_RESPONSE
      else if b = 6 then STOP_REQUEST else if b = 7 then AUDIO_DATA else if b = 8 then STREAM_END
      else if b = 255 then ERROR_RESPONSE else UNKNOWN_MESSAGE b)"

record Header =
  hd_type :: message_type
  hd_len :: u32

definition Header_size :: nat where
  "Header_size = 5"

definition Header_new :: "message_type \<Rightarrow> u32 \<Rightarrow> Header" where
  "Header_new ty len = \<lparr>hd_type = ty, hd_len = htonl len\<rparr>"

fun Header_parse :: "bytes \<Rightarrow> Header option" where
  "Header_parse (t # a # b # c # d # _) = Some \<lparr>hd_type = message_of_byte t, hd_len = of_le32 a b c d\<rparr>"
| "Header_parse _ = None"

definition hdr_get_type :: "Header \<Rightarrow> message_type" where
  "hdr_get_type h = hd_type h"

definition hdr_get_len :: "Header \<Rightarrow> u32" where
  "hdr_get_len h = ntohl (hd_len h)"

definition to_byte_array :: "Header \<Rightarrow> bytes" where
  "to_byte_array h = byte_of_message (hd_type h) # le32 (hd_len h)"

section \<open>Encoding and decoding\<close>

definition message_ok :: "message_type \<Rightarrow> bool" where
  "message_ok t \<longleftrightarrow> message_of_byte (byte_of_message t) = t"

lemma message_ok_simps [simp]:
  "message_ok LIST_REQUEST" "message_ok LIST_RESPONSE" "message_ok INFO_REQUEST" "message_ok INFO_RESPONSE"
  "message_ok PLAY_REQUEST" "message_ok PLAY_RESPONSE" "message_ok STOP_REQUEST" "message_ok AUDIO_DATA"
  "message_ok STREAM_END" "message_ok ERROR_RESPONSE"
  by (simp_all add: message_ok_def message_of_byte_def)

lemma byte_of_message_of_byte [simp]: "byte_of_message (message_of_byte b) = b"
  by (simp add: message_of_byte_def)

lemma Header_parse_bytes [codec_simps]:
  "message_ok (hd_type h) \<Longrightarrow> Header_parse (to_byte_array h @ rest) = Some h"
  by (simp add: to_byte_array_def le32_def of_le32_le32 message_ok_def)

lemma length_to_byte_array [simp]: "length (to_byte_array h) = 5"
  by (simp add: to_byte_array_def length_le32)

interpretation music_codec: byte_codec to_byte_array Header_parse "\<lambda>h. message_ok (hd_type h)"
  by unfold_locales (rule Header_parse_bytes, assumption, simp add: to_byte_array_def)

lemma Header_parse_defined: "Header_parse bs \<noteq> None \<longleftrightarrow> Header_size \<le> length bs"
  by (cases bs rule: Header_parse.cases) (auto simp: Header_size_def)

text \<open>C28: A header is five bytes, the type and the length most significant byte first; parsed
  from the beginning of any input it gives back its type and length, and any five bytes are a
  header that is written out as the same five bytes.\<close>

theorem header_roundtrip:
  assumes "message_ok ty"
  shows "to_byte_array (Header_new ty len) = byte_of_message ty # be32 len
    \<and> (\<exists>h. Header_parse (to_byte_array (Header_new ty len) @ rest) = Some h \<and> hdr_get_type h = ty \<and> hdr_get_len h = len)
    \<and> map_option to_byte_array (Header_parse (t # a # b # c # d # rest)) = Some [t, a, b, c, d]"
  using Header_parse_bytes [of "Header_new ty len" rest] assms
  by (simp add: Header_new_def to_byte_array_def le32_htonl hdr_get_type_def hdr_get_len_def ntohl_htonl)

theorem header_roundtrip_witness:
  "to_byte_array (Header_new PLAY_RESPONSE 70000) = 5 # be32 70000
    \<and> (\<exists>h. Header_parse (to_byte_array (Header_new PLAY_RESPONSE 70000) @ [1, 2]) = Some h
      \<and> hdr_get_type h = PLAY_RESPONSE \<and> hdr_get_len h = 70000)"
  using header_roundtrip [OF message_ok_simps(6), of 70000 "[1, 2]" 0 0 0 0 0, unfolded byte_of_message.simps]
  by blast

end
