(* ===== verification/Connected_Client.thy ===== *)
theory Connected_Client
  imports Chunk_Sender Song_Library Music_Protocol
begin

text \<open>
  One client of the music server (\<open>ConnectedClient.h\<close>, \<open>ConnectedClient.cpp\<close>). The methods take the client
  and return the updated one, over the state of the kernel. The files are a parameter: the contents
  of a path, or \<open>None\<close> if there is no such file. What \<open>recv\<close> gives is a parameter as well, together
  with \<open>junk\<close>, the bytes the array holds behind what was received. The lines the methods print are
  left out.
\<close>

section \<open>The client and its methods\<close>

datatype ClientState = RECEIVING | SENDING

record ConnectedClient =
  client_fd :: int
  sender :: "ChunkedDataSender option"
  cstate :: ClientState
  song_library :: "SongLibrary option"

definition ConnectedClient_new :: "int \<Rightarrow> ClientState \<Rightarrow> SongLibrary option \<Rightarrow> ConnectedClient" where
  "ConnectedClient_new fd initial_state library =
     \<lparr>client_fd = fd, sender = None, cstate = initial_state, song_library = library\<rparr>"

definition ConnectedClient_default :: ConnectedClient where
  "ConnectedClient_default = \<lparr>client_fd = - 1, sender = None, cstate = RECEIVING, song_library = None\<rparr>"

datatype recv_result = Received bytes | Recv_Error

type_synonym files = "string \<Rightarrow> bytes option"

definition send_with_sender :: "ConnectedClient \<Rightarrow> ChunkedDataSender \<Rightarrow> ConnectedClient host_io" where
  "send_with_sender c s =
     bind_io (send_loop (client_fd c) s 0)
       (\<lambda>(num_bytes_sent, total_bytes_sent, s').
          if num_bytes_sent < 0 then
            then_io (modify_socket_in_epoll (client_fd c) (EPOLLIN OR EPOLLOUT OR EPOLLRDHUP))
              (ret (c\<lparr>cstate := SENDING, sender := Some s'\<rparr>))
          else ret c)"

definition send_message :: "ConnectedClient \<Rightarrow> bytes \<Rightarrow> ConnectedClient host_io" where
  "send_message c data_to_send = send_with_sender c (Array_Sender (ArraySender_new data_to_send))"

definition send_message_file :: "files \<Rightarrow> ConnectedClient \<Rightarrow> string \<Rightarrow> ConnectedClient host_io" where
  "send_message_file fs c file_path = (case fs file_path of
      None \<Rightarrow> halt (Throw Filesystem_Error)
    | Some data \<Rightarrow> send_with_sender c (File_Sender (FileSender_new data)))"

definition resume_sending :: "ConnectedClient \<Rightarrow> ConnectedClient host_io" where
  "resume_sending c = (case sender c of
      None \<Rightarrow> halt Undefined
    | Some s \<Rightarrow> bind_io (send_loop (client_fd c) s 0)
        (\<lambda>(num_bytes_sent, total_bytes_sent, s').
           if num_bytes_sent < 0 then
             then_io (modify_socket_in_epoll (client_fd c) (EPOLLIN OR EPOLLRDHUP))
               (ret (c\<lparr>cstate := RECEIVING, sender := None\<rparr>))
           else ret (c\<lparr>sender := Some s'\<rparr>)))"

definition handle_close :: "ConnectedClient \<Rightarrow> unit host_io" where
  "handle_close c = then_io (remove_socket_from_epoll (client_fd c)) (close_fd (client_fd c))"

section \<open>Requests\<close>

definition RECV_SIZE :: nat where
  "RECV_SIZE = 1024"

definition recv_buffer :: "(nat \<Rightarrow> u8) \<Rightarrow> bytes \<Rightarrow> bytes" where
  "recv_buffer junk got = got @ map junk [length got..<RECV_SIZE]"

definition request_song_id :: "Header \<Rightarrow> bytes \<Rightarrow> u32" where
  "request_song_id h data =
     (if 4 \<le> hdr_get_len h then
        ntohl (of_le32 (data ! Header_size) (data ! (Header_size + 1)) (data ! (Header_size + 2)) (data ! (Header_size + 3)))
      else 0)"

definition read_file :: "files \<Rightarrow> string \<Rightarrow> bytes" where
  "read_file fs p = (case fs p of None \<Rightarrow> [] | Some data \<Rightarrow> data)"

definition info_message :: "files \<Rightarrow> SongLibrary \<Rightarrow> u32 \<Rightarrow> bytes" where
  "info_message fs lib song_id = (case get_info_file_path lib song_id of
      Some p \<Rightarrow> read_file fs p
    | None \<Rightarrow> (case get_info_file_path lib song_id of
          Some p \<Rightarrow> read_file fs p
        | None \<Rightarrow> text_bytes ''No info available for this song''))"

definition send_response :: "ConnectedClient \<Rightarrow> message_type \<Rightarrow> bytes \<Rightarrow> ConnectedClient host_io" where
  "send_response c response_type message =
     bind_io (send_message c (to_byte_array (Header_new response_type (word_of_nat (length message)))))
       (\<lambda>c'. send_message c' message)"

definition handle_play :: "files \<Rightarrow> ConnectedClient \<Rightarrow> SongLibrary \<Rightarrow> u32 \<Rightarrow> ConnectedClient host_io" where
  "handle_play fs c lib song_id = (case get_song_file_path lib song_id of
      Some song_path \<Rightarrow> (case fs song_path of
          None \<Rightarrow> halt (Throw Filesystem_Error)
        | Some data \<Rightarrow>
            bind_io (send_message c (to_byte_array (Header_new PLAY_RESPONSE (word_of_nat (length data)))))
              (\<lambda>c'. send_message_file fs c' song_path))
    | None \<Rightarrow> send_response c ERROR_RESPONSE (text_bytes ''Invalid songID''))"

definition handle_stop :: "ConnectedClient \<Rightarrow> ConnectedClient host_io" where
  "handle_stop c =
     bind_io
       (if cstate c = SENDING then
          then_io (modify_socket_in_epoll (client_fd c) (EPOLLIN OR EPOLLRDHUP))
            (ret (c\<lparr>cstate := RECEIVING, sender := None\<rparr>))
        else ret c)
       (\<lambda>c'. then_io (shutdown_wr (client_fd c')) (ret c'))"

definition handle_request :: "files \<Rightarrow> ConnectedClient \<Rightarrow> Header \<Rightarrow> bytes \<Rightarrow> ConnectedClient host_io" where
  "handle_request fs c h data = (case hdr_get_type h of
      INFO_REQUEST \<Rightarrow> bind_io (of_option (song_library c))
        (\<lambda>lib. send_response c INFO_RESPONSE (info_message fs lib (request_song_id h data)))
    | PLAY_REQUEST \<Rightarrow> bind_io (of_option (song_library c))
        (\<lambda>lib. handle_play fs c lib (request_song_id h data))
    | LIST_REQUEST \<Rightarrow> bind_io (of_option (song_library c))
        (\<lambda>lib. send_response c LIST_RESPONSE (text_bytes (get_song_list lib)))
    | STOP_REQUEST \<Rightarrow> handle_stop c
    | _ \<Rightarrow> send_response c ERROR_RESPONSE (text_bytes ''Unknown Request Type''))"

text \<open>
  The payload is read into a string that begins five bytes into what was received: with fewer bytes
  than that the range is invalid.
\<close>

definition handle_input :: "files \<Rightarrow> (nat \<Rightarrow> u8) \<Rightarrow> recv_result \<Rightarrow> ConnectedClient \<Rightarrow> ConnectedClient host_io" where
  "handle_input fs junk r c = (case r of
      Recv_Error \<Rightarrow> halt Exit_Failure
    | Received got \<Rightarrow>
        let data = recv_buffer junk (take RECV_SIZE got)
        in (case Header_parse data of
            None \<Rightarrow> halt Undefined
          | Some h \<Rightarrow>
              if length got < Header_size then halt Undefined
              else handle_request fs c h data))"

section \<open>The invariant of a client\<close>

text \<open>
  A client is registered with the events of its state, and it is sending exactly if it holds a
  sender. Its methods keep that and leave the other sockets alone; the only undefined behaviour is
  that of a request shorter than its header.
\<close>

definition client_interest :: "ClientState \<Rightarrow> u32" where
  "client_interest s = (if s = SENDING then EPOLLIN OR EPOLLOUT OR EPOLLRDHUP else EPOLLIN OR EPOLLRDHUP)"

definition client_ok :: "host \<Rightarrow> ConnectedClient \<Rightarrow> bool" where
  "client_ok h c \<longleftrightarrow> interest h (client_fd c) = Some (client_interest (cstate c))
     \<and> (cstate c = SENDING \<longleftrightarrow> sender c \<noteq> None) \<and> song_library c \<noteq> None"

definition touches :: "int \<Rightarrow> host \<Rightarrow> host \<Rightarrow> bool" where
  "touches fd h h' \<longleftrightarrow> (\<forall>x. x \<noteq> fd \<longrightarrow> interest h' x = interest h x \<and> sent h' x = sent h x
     \<and> (x \<in> wr_shut h' \<longleftrightarrow> x \<in> wr_shut h) \<and> (x \<in> nonblocking h' \<longleftrightarrow> x \<in> nonblocking h))"

definition client_after :: "int \<Rightarrow> host \<Rightarrow> (music_exn, ConnectedClient) outcome \<Rightarrow> host \<Rightarrow> bool" where
  "client_after fd h q h' \<longleftrightarrow> touches fd h h' \<and> nonblocking h' = nonblocking h \<and> q \<noteq> Undefined \<and> (\<forall>c'. q = Ret c' \<longrightarrow> client_ok h' c' \<and> client_fd c' = fd)"

lemma touches_refl [simp]: "touches fd h h"
  by (simp add: touches_def)

lemma touches_trans: "touches fd h h' \<Longrightarrow> touches fd h' h'' \<Longrightarrow> touches fd h h''"
  by (simp add: touches_def)

lemma send_frame_touches:
  "send_frame fd h h' \<Longrightarrow> touches fd h h' \<and> interest h' = interest h \<and> wr_shut h' = wr_shut h \<and> nonblocking h' = nonblocking h"
  by (auto simp: send_frame_def touches_def)

lemma client_after_bind:
  assumes "bind_io m k h = (q, h')"
    and "\<And>q h1. m h = (q, h1) \<Longrightarrow> client_after fd h q h1"
    and "\<And>c h1 q h2. client_ok h1 c \<Longrightarrow> client_fd c = fd \<Longrightarrow> k c h1 = (q, h2) \<Longrightarrow> client_after fd h1 q h2"
  shows "client_after fd h q h'"
  using assms(1)
proof (rule bind_io_cases)
  fix c h1
  assume "m h = (Ret c, h1)" and k: "k c h1 = (q, h')"
  with assms(2) have "touches fd h h1" "nonblocking h1 = nonblocking h" "client_ok h1 c" "client_fd c = fd"
    by (auto simp: client_after_def)
  with assms(3) [OF this(3,4) k] show ?thesis
    by (auto simp: client_after_def intro: touches_trans)
next
  fix r
  assume "m h = (r, h')" and r: "q = pass r" "\<And>x. r \<noteq> Ret x"
  with assms(2) show ?thesis by (auto simp: client_after_def)
qed

lemma client_ok_interest: "client_ok h c \<Longrightarrow> interest h (client_fd c) \<noteq> None"
  by (simp add: client_ok_def)

lemma modify_after:
  assumes "interest h (client_fd c) \<noteq> None"
    and "song_library c \<noteq> None \<and> evs = client_interest (cstate c) \<and> (cstate c = SENDING \<longleftrightarrow> sender c \<noteq> None)"
    and "then_io (modify_socket_in_epoll (client_fd c) evs) (ret c) h = (q, h')"
  shows "client_after (client_fd c) h q h'"
  using assms by (auto simp: then_io_def bind_io_def modify_socket_in_epoll_def ret_def client_after_def touches_def client_ok_def)

lemma client_ok_cong:
  "interest h' = interest h \<Longrightarrow> client_ok h' c \<longleftrightarrow> client_ok h c"
  by (simp add: client_ok_def)

text \<open>The two methods that run the loop differ in what they do with its result.\<close>

lemma loop_after:
  assumes "client_ok h c"
    and "bind_io (send_loop (client_fd c) s 0) (\<lambda>(n, t, s'). if n < 0 then
          then_io (modify_socket_in_epoll (client_fd c) evs) (ret (c1 s')) else ret (c2 s')) h = (q, h')"
    and "\<And>s'. client_fd (c1 s') = client_fd c \<and> song_library (c1 s') \<noteq> None \<and> evs = client_interest (cstate (c1 s'))
          \<and> (cstate (c1 s') = SENDING \<longleftrightarrow> sender (c1 s') \<noteq> None)"
    and "\<And>s'. client_fd (c2 s') = client_fd c \<and> song_library (c2 s') \<noteq> None \<and> cstate (c2 s') = cstate c
          \<and> (sender (c2 s') = None \<longleftrightarrow> sender c = None)"
  shows "client_after (client_fd c) h q h'"
proof -
  obtain r h1 where run: "send_loop (client_fd c) s 0 h = (r, h1)" by fastforce
  note frame = send_loop_frame [OF run]
  have h1: "touches (client_fd c) h h1" "nonblocking h1 = nonblocking h" "client_ok h1 c"
    using send_frame_touches frame assms(1) by (auto simp: client_ok_def)
  show ?thesis
  proof (cases "\<exists>x. r = Ret x")
    case True
    then obtain x where Ret: "r = Ret x" by blast
    obtain n t s' where x: "x = (n, t, s')" by (cases x)
    show ?thesis
    proof (cases "n < 0")
      case True
      with assms(2) run have "then_io (modify_socket_in_epoll (client_fd c) evs) (ret (c1 s')) h1 = (q, h')"
        by (simp add: bind_io_def Ret x)
      then have run2: "then_io (modify_socket_in_epoll (client_fd (c1 s')) evs) (ret (c1 s')) h1 = (q, h')"
        using assms(3) [of s'] by simp
      have "client_fd (c1 s') = client_fd c" using assms(3) [of s'] by blast
      moreover have "client_after (client_fd (c1 s')) h1 q h'"
        by (rule modify_after [OF _ _ run2]) (use assms(3) [of s'] client_ok_interest [OF h1(3)] in simp_all)
      ultimately have "client_after (client_fd c) h1 q h'" by simp
      then show ?thesis using touches_trans [OF h1(1)] unfolding client_after_def h1(2) by blast
    next
      case False
      with assms(2) run have "q = Ret (c2 s')" "h' = h1" by (simp_all add: bind_io_def Ret x ret_def)
      with h1 assms(4) [of s'] show ?thesis
        by (simp add: client_after_def client_ok_def del: not_None_eq)
    qed
  next
    case False
    then have no: "\<forall>x. r \<noteq> Ret x" by blast
    note stop = bind_io_not_Ret [where m = "send_loop (client_fd c) s 0" and s = h, OF run no]
    from assms(2) have "q = pass r" "h' = h1" unfolding stop by simp_all
    have "q \<noteq> Undefined" "\<And>y. q \<noteq> Ret y"
      unfolding \<open>q = pass r\<close> using frame by (simp_all only: pass_keeps [OF no] simp_thms)
    with h1(1,2) show ?thesis unfolding client_after_def \<open>h' = h1\<close> by blast
  qed
qed

lemma send_with_sender_after:
  assumes "client_ok h c" and "send_with_sender c s h = (q, h')"
  shows "client_after (client_fd c) h q h'"
  using assms(2) unfolding send_with_sender_def
  by (rule loop_after [OF assms(1)]) (use assms(1) in \<open>simp_all add: client_interest_def client_ok_def\<close>)

lemma send_message_after:
  "client_ok h c \<Longrightarrow> send_message c data h = (q, h') \<Longrightarrow> client_after (client_fd c) h q h'"
  by (simp add: send_message_def send_with_sender_after)

lemma send_message_file_after:
  "client_ok h c \<Longrightarrow> send_message_file fs c p h = (q, h') \<Longrightarrow> client_after (client_fd c) h q h'"
  by (auto simp: send_message_file_def halt_def client_after_def split: option.splits dest: send_with_sender_after)

lemma resume_sending_after:
  assumes "client_ok h c" and "sender c \<noteq> None" and "resume_sending c h = (q, h')"
  shows "client_after (client_fd c) h q h'"
proof -
  from assms(2) obtain s where s: "sender c = Some s" by blast
  from assms(3) show ?thesis
    unfolding resume_sending_def s option.case
    by (rule loop_after [OF assms(1)]) (use assms(1) s in \<open>simp_all add: client_interest_def client_ok_def\<close>)
qed

lemma send_response_after:
  assumes "client_ok h c" and "send_response c ty message h = (q, h')"
  shows "client_after (client_fd c) h q h'"
  using assms(2) unfolding send_response_def
  by (rule client_after_bind) (auto dest: send_message_after [OF assms(1)] send_message_after)

lemma handle_play_after:
  assumes "client_ok h c" and "handle_play fs c lib i h = (q, h')"
  shows "client_after (client_fd c) h q h'"
proof (cases "get_song_file_path lib i")
  case None
  with assms show ?thesis by (simp add: handle_play_def send_response_after)
next
  case (Some p)
  show ?thesis
  proof (cases "fs p")
    case None
    with assms Some show ?thesis by (auto simp: handle_play_def halt_def client_after_def)
  next
    case (Some data)
    from assms(2) show ?thesis
      unfolding handle_play_def \<open>get_song_file_path lib i = Some p\<close> Some option.case
      by (rule client_after_bind) (auto dest: send_message_after [OF assms(1)] send_message_file_after)
  qed
qed

lemma shutdown_after:
  "client_ok h c \<Longrightarrow> then_io (shutdown_wr (client_fd c)) (ret c) h = (q, h') \<Longrightarrow> client_after (client_fd c) h q h'"
  by (auto simp: then_io_def bind_io_def shutdown_wr_def upd_def ret_def client_after_def touches_def client_ok_def)

lemma handle_stop_after:
  assumes "client_ok h c" and "handle_stop c h = (q, h')"
  shows "client_after (client_fd c) h q h'"
  using assms(2) unfolding handle_stop_def
proof (rule client_after_bind)
  fix q h1
  assume run: "(if cstate c = SENDING then then_io (modify_socket_in_epoll (client_fd c) (EPOLLIN OR EPOLLRDHUP))
      (ret (c\<lparr>cstate := RECEIVING, sender := None\<rparr>)) else ret c) h = (q, h1)"
  show "client_after (client_fd c) h q h1"
  proof (cases "cstate c = SENDING")
    case True
    with run have "then_io (modify_socket_in_epoll (client_fd c) (EPOLLIN OR EPOLLRDHUP))
      (ret (c\<lparr>cstate := RECEIVING, sender := None\<rparr>)) h = (q, h1)" by simp
    with modify_after [of h "c\<lparr>cstate := RECEIVING, sender := None\<rparr>" "EPOLLIN OR EPOLLRDHUP" q h1] assms(1)
    show ?thesis by (simp add: client_interest_def client_ok_def)
  next
    case False
    with run assms(1) show ?thesis by (auto simp: ret_def client_after_def)
  qed
qed (auto dest: shutdown_after)

lemma handle_request_after:
  assumes "client_ok h c" and "handle_request fs c hdr data h = (q, h')"
  shows "client_after (client_fd c) h q h'"
proof -
  from assms(1) obtain lib where "song_library c = Some lib" by (auto simp: client_ok_def)
  with assms show ?thesis
    by (cases "hdr_get_type hdr")
      (auto simp: handle_request_def of_option_def bind_io_ret_left
        intro: send_response_after handle_play_after handle_stop_after)
qed

lemma recv_buffer_header:
  "\<exists>hdr. Header_parse (recv_buffer junk (take RECV_SIZE got)) = Some hdr"
proof -
  have "length (recv_buffer junk (take RECV_SIZE got)) = RECV_SIZE" by (simp add: recv_buffer_def)
  then have "Header_size \<le> length (recv_buffer junk (take RECV_SIZE got))"
    by (simp add: RECV_SIZE_def Header_size_def)
  then show ?thesis using Header_parse_defined by blast
qed

lemma handle_input_after:
  assumes "client_ok h c" and "handle_input fs junk (Received got) c h = (q, h')"
  shows "if length got < Header_size then q = Undefined \<and> h' = h else client_after (client_fd c) h q h'"
proof -
  obtain hdr where "Header_parse (recv_buffer junk (take RECV_SIZE got)) = Some hdr"
    using recv_buffer_header by blast
  with assms show ?thesis
    by (auto simp: handle_input_def Let_def halt_def intro: handle_request_after)
qed

end
