(* ===== verification/Music_Server.thy ===== *)
theory Music_Server
  imports Client_Replies
begin

text \<open>
  The event loop of the music server (\<open>music-server.cpp\<close>). The map from sockets to clients is a function;
  its index operator creates a default client for a socket that is not there. An event is what
  \<open>epoll_wait\<close> reports for a socket, together with what \<open>recv\<close> or \<open>accept\<close> give if the loop calls them
  for this event.
\<close>

type_synonym clients = "int \<Rightarrow> ConnectedClient option"

record io_event =
  ev_fd :: int
  ev_mask :: u32
  ev_recv :: recv_result
  ev_junk :: "nat \<Rightarrow> u8"
  ev_accept :: "int option"

definition MAX_EVENTS :: nat where
  "MAX_EVENTS = 64"

definition client_at :: "clients \<Rightarrow> int \<Rightarrow> ConnectedClient" where
  "client_at clients fd = (case clients fd of None \<Rightarrow> ConnectedClient_default | Some c \<Rightarrow> c)"

definition setup_new_client :: "host_env \<Rightarrow> int option \<Rightarrow> clients \<Rightarrow> SongLibrary \<Rightarrow> clients host_io" where
  "setup_new_client env accepted clients library =
     bind_io (accept_connection_sys accepted) (\<lambda>fd.
       then_io (set_non_blocking env fd)
         (then_io (add_socket_to_epoll fd (EPOLLIN OR EPOLLRDHUP))
           (ret (clients(fd \<mapsto> ConnectedClient_new fd RECEIVING (Some library))))))"

definition flagged :: "io_event \<Rightarrow> u32 \<Rightarrow> bool" where
  "flagged ev flag \<longleftrightarrow> ev_mask ev AND flag \<noteq> 0"

definition handle_first :: "host_env \<Rightarrow> files \<Rightarrow> int \<Rightarrow> SongLibrary \<Rightarrow> io_event \<Rightarrow> clients \<Rightarrow> clients host_io" where
  "handle_first env fs server_socket library ev clients =
     (if flagged ev EPOLLRDHUP then
        then_io (handle_close (client_at clients (ev_fd ev))) (ret (clients(ev_fd ev := None)))
      else if flagged ev EPOLLIN then
        if ev_fd ev = server_socket then setup_new_client env (ev_accept ev) clients library
        else bind_io (handle_input fs (ev_junk ev) (ev_recv ev) (client_at clients (ev_fd ev)))
               (\<lambda>c. ret (clients(ev_fd ev \<mapsto> c)))
      else ret clients)"

definition handle_output :: "io_event \<Rightarrow> clients \<Rightarrow> clients host_io" where
  "handle_output ev clients =
     (if flagged ev EPOLLOUT then
        bind_io (resume_sending (client_at clients (ev_fd ev))) (\<lambda>c. ret (clients(ev_fd ev \<mapsto> c)))
      else ret clients)"

definition handle_event :: "host_env \<Rightarrow> files \<Rightarrow> int \<Rightarrow> SongLibrary \<Rightarrow> io_event \<Rightarrow> clients \<Rightarrow> clients host_io" where
  "handle_event env fs server_socket library ev clients =
     bind_io (handle_first env fs server_socket library ev clients) (handle_output ev)"

fun handle_events :: "host_env \<Rightarrow> files \<Rightarrow> int \<Rightarrow> SongLibrary \<Rightarrow> io_event list \<Rightarrow> clients \<Rightarrow> clients host_io" where
  "handle_events env fs server_socket library [] clients = ret clients"
| "handle_events env fs server_socket library (ev # evs) clients =
     bind_io (handle_event env fs server_socket library ev clients) (handle_events env fs server_socket library evs)"

text \<open>
  The results of the calls of \<open>epoll_wait\<close>, of which each reports up to \<open>MAX_EVENTS\<close> events; \<open>None\<close> is a
  call that failed. When they are used up the loop waits, and the clients it has then are the result.
\<close>

fun event_loop :: "host_env \<Rightarrow> files \<Rightarrow> int \<Rightarrow> SongLibrary \<Rightarrow> io_event list option list \<Rightarrow> clients \<Rightarrow> clients host_io" where
  "event_loop env fs server_socket library [] clients = ret clients"
| "event_loop env fs server_socket library (None # waits) clients = halt Exit_Failure"
| "event_loop env fs server_socket library (Some evs # waits) clients =
     bind_io (handle_events env fs server_socket library (take MAX_EVENTS evs) clients)
       (event_loop env fs server_socket library waits)"

text \<open>
  The main program: the number of its arguments, the one for the port, whether the other one is a
  directory and what its iterator gives.
\<close>

definition music_main :: "host_env \<Rightarrow> files \<Rightarrow> nat \<Rightarrow> string \<Rightarrow> bool \<Rightarrow> (string \<Rightarrow> bool) \<Rightarrow> string list
    \<Rightarrow> io_event list option list \<Rightarrow> clients host_io" where
  "music_main env fs argc port_arg is_directory is_file entries waits =
     (if argc \<noteq> 3 then halt Exit_Failure
      else if \<not> is_directory then halt Exit_Failure
      else case stoul port_arg of
          Inl e \<Rightarrow> halt (Throw (Bad_Number e))
        | Inr port \<Rightarrow>
            bind_io (setup_server_socket env) (\<lambda>server_socket.
              let library = scan_files is_file entries SongLibrary_new in
              if epoll_create_fails env then halt Exit_Failure
              else then_io (add_socket_to_epoll server_socket EPOLLIN)
                (event_loop env fs server_socket library waits Map.empty)))"

section \<open>The invariant of the server\<close>

definition server_ok :: "int \<Rightarrow> host \<Rightarrow> clients \<Rightarrow> bool" where
  "server_ok server_socket h clients \<longleftrightarrow>
     interest h server_socket = Some EPOLLIN \<and> clients server_socket = None
     \<and> (\<forall>fd c. clients fd = Some c \<longrightarrow> client_fd c = fd \<and> client_ok h c \<and> fd \<in> nonblocking h)
     \<and> (\<forall>fd. fd \<noteq> server_socket \<longrightarrow> clients fd = None \<longrightarrow> interest h fd = None \<and> fd \<notin> wr_shut h)"

text \<open>
  What the kernel promises of an event: the socket is registered for what is reported of it, and a
  descriptor from \<open>accept\<close> is not in use.
\<close>

definition event_ok :: "int \<Rightarrow> host \<Rightarrow> clients \<Rightarrow> io_event \<Rightarrow> bool" where
  "event_ok server_socket h clients ev \<longleftrightarrow>
     (\<exists>m. interest h (ev_fd ev) = Some m
        \<and> (\<forall>flag\<in>{EPOLLIN, EPOLLOUT, EPOLLRDHUP}. flagged ev flag \<longrightarrow> m AND flag \<noteq> 0))
     \<and> (\<forall>fd. ev_accept ev = Some fd \<longrightarrow> clients fd = None \<and> fd \<noteq> server_socket)"

lemma interest_bits:
  "EPOLLIN AND EPOLLOUT = 0" "EPOLLIN AND EPOLLRDHUP = 0" "EPOLLIN AND EPOLLIN \<noteq> 0"
  "client_interest s AND EPOLLOUT \<noteq> 0 \<longleftrightarrow> s = SENDING"
  by (cases s; simp add: client_interest_def epoll_defs)+

lemma server_ok_client:
  "server_ok server h clients \<Longrightarrow> clients fd = Some c \<Longrightarrow>
     client_fd c = fd \<and> client_ok h c \<and> fd \<in> nonblocking h \<and> fd \<noteq> server"
  by (auto simp: server_ok_def)

text \<open>A method of one client that keeps its invariant keeps that of the server.\<close>

lemma server_ok_client_after:
  assumes "server_ok server h clients" and "clients fd = Some c" and "client_after fd h (Ret c') h'"
  shows "server_ok server h' (clients(fd \<mapsto> c'))"
proof -
  have fd: "fd \<noteq> server" using server_ok_client [OF assms(1,2)] by blast
  have other: "interest h' x = interest h x" "x \<in> wr_shut h' \<longleftrightarrow> x \<in> wr_shut h" if "x \<noteq> fd" for x
    using assms(3) that by (auto simp: client_after_def touches_def)
  have "client_ok h' d \<longleftrightarrow> client_ok h d" if "client_fd d \<noteq> fd" for d
    using other(1) [OF that] by (simp add: client_ok_def)
  with assms fd other show ?thesis
    by (auto simp: server_ok_def client_after_def)
qed

lemma server_ok_close:
  assumes "server_ok server h clients" and "clients fd = Some c"
  shows "\<exists>h'. handle_close c h = (Ret (), h') \<and> server_ok server h' (clients(fd := None))"
proof -
  note c = server_ok_client [OF assms]
  let ?h = "h\<lparr>interest := (interest h)(fd := None), nonblocking := nonblocking h - {fd}, wr_shut := wr_shut h - {fd}\<rparr>"
  have "handle_close c h = (Ret (), ?h)"
    using c client_ok_interest [of h c]
    by (auto simp: handle_close_def then_io_def bind_io_def remove_socket_from_epoll_def close_fd_def upd_def)
  moreover have "server_ok server ?h (clients(fd := None))"
    using assms c by (auto simp: server_ok_def client_ok_def)
  ultimately show ?thesis by blast
qed

lemma server_ok_new_client:
  assumes "server_ok server h clients" and "\<And>fd. accepted = Some fd \<Longrightarrow> clients fd = None \<and> fd \<noteq> server"
    and "setup_new_client env accepted clients lib h = (q, h')"
  shows "q \<noteq> Undefined \<and> (\<forall>cl. q = Ret cl \<longrightarrow> server_ok server h' cl)"
proof (cases "\<exists>fd. accepted = Some fd \<and> \<not> fcntl_fails env fd")
  case False
  with assms(3) show ?thesis
    by (cases accepted) (auto simp: setup_new_client_def accept_connection_sys_def bind_io_def then_io_def halt_def
        ret_def set_non_blocking_def)
next
  case True
  then obtain fd where fd: "accepted = Some fd" "\<not> fcntl_fails env fd" by blast
  with assms(2) have new: "clients fd = None" "fd \<noteq> server" by blast+
  let ?h = "h\<lparr>nonblocking := insert fd (nonblocking h), interest := (interest h)(fd \<mapsto> EPOLLIN OR EPOLLRDHUP)\<rparr>"
  have "interest h fd = None" using assms(1) new by (auto simp: server_ok_def)
  with assms(3) fd have "q = Ret (clients(fd \<mapsto> ConnectedClient_new fd RECEIVING (Some lib)))" "h' = ?h"
    by (auto simp: setup_new_client_def accept_connection_sys_def bind_io_def then_io_def ret_def upd_def
        set_non_blocking_def add_socket_to_epoll_def)
  moreover have "server_ok server ?h (clients(fd \<mapsto> ConnectedClient_new fd RECEIVING (Some lib)))"
  proof -
    have "client_ok ?h d \<longleftrightarrow> client_ok h d" if "client_fd d \<noteq> fd" for d
      using that by (simp add: client_ok_def)
    moreover have "client_ok ?h (ConnectedClient_new fd RECEIVING (Some lib))"
      by (simp add: client_ok_def ConnectedClient_new_def client_interest_def)
    moreover have "client_fd (ConnectedClient_new fd RECEIVING (Some lib)) = fd"
      by (simp add: ConnectedClient_new_def)
    ultimately show ?thesis using assms(1) new by (auto simp: server_ok_def)
  qed
  ultimately show ?thesis by simp
qed

section \<open>Which events are fatal\<close>

text \<open>
  A client that is sending stays so after any request but STOP, after which it is not.
\<close>

lemma send_with_sender_state:
  "send_with_sender c s h = (Ret c', h') \<Longrightarrow> cstate c = SENDING \<Longrightarrow> cstate c' = SENDING"
  unfolding send_with_sender_def
  by (erule bind_io_RetE) (auto simp: then_io_def ret_def split: if_splits prod.splits elim!: bind_io_RetE)

lemma send_message_state:
  "send_message c data h = (Ret c', h') \<Longrightarrow> cstate c = SENDING \<Longrightarrow> cstate c' = SENDING"
  by (simp add: send_message_def send_with_sender_state)

lemma send_message_file_state:
  "send_message_file fs c p h = (Ret c', h') \<Longrightarrow> cstate c = SENDING \<Longrightarrow> cstate c' = SENDING"
  by (auto simp: send_message_file_def halt_def split: option.splits dest: send_with_sender_state)

lemma send_response_state:
  "send_response c ty data h = (Ret c', h') \<Longrightarrow> cstate c = SENDING \<Longrightarrow> cstate c' = SENDING"
  by (auto simp: send_response_def elim!: bind_io_RetE dest!: send_message_state)

lemma handle_play_state:
  "handle_play fs c lib i h = (Ret c', h') \<Longrightarrow> cstate c = SENDING \<Longrightarrow> cstate c' = SENDING"
  by (auto simp: handle_play_def halt_def split: option.splits elim!: bind_io_RetE
      dest: send_response_state send_message_state send_message_file_state)

lemma handle_request_state:
  assumes "handle_request fs c hdr data h = (Ret c', h')" and "cstate c = SENDING"
  shows "cstate c' = SENDING \<longleftrightarrow> hdr_get_type hdr \<noteq> STOP_REQUEST"
proof (cases "hdr_get_type hdr = STOP_REQUEST")
  case True
  with assms show ?thesis
    by (auto simp: handle_request_def handle_stop_def then_io_def ret_def elim!: bind_io_RetE)
next
  case False
  with assms show ?thesis
    by (cases "hdr_get_type hdr")
      (auto simp: handle_request_def elim!: bind_io_RetE dest: send_response_state handle_play_state)
qed

lemma handle_stop_returns:
  assumes "client_ok h c"
  shows "\<exists>c' h'. handle_stop c h = (Ret c', h') \<and> cstate c' = RECEIVING"
  using client_ok_interest [OF assms]
  by (cases "cstate c")
    (auto simp: handle_stop_def bind_io_def then_io_def modify_socket_in_epoll_def shutdown_wr_def upd_def ret_def)

lemma received_type:
  assumes "Header_size \<le> length got" and "Header_parse (recv_buffer junk (take RECV_SIZE got)) = Some hdr"
  shows "hdr_get_type hdr = STOP_REQUEST \<longleftrightarrow> hd got = 6"
proof -
  from assms(1) obtain t rest where got: "got = t # rest" by (cases got) (auto simp: Header_size_def)
  with assms(2) have "hdr_get_type hdr = message_of_byte t"
    by (cases "recv_buffer junk (take RECV_SIZE got)" rule: Header_parse.cases)
      (auto simp: recv_buffer_def RECV_SIZE_def hdr_get_type_def)
  then show ?thesis by (simp add: got message_of_byte_def)
qed

text \<open>What a request does to a client of which the socket was writable as well.\<close>

lemma handle_input_state:
  assumes "client_ok h c" and "Header_size \<le> length got"
  shows "handle_input fs junk (Received got) c h = (Ret c', h') \<Longrightarrow> cstate c = SENDING \<Longrightarrow>
      (sender c' = None \<longleftrightarrow> hd got = 6)"
    and "hd got = 6 \<Longrightarrow> \<exists>c' h'. handle_input fs junk (Received got) c h = (Ret c', h') \<and> cstate c' = RECEIVING"
proof -
  obtain hdr where hdr: "Header_parse (recv_buffer junk (take RECV_SIZE got)) = Some hdr"
    using recv_buffer_header by blast
  have input: "handle_input fs junk (Received got) c = handle_request fs c hdr (recv_buffer junk (take RECV_SIZE got))"
    using assms(2) by (simp add: handle_input_def hdr Let_def)
  note ty = received_type [OF assms(2) hdr]
  {
    assume run: "handle_input fs junk (Received got) c h = (Ret c', h')" and sending: "cstate c = SENDING"
    have "client_ok h' c'"
      using handle_input_after [OF assms(1) run] assms(2) by (simp add: client_after_def split: if_splits)
    with handle_request_state [OF run [unfolded input] sending] ty
    show "sender c' = None \<longleftrightarrow> hd got = 6" by (auto simp: client_ok_def)
  next
    assume "hd got = 6"
    with ty handle_stop_returns [OF assms(1)]
    show "\<exists>c' h'. handle_input fs junk (Received got) c h = (Ret c', h') \<and> cstate c' = RECEIVING"
      by (simp add: input handle_request_def)
  }
qed

definition event_fatal :: "int \<Rightarrow> io_event \<Rightarrow> bool" where
  "event_fatal server_socket ev \<longleftrightarrow> ev_fd ev \<noteq> server_socket \<and>
     (if flagged ev EPOLLRDHUP then flagged ev EPOLLOUT
      else flagged ev EPOLLIN \<and> (case ev_recv ev of
          Received got \<Rightarrow> length got < Header_size \<or> flagged ev EPOLLOUT \<and> hd got = 6
        | Recv_Error \<Rightarrow> False))"

lemma event_client:
  assumes "server_ok server h clients" and "event_ok server h clients ev" and "ev_fd ev \<noteq> server"
  shows "\<exists>c. clients (ev_fd ev) = Some c \<and> (flagged ev EPOLLOUT \<longrightarrow> cstate c = SENDING \<and> sender c \<noteq> None)"
proof -
  from assms obtain c where c: "clients (ev_fd ev) = Some c"
    by (cases "clients (ev_fd ev)") (auto simp: server_ok_def event_ok_def)
  with server_ok_client [OF assms(1) c] assms(2) show ?thesis
    by (auto simp: event_ok_def client_ok_def interest_bits)
qed

lemma event_server:
  assumes "server_ok server h clients" and "event_ok server h clients ev" and "ev_fd ev = server"
  shows "\<not> flagged ev EPOLLOUT \<and> \<not> flagged ev EPOLLRDHUP"
  using assms by (auto simp: server_ok_def event_ok_def interest_bits)

lemma resume_client:
  assumes "server_ok server h clients" and "clients fd = Some c" and "sender c \<noteq> None"
    and "bind_io (resume_sending (client_at clients fd)) (\<lambda>c. ret (clients(fd \<mapsto> c))) h = (q, h')"
  shows "q \<noteq> Undefined \<and> (\<forall>cl. q = Ret cl \<longrightarrow> server_ok server h' cl)"
proof -
  note c = server_ok_client [OF assms(1,2)]
  obtain r h1 where run: "resume_sending c h = (r, h1)" by fastforce
  have after: "client_after fd h r h1"
    using resume_sending_after [of h c r h1] c assms(3) run by auto
  show ?thesis
  proof (cases "\<exists>c'. r = Ret c'")
    case True
    then obtain c' where r: "r = Ret c'" by blast
    with assms(2,4) run have "q = Ret (clients(fd \<mapsto> c'))" "h' = h1"
      by (simp_all add: client_at_def bind_io_def ret_def)
    with server_ok_client_after [OF assms(1,2)] after r show ?thesis by simp
  next
    case False
    then have no: "\<forall>x. r \<noteq> Ret x" by blast
    from assms(2) have at: "client_at clients fd = c" by (simp add: client_at_def)
    note stop = bind_io_not_Ret [where m = "resume_sending c" and s = h, OF run no]
    from assms(4) have "q = pass r" unfolding at stop by simp
    with after show ?thesis by (simp add: client_after_def pass_keeps [OF no])
  qed
qed

lemma output_result:
  assumes "server_ok server h clients" and "clients (ev_fd ev) = Some c" and "handle_output ev clients h = (q, h')"
  shows "(q = Undefined \<longleftrightarrow> flagged ev EPOLLOUT \<and> sender c = None) \<and> (\<forall>cl. q = Ret cl \<longrightarrow> server_ok server h' cl)"
proof (cases "flagged ev EPOLLOUT")
  case False
  with assms show ?thesis by (auto simp: handle_output_def ret_def)
next
  case True
  then have run: "bind_io (resume_sending (client_at clients (ev_fd ev))) (\<lambda>c. ret (clients(ev_fd ev \<mapsto> c))) h = (q, h')"
    using assms(3) by (simp add: handle_output_def)
  show ?thesis
  proof (cases "sender c = None")
    case True
    with run assms(2) \<open>flagged ev EPOLLOUT\<close> show ?thesis
      by (auto simp: client_at_def resume_sending_def halt_def bind_io_def)
  next
    case False
    with resume_client [OF assms(1,2) False run] show ?thesis by blast
  qed
qed

lemma event_on_server:
  assumes "server_ok server h clients" and "event_ok server h clients ev" and "ev_fd ev = server"
    and "handle_event env fs server lib ev clients h = (q, h')"
  shows "q \<noteq> Undefined \<and> (\<forall>cl. q = Ret cl \<longrightarrow> server_ok server h' cl)"
proof -
  note none = event_server [OF assms(1-3)]
  then have "handle_output ev = ret" by (simp add: handle_output_def fun_eq_iff)
  then have "handle_event env fs server lib ev clients = handle_first env fs server lib ev clients"
    by (auto simp: handle_event_def bind_io_def ret_def fun_eq_iff split: prod.splits outcome.splits)
  with assms none have run: "(if flagged ev EPOLLIN then setup_new_client env (ev_accept ev) clients lib else ret clients) h = (q, h')"
    by (simp add: handle_first_def split: if_split_asm)
  show ?thesis
  proof (cases "flagged ev EPOLLIN")
    case True
    with run have "setup_new_client env (ev_accept ev) clients lib h = (q, h')" by simp
    then show ?thesis
      using server_ok_new_client [OF assms(1)] assms(2) unfolding event_ok_def by blast
  next
    case False
    with run assms(1) show ?thesis by (auto simp: ret_def)
  qed
qed

lemma event_hangup:
  assumes "server_ok server h clients" and "clients (ev_fd ev) = Some c" and "flagged ev EPOLLRDHUP"
    and "handle_event env fs server lib ev clients h = (q, h')"
  shows "(q = Undefined \<longleftrightarrow> flagged ev EPOLLOUT) \<and> (\<forall>cl. q = Ret cl \<longrightarrow> server_ok server h' cl)"
proof -
  from server_ok_close [OF assms(1,2)] obtain h1 where
    h1: "handle_close c h = (Ret (), h1)" "server_ok server h1 (clients(ev_fd ev := None))" by blast
  have "handle_first env fs server lib ev clients h = (Ret (clients(ev_fd ev := None)), h1)"
    using assms(2,3) h1(1) by (simp add: handle_first_def client_at_def then_io_def bind_io_def ret_def)
  with assms(4) have out: "handle_output ev (clients(ev_fd ev := None)) h1 = (q, h')"
    by (simp add: handle_event_def bind_io_def)
  with h1(2) show ?thesis
    by (cases "flagged ev EPOLLOUT")
      (auto simp: handle_output_def client_at_def ConnectedClient_default_def resume_sending_def halt_def bind_io_def ret_def)
qed

lemma event_input:
  assumes "server_ok server h clients" and "clients (ev_fd ev) = Some c" and "\<not> flagged ev EPOLLRDHUP"
    and "flagged ev EPOLLIN" and "ev_fd ev \<noteq> server" and "flagged ev EPOLLOUT \<longrightarrow> cstate c = SENDING"
    and "ev_recv ev = Received got" and "Header_size \<le> length got"
    and "handle_event env fs server lib ev clients h = (q, h')"
  shows "(q = Undefined \<longleftrightarrow> flagged ev EPOLLOUT \<and> hd got = 6) \<and> (\<forall>cl. q = Ret cl \<longrightarrow> server_ok server h' cl)"
proof -
  note c = server_ok_client [OF assms(1,2)]
  obtain r h1 where run: "handle_input fs (ev_junk ev) (Received got) c h = (r, h1)" by fastforce
  have after: "client_after (ev_fd ev) h r h1"
    using handle_input_after [of h c fs "ev_junk ev" got r h1] c run assms(8) by simp
  let ?m = "handle_input fs (ev_junk ev) (Received got) c"
  have first: "handle_first env fs server lib ev clients = bind_io ?m (\<lambda>c. ret (clients(ev_fd ev \<mapsto> c)))"
    using assms(2-7) by (simp add: handle_first_def client_at_def)
  have event: "handle_event env fs server lib ev clients = bind_io ?m (\<lambda>c. handle_output ev (clients(ev_fd ev \<mapsto> c)))"
    unfolding handle_event_def first by (simp add: bind_io_assoc bind_io_ret_left)
  show ?thesis
  proof (cases "\<exists>c'. r = Ret c'")
    case False
    then have no: "\<forall>x. r \<noteq> Ret x" by blast
    note stop = bind_io_not_Ret [where m = ?m and s = h, OF run no]
    from assms(9) have q: "q = pass r" unfolding event stop by simp
    moreover have "hd got \<noteq> 6"
      using handle_input_state(2) [of h c got fs "ev_junk ev"] c assms(8) run no by auto
    ultimately show ?thesis
      using after by (simp add: client_after_def pass_keeps [OF no])
  next
    case True
    then obtain c' where r: "r = Ret c'" by blast
    with after server_ok_client_after [OF assms(1,2)] have ok: "server_ok server h1 (clients(ev_fd ev \<mapsto> c'))" by blast
    have out: "handle_output ev (clients(ev_fd ev \<mapsto> c')) h1 = (q, h')"
      using assms(9) run unfolding event by (simp add: bind_io_def r)
    have "flagged ev EPOLLOUT \<longrightarrow> (sender c' = None \<longleftrightarrow> hd got = 6)"
      using handle_input_state(1) [of h c got fs "ev_junk ev" c' h1] c assms(6,8) run r by blast
    with output_result [OF ok _ out] show ?thesis by auto
  qed
qed

lemma handle_event_result:
  assumes "server_ok server h clients" and "event_ok server h clients ev"
    and "handle_event env fs server lib ev clients h = (q, h')"
  shows "(q = Undefined \<longleftrightarrow> event_fatal server ev) \<and> (\<forall>cl. q = Ret cl \<longrightarrow> server_ok server h' cl)"
proof (cases "ev_fd ev = server")
  case True
  with event_on_server [OF assms(1,2) True assms(3)] show ?thesis by (simp add: event_fatal_def)
next
  case fd: False
  from event_client [OF assms(1,2) fd] obtain c where c: "clients (ev_fd ev) = Some c"
    "flagged ev EPOLLOUT \<longrightarrow> cstate c = SENDING \<and> sender c \<noteq> None" by blast
  consider (hangup) "flagged ev EPOLLRDHUP"
    | (failed) "\<not> flagged ev EPOLLRDHUP" "flagged ev EPOLLIN"
        "ev_recv ev = Recv_Error \<or> (\<exists>got. ev_recv ev = Received got \<and> length got < Header_size)"
    | (input) got where "\<not> flagged ev EPOLLRDHUP" "flagged ev EPOLLIN" "ev_recv ev = Received got" "Header_size \<le> length got"
    | (none) "\<not> flagged ev EPOLLRDHUP" "\<not> flagged ev EPOLLIN"
    by (cases "ev_recv ev") force+
  then show ?thesis
  proof cases
    case hangup
    with event_hangup [OF assms(1) c(1) hangup assms(3)] fd show ?thesis by (simp add: event_fatal_def)
  next
    case failed
    then have first: "handle_first env fs server lib ev clients =
        bind_io (handle_input fs (ev_junk ev) (ev_recv ev) c) (\<lambda>c. ret (clients(ev_fd ev \<mapsto> c)))"
      using fd c(1) by (simp add: handle_first_def client_at_def)
    have "handle_input fs (ev_junk ev) (ev_recv ev) c h = (if ev_recv ev = Recv_Error then Exit_Failure else Undefined, h)"
      using failed(3) recv_buffer_header
      by (auto simp: handle_input_def Let_def halt_def split: option.splits)
    with assms(3) failed fd show ?thesis
      by (auto simp: handle_event_def first bind_io_def event_fatal_def split: if_splits)
  next
    case (input got)
    with event_input [OF assms(1) c(1) input(1,2) fd _ input(3,4) assms(3)] c(2) fd show ?thesis
      by (simp add: event_fatal_def not_less)
  next
    case none
    then have "handle_output ev clients h = (q, h')"
      using assms(3) by (simp add: handle_event_def handle_first_def bind_io_ret_left)
    with output_result [OF assms(1) c(1)] none c(2) show ?thesis by (auto simp: event_fatal_def)
  qed
qed

text \<open>C23: Handling an event runs into undefined behaviour exactly in three cases: the client hung up and its
  socket is writable, it sent fewer than five bytes, or it sent STOP and its socket is writable.\<close>

theorem fatal_events:
  assumes "server_ok server h clients" and "event_ok server h clients ev"
  shows "(\<exists>h'. handle_event env fs server lib ev clients h = (Undefined, h')) \<longleftrightarrow>
    ev_fd ev \<noteq> server \<and>
    (if flagged ev EPOLLRDHUP then flagged ev EPOLLOUT
     else flagged ev EPOLLIN \<and> (\<exists>got. ev_recv ev = Received got \<and>
       (length got < 5 \<or> flagged ev EPOLLOUT \<and> hd got = byte_of_message STOP_REQUEST)))"
proof -
  obtain q h' where run: "handle_event env fs server lib ev clients h = (q, h')" by fastforce
  with handle_event_result [OF assms run] show ?thesis
    by (cases "ev_recv ev") (auto simp: event_fatal_def Header_size_def)
qed

abbreviation (input) demo_event :: "int \<Rightarrow> u32 \<Rightarrow> recv_result \<Rightarrow> int option \<Rightarrow> io_event" where
  "demo_event fd bits r a \<equiv> \<lparr>ev_fd = fd, ev_mask = bits, ev_recv = r, ev_junk = \<lambda>_. 0, ev_accept = a\<rparr>"

abbreviation (input) sending_client :: ConnectedClient where
  "sending_client \<equiv> demo_client\<lparr>cstate := SENDING, sender := Some (Array_Sender (ArraySender_new [1, 2, 3]))\<rparr>"

abbreviation (input) sending_host :: host where
  "sending_host \<equiv> (demo_host [])\<lparr>interest := [3 \<mapsto> EPOLLIN, 5 \<mapsto> client_interest SENDING]\<rparr>"

theorem fatal_events_witness:
  "\<exists>h'. handle_event \<lparr>fcntl_fails = \<lambda>_. False, reuseaddr_fails = False, listen_bind_fails = False, listen_fails = False,
      epoll_create_fails = False, listen_fd = 3\<rparr> (\<lambda>_. None) 3 demo_library
      (demo_event 5 (EPOLLIN OR EPOLLOUT) (Received (request_bytes STOP_REQUEST [])) None) [5 \<mapsto> sending_client] sending_host
    = (Undefined, h')"
proof -
  let ?ev = "demo_event 5 (EPOLLIN OR EPOLLOUT) (Received (request_bytes STOP_REQUEST [])) None"
  have "client_ok sending_host sending_client" by (simp add: client_ok_def)
  then have ok: "server_ok 3 sending_host [5 \<mapsto> sending_client]" by (simp add: server_ok_def)
  have "event_ok 3 sending_host [5 \<mapsto> sending_client] ?ev"
    by (simp add: event_ok_def flagged_def client_interest_def epoll_defs)
  from fatal_events [OF ok this] show ?thesis
    by (simp add: flagged_def epoll_defs request_bytes_def)
qed

section \<open>Every state of the server\<close>

inductive server_step :: "host_env \<Rightarrow> files \<Rightarrow> int \<Rightarrow> SongLibrary \<Rightarrow> host \<times> clients \<Rightarrow> host \<times> clients \<Rightarrow> bool"
  for env fs server lib where
  an_event: "event_ok server h clients ev \<Longrightarrow> handle_event env fs server lib ev clients h' = (Ret clients', h'') \<Longrightarrow>
    h' = h\<lparr>send_script := scr\<rparr> \<Longrightarrow> server_step env fs server lib (h, clients) (h'', clients')"

inductive_cases server_stepE: "server_step env fs server lib s t"

lemma server_ok_script [simp]: "server_ok server (h\<lparr>send_script := scr\<rparr>) clients = server_ok server h clients"
  by (simp add: server_ok_def client_ok_def)

lemma event_ok_script [simp]: "event_ok server (h\<lparr>send_script := scr\<rparr>) clients ev = event_ok server h clients ev"
  by (simp add: event_ok_def)

interpretation server: step_invariant "server_step env fs server lib" "\<lambda>(h, clients). server_ok server h clients"
  for env fs server lib
proof
  fix s t
  assume "server_step env fs server lib s t" and ok: "case s of (h, clients) \<Rightarrow> server_ok server h clients"
  then show "case t of (h, clients) \<Rightarrow> server_ok server h clients"
  proof (elim server_stepE, clarsimp)
    fix h clients ev scr clients' h''
    assume ok: "server_ok server h clients" and ev: "event_ok server h clients ev"
      and run: "handle_event env fs server lib ev clients (h\<lparr>send_script := scr\<rparr>) = (Ret clients', h'')"
    show "server_ok server h'' clients'"
      using handle_event_result [OF _ _ run] ok ev by simp
  qed
qed

text \<open>The state in which the main program enters the loop.\<close>

definition started :: "int \<Rightarrow> host" where
  "started server = \<lparr>send_script = [], sent = \<lambda>_. [], interest = [server \<mapsto> EPOLLIN], nonblocking = {server}, wr_shut = {}\<rparr>"

text \<open>C21: In every state the server reaches, whatever the order of the events and however much the kernel
  takes of what is sent, each client is registered under its own descriptor on a non-blocking
  socket, is in its sending state exactly if it holds a sender, and is asked for writability
  exactly then; no other descriptor is registered.\<close>

theorem server_invariant:
  assumes "(server_step env fs server lib)\<^sup>*\<^sup>* (started server, Map.empty) (h, clients)"
  shows "(clients fd = Some c \<longrightarrow> client_fd c = fd \<and> fd \<noteq> server \<and> fd \<in> nonblocking h
      \<and> (cstate c = SENDING \<longleftrightarrow> sender c \<noteq> None)
      \<and> interest h fd = Some (if sender c = None then EPOLLIN OR EPOLLRDHUP else EPOLLIN OR EPOLLOUT OR EPOLLRDHUP))
    \<and> (clients fd = None \<longrightarrow> interest h fd = (if fd = server then Some EPOLLIN else None))"
proof -
  have "server_ok server (started server) Map.empty" by (simp add: server_ok_def started_def)
  with server.inv_steps [OF assms] have ok: "server_ok server h clients" by simp
  show ?thesis
  proof (intro conjI impI)
    assume "clients fd = Some c"
    from server_ok_client [OF ok this]
    show "client_fd c = fd" "fd \<noteq> server" "fd \<in> nonblocking h" "cstate c = SENDING \<longleftrightarrow> sender c \<noteq> None"
      "interest h fd = Some (if sender c = None then EPOLLIN OR EPOLLRDHUP else EPOLLIN OR EPOLLOUT OR EPOLLRDHUP)"
      by (auto simp: client_ok_def client_interest_def)
  qed (use ok in \<open>auto simp: server_ok_def\<close>)
qed

theorem server_invariant_witness:
  "\<exists>h clients c. (server_step \<lparr>fcntl_fails = \<lambda>_. False, reuseaddr_fails = False, listen_bind_fails = False, listen_fails = False,
      epoll_create_fails = False, listen_fd = 3\<rparr> (\<lambda>_. None) 3 demo_library)\<^sup>*\<^sup>* (started 3, Map.empty) (h, clients)
    \<and> clients 5 = Some c \<and> interest h 5 = Some (EPOLLIN OR EPOLLRDHUP) \<and> 5 \<in> nonblocking h"
proof -
  let ?env = "\<lparr>fcntl_fails = \<lambda>_. False, reuseaddr_fails = False, listen_bind_fails = False, listen_fails = False,
      epoll_create_fails = False, listen_fd = 3\<rparr>"
  let ?ev = "demo_event 3 EPOLLIN Recv_Error (Some 5)" and ?c = "ConnectedClient_new 5 RECEIVING (Some demo_library)"
  let ?h = "(started 3)\<lparr>nonblocking := insert 5 (nonblocking (started 3)),
      interest := (interest (started 3))(5 \<mapsto> EPOLLIN OR EPOLLRDHUP)\<rparr>"
  have "handle_event ?env (\<lambda>_. None) 3 demo_library ?ev Map.empty ((started 3)\<lparr>send_script := []\<rparr>) = (Ret [5 \<mapsto> ?c], ?h)"
    by (simp add: handle_event_def handle_first_def handle_output_def flagged_def epoll_defs setup_new_client_def
        accept_connection_sys_def bind_io_def then_io_def ret_def upd_def set_non_blocking_def add_socket_to_epoll_def started_def)
  moreover have "event_ok 3 (started 3) Map.empty ?ev"
    by (simp add: event_ok_def started_def flagged_def epoll_defs)
  ultimately have "server_step ?env (\<lambda>_. None) 3 demo_library (started 3, Map.empty) (?h, [5 \<mapsto> ?c])"
    by (intro server_step.intros) (assumption, assumption, rule refl)
  then have run: "(server_step ?env (\<lambda>_. None) 3 demo_library)\<^sup>*\<^sup>* (started 3, Map.empty) (?h, [5 \<mapsto> ?c])" by blast
  from server_invariant [OF run, of 5 ?c] run show ?thesis
    by (intro exI conjI) (assumption, simp_all add: ConnectedClient_new_def)
qed

lemma main_enters_loop:
  assumes "stoul port_arg = Inr port"
    and "\<not> fcntl_fails env (listen_fd env)" "\<not> reuseaddr_fails env" "\<not> listen_bind_fails env" "\<not> listen_fails env"
      "\<not> epoll_create_fails env"
  shows "music_main env fs 3 port_arg True is_file entries waits
      \<lparr>send_script = [], sent = \<lambda>_. [], interest = Map.empty, nonblocking = {}, wr_shut = {}\<rparr> =
    event_loop env fs (listen_fd env) (scan_files is_file entries SongLibrary_new) waits Map.empty (started (listen_fd env))"
  using assms by (simp add: music_main_def setup_server_socket_def then_io_def bind_io_def upd_def ret_def
      set_non_blocking_def add_socket_to_epoll_def started_def Let_def)

end
