(* ===== verification/Music_Isolation.thy ===== *)
theory Music_Isolation
  imports Music_Server
begin

text \<open>
  The clients of the music server do not disturb each other: as long as the server keeps running, what
  a client gets and in which state it is depends only on the events of its own socket and on what
  the kernel took of its own data. The locale states this for any system of events; its contract is
  that an event which does not concern a user is invisible to him, and that one which does only
  depends on what he sees.
\<close>

section \<open>Unwinding\<close>

fun run_events :: "('e \<Rightarrow> 's \<Rightarrow> 's option) \<Rightarrow> 'e list \<Rightarrow> 's \<Rightarrow> 's option" where
  "run_events step [] s = Some s"
| "run_events step (e # es) s = (case step e s of None \<Rightarrow> None | Some s' \<Rightarrow> run_events step es s')"

locale unwinding =
  fixes step :: "'e \<Rightarrow> 's \<Rightarrow> 's option"
    and inv :: "'s \<Rightarrow> bool"
    and view :: "'u \<Rightarrow> 's \<Rightarrow> 's \<Rightarrow> bool"
    and concerns :: "'u \<Rightarrow> 'e \<Rightarrow> bool"
  assumes inv_step: "inv s \<Longrightarrow> step e s = Some s' \<Longrightarrow> inv s'"
    and invisible: "inv s \<Longrightarrow> \<not> concerns u e \<Longrightarrow> step e s = Some s' \<Longrightarrow> view u s t \<Longrightarrow> view u s' t"
    and consistent: "inv s \<Longrightarrow> inv t \<Longrightarrow> concerns u e \<Longrightarrow> view u s t \<Longrightarrow> step e s = Some s' \<Longrightarrow>
      \<exists>t'. step e t = Some t' \<and> view u s' t'"
begin

lemma purged_run:
  "run_events step es s = Some s' \<Longrightarrow> inv s \<Longrightarrow> inv t \<Longrightarrow> view u s t \<Longrightarrow>
     \<exists>t'. run_events step (filter (concerns u) es) t = Some t' \<and> view u s' t'"
proof (induction es arbitrary: s t)
  case (Cons e es)
  from Cons.prems(1) obtain s1 where s1: "step e s = Some s1" "run_events step es s1 = Some s'"
    by (auto split: option.splits)
  note inv1 = inv_step [OF Cons.prems(2) s1(1)]
  show ?case
  proof (cases "concerns u e")
    case True
    from consistent [OF Cons.prems(2,3) True Cons.prems(4) s1(1)] obtain t1 where
      t1: "step e t = Some t1" "view u s1 t1" by blast
    from Cons.IH [OF s1(2) inv1 inv_step [OF Cons.prems(3) t1(1)] t1(2)] True t1(1) show ?thesis by simp
  next
    case False
    from Cons.IH [OF s1(2) inv1 Cons.prems(3) invisible [OF Cons.prems(2) False s1(1) Cons.prems(4)]] False
    show ?thesis by simp
  qed
qed simp

end

section \<open>Operations on one socket\<close>

text \<open>What the kernel knows about one socket.\<close>

definition same_socket :: "int \<Rightarrow> host \<Rightarrow> host \<Rightarrow> bool" where
  "same_socket fd h k \<longleftrightarrow> sent k fd = sent h fd \<and> interest k fd = interest h fd
     \<and> (fd \<in> wr_shut k \<longleftrightarrow> fd \<in> wr_shut h) \<and> (fd \<in> nonblocking k \<longleftrightarrow> fd \<in> nonblocking h)"

text \<open>\<open>local_op fd\<close> operations leave the other sockets alone, and what they do and give depends only on \<open>fd\<close>
  and the results of \<open>send\<close>.\<close>

definition local_op :: "int \<Rightarrow> 'a host_io \<Rightarrow> bool" where
  "local_op fd m \<longleftrightarrow> (\<forall>h q h'. m h = (q, h') \<longrightarrow> touches fd h h'
     \<and> (\<forall>k. same_socket fd h k \<longrightarrow> send_script k = send_script h \<longrightarrow>
          (\<exists>k'. m k = (q, k') \<and> same_socket fd h' k' \<and> send_script k' = send_script h')))"

named_theorems local_intros \<open>operations on one socket\<close>

lemma local_ret [local_intros]: "local_op fd (ret x)"
  by (simp add: local_op_def ret_def)

lemma local_halt [local_intros]: "local_op fd (halt q)"
  by (simp add: local_op_def halt_def)

lemma local_of_option [local_intros]: "local_op fd (of_option x)"
  by (cases x) (simp_all add: of_option_def local_intros)

lemma local_opD:
  assumes "local_op fd m" and "m h = (q, h')"
  shows "touches fd h h'"
    and "same_socket fd h k \<Longrightarrow> send_script k = send_script h \<Longrightarrow>
      \<exists>k'. m k = (q, k') \<and> same_socket fd h' k' \<and> send_script k' = send_script h'"
  using assms unfolding local_op_def by blast+

lemma local_bind_result:
  assumes "local_op fd m" and "\<And>x h h'. m h = (Ret x, h') \<Longrightarrow> local_op fd (f x)"
  shows "local_op fd (bind_io m f)"
  unfolding local_op_def
proof (intro allI impI)
  fix h q h'
  assume run: "bind_io m f h = (q, h')"
  obtain r h1 where m: "m h = (r, h1)" by fastforce
  show "touches fd h h' \<and> (\<forall>k. same_socket fd h k \<longrightarrow> send_script k = send_script h \<longrightarrow>
      (\<exists>k'. bind_io m f k = (q, k') \<and> same_socket fd h' k' \<and> send_script k' = send_script h'))"
  proof (cases "\<exists>x. r = Ret x")
    case True
    then obtain x where r: "r = Ret x" ..
    with m run have f: "f x h1 = (q, h')" by (simp add: bind_io_def)
    note local_f = assms(2) [OF m [unfolded r]]
    show ?thesis
    proof (intro conjI allI impI)
      show "touches fd h h'"
        using touches_trans [OF local_opD(1) [OF assms(1) m] local_opD(1) [OF local_f f]] .
    next
      fix k
      assume "same_socket fd h k" and "send_script k = send_script h"
      from local_opD(2) [OF assms(1) m this] obtain k1 where
        k1: "m k = (r, k1)" "same_socket fd h1 k1" "send_script k1 = send_script h1" by blast
      from local_opD(2) [OF local_f f k1(2,3)] k1(1) r
      show "\<exists>k'. bind_io m f k = (q, k') \<and> same_socket fd h' k' \<and> send_script k' = send_script h'"
        by (simp add: bind_io_def)
    qed
  next
    case False
    with m run have q: "q = pass r" "h' = h1" by (cases r; simp add: bind_io_def)+
    show ?thesis
    proof (intro conjI allI impI)
      show "touches fd h h'" using local_opD(1) [OF assms(1) m] q by simp
    next
      fix k
      assume "same_socket fd h k" and "send_script k = send_script h"
      from local_opD(2) [OF assms(1) m this] obtain k1 where
        k1: "m k = (r, k1)" "same_socket fd h1 k1" "send_script k1 = send_script h1" by blast
      with False q show "\<exists>k'. bind_io m f k = (q, k') \<and> same_socket fd h' k' \<and> send_script k' = send_script h'"
        by (cases r) (simp_all add: bind_io_def)
    qed
  qed
qed

lemma local_bind [local_intros]: "local_op fd m \<Longrightarrow> (\<And>x. local_op fd (f x)) \<Longrightarrow> local_op fd (bind_io m f)"
  by (rule local_bind_result)

lemma local_then [local_intros]: "local_op fd m \<Longrightarrow> local_op fd k \<Longrightarrow> local_op fd (then_io m k)"
  unfolding then_io_def by (rule local_bind)

lemma local_if [local_intros]: "(b \<Longrightarrow> local_op fd m) \<Longrightarrow> (\<not> b \<Longrightarrow> local_op fd k) \<Longrightarrow> local_op fd (if b then m else k)"
  by simp

lemma local_kernel [local_intros]:
  "local_op fd (modify_socket_in_epoll fd events)" "local_op fd (remove_socket_from_epoll fd)"
  "local_op fd (add_socket_to_epoll fd events)" "local_op fd (set_non_blocking env fd)"
  "local_op fd (close_fd fd)" "local_op fd (shutdown_wr fd)"
  by (auto simp: local_op_def modify_socket_in_epoll_def remove_socket_from_epoll_def add_socket_to_epoll_def
      set_non_blocking_def close_fd_def shutdown_wr_def upd_def halt_def same_socket_def touches_def split: if_splits)

lemma local_send_sys [local_intros]: "local_op fd (send_sys fd data)"
  by (auto simp: local_op_def send_sys_def same_socket_def touches_def Let_def split: if_splits list.splits send_result.splits)


lemma local_send_next_chunk [local_intros]: "local_op fd (send_next_chunk fd s)"
proof (cases s)
  case (Array_Sender a)
  then show ?thesis
    by (auto simp: array_send_next_chunk_def Let_def intro!: local_intros split: send_result.split)
next
  case (File_Sender f)
  then show ?thesis
    by (auto simp: file_send_next_chunk_def Let_def intro!: local_intros split: send_result.split prod.split)
qed

lemma local_send_loop_step:
  "send_loop fd s tot h = (q, h') \<Longrightarrow> touches fd h h' \<and> (\<forall>k. same_socket fd h k \<longrightarrow> send_script k = send_script h \<longrightarrow>
     (\<exists>k'. send_loop fd s tot k = (q, k') \<and> same_socket fd h' k' \<and> send_script k' = send_script h'))"
proof (induction fd s tot h rule: send_loop.induct)
  case (1 fd s tot h)
  obtain r h1 where step: "send_next_chunk fd s h = (r, h1)" by fastforce
  note chunk = local_opD [OF local_send_next_chunk step]
  show ?case
  proof (cases "\<exists>n s'. r = Ret (n, s') \<and> 0 < n")
    case True
    then obtain n s' where r: "r = Ret (n, s')" "0 < n" by blast
    with 1(2) step have loop: "send_loop fd s' (tot + n) h1 = (q, h')" by (simp add: send_loop.simps [of fd s])
    note IH = 1(1) [OF step [unfolded r(1), symmetric] refl refl r(2) loop]
    show ?thesis
    proof (intro conjI allI impI)
      show "touches fd h h'" using touches_trans [OF chunk(1)] IH by blast
    next
      fix k
      assume "same_socket fd h k" and "send_script k = send_script h"
      from chunk(2) [OF this] obtain k1 where
        k1: "send_next_chunk fd s k = (r, k1)" "same_socket fd h1 k1" "send_script k1 = send_script h1" by blast
      from IH k1(2,3) obtain k' where
        k': "send_loop fd s' (tot + n) k1 = (q, k')" "same_socket fd h' k'" "send_script k' = send_script h'" by blast
      with k1(1) r show "\<exists>k'. send_loop fd s tot k = (q, k') \<and> same_socket fd h' k' \<and> send_script k' = send_script h'"
        by (simp add: send_loop.simps [of fd s])
    qed
  next
    case False
    have stop: "send_loop fd s tot k = (q, k1) \<and> h' = h1" if "send_next_chunk fd s k = (r, k1)" for k k1
      using False that step 1(2) by (cases r) (auto simp: send_loop.simps [of fd s])
    show ?thesis
    proof (intro conjI allI impI)
      show "touches fd h h'" using chunk(1) stop [OF step] by simp
    next
      fix k
      assume "same_socket fd h k" and "send_script k = send_script h"
      from chunk(2) [OF this] stop
      show "\<exists>k'. send_loop fd s tot k = (q, k') \<and> same_socket fd h' k' \<and> send_script k' = send_script h'" by blast
    qed
  qed
qed

lemma local_send_loop [local_intros]: "local_op fd (send_loop fd s tot)"
  using local_send_loop_step unfolding local_op_def by blast


section \<open>The methods of one client\<close>

text \<open>A method of the client on \<open>fd\<close> is an operation on \<open>fd\<close>, and the client stays that of \<open>fd\<close>.\<close>

definition local_client :: "int \<Rightarrow> ConnectedClient host_io \<Rightarrow> bool" where
  "local_client fd m \<longleftrightarrow> local_op fd m \<and> (\<forall>h c h'. m h = (Ret c, h') \<longrightarrow> client_fd c = fd)"

lemma local_clientD: "local_client fd m \<Longrightarrow> local_op fd m" "local_client fd m \<Longrightarrow> m h = (Ret c, h') \<Longrightarrow> client_fd c = fd"
  by (auto simp: local_client_def)

lemma local_client_ret [local_intros]: "client_fd c = fd \<Longrightarrow> local_client fd (ret c)"
  using local_ret [of fd c] by (simp add: local_client_def) (simp add: ret_def)

lemma local_client_halt [local_intros]: "(\<And>c. q \<noteq> Ret c) \<Longrightarrow> local_client fd (halt q)"
  using local_halt [of fd q] by (simp add: local_client_def) (simp add: halt_def)

lemma local_client_after:
  assumes "local_op fd m" and "\<And>x. local_client fd (f x)"
  shows "local_client fd (bind_io m f)"
  unfolding local_client_def
proof (intro conjI allI impI)
  show "local_op fd (bind_io m f)" using assms local_clientD(1) by (intro local_bind) blast+
  show "client_fd c = fd" if "bind_io m f h = (Ret c, h')" for h c h'
    using that local_clientD(2) [OF assms(2)] by (blast elim!: bind_io_RetE)
qed

lemma local_client_then [local_intros]: "local_op fd m \<Longrightarrow> local_client fd k \<Longrightarrow> local_client fd (then_io m k)"
  unfolding then_io_def by (rule local_client_after)

lemma local_op_client:
  "local_client fd m \<Longrightarrow> (\<And>c. client_fd c = fd \<Longrightarrow> local_op fd (f c)) \<Longrightarrow> local_op fd (bind_io m f)"
  by (rule local_bind_result) (auto dest: local_clientD)

lemma local_client_bind:
  assumes "local_client fd m" and "\<And>c. client_fd c = fd \<Longrightarrow> local_client fd (f c)"
  shows "local_client fd (bind_io m f)"
  unfolding local_client_def
proof (intro conjI allI impI)
  show "local_op fd (bind_io m f)" using assms local_clientD(1) by (intro local_op_client) blast+
  show "client_fd c = fd" if "bind_io m f h = (Ret c, h')" for h c h'
    using that local_clientD(2) [OF assms(1)] local_clientD(2) [OF assms(2)] by (blast elim!: bind_io_RetE)
qed

lemma local_client_if [local_intros]:
  "(b \<Longrightarrow> local_client fd m) \<Longrightarrow> (\<not> b \<Longrightarrow> local_client fd k) \<Longrightarrow> local_client fd (if b then m else k)"
  by simp

lemma local_send_with_sender: "client_fd c = fd \<Longrightarrow> local_client fd (send_with_sender c s)"
  unfolding send_with_sender_def by (intro local_client_after) (auto intro!: local_intros split: prod.split)

lemma local_send_message: "client_fd c = fd \<Longrightarrow> local_client fd (send_message c data)"
  by (simp add: send_message_def local_send_with_sender)

lemma local_send_message_file: "client_fd c = fd \<Longrightarrow> local_client fd (send_message_file fs c p)"
  by (auto simp: send_message_file_def intro!: local_intros local_send_with_sender split: option.split)

lemma local_resume_sending: "client_fd c = fd \<Longrightarrow> local_client fd (resume_sending c)"
  unfolding resume_sending_def
  by (cases "sender c") (auto intro!: local_intros local_client_after split: prod.split)

lemma local_send_response: "client_fd c = fd \<Longrightarrow> local_client fd (send_response c ty data)"
  unfolding send_response_def by (intro local_client_bind local_send_message)

lemma local_handle_play: "client_fd c = fd \<Longrightarrow> local_client fd (handle_play fs c lib i)"
  unfolding handle_play_def
  by (auto intro!: local_intros local_send_response local_client_bind local_send_message local_send_message_file
      split: option.split)

lemma local_handle_stop: "client_fd c = fd \<Longrightarrow> local_client fd (handle_stop c)"
  unfolding handle_stop_def by (intro local_client_bind) (auto intro!: local_intros)

lemma local_handle_request: "client_fd c = fd \<Longrightarrow> local_client fd (handle_request fs c hdr data)"
  by (cases "hdr_get_type hdr")
    (auto simp: handle_request_def intro!: local_client_after local_of_option local_send_response local_handle_play local_handle_stop)

lemma local_handle_input: "client_fd c = fd \<Longrightarrow> local_client fd (handle_input fs junk r c)"
  by (auto simp: handle_input_def Let_def intro!: local_intros local_handle_request split: recv_result.split option.split)

lemma local_handle_close: "client_fd c = fd \<Longrightarrow> local_op fd (handle_close c)"
  by (auto simp: handle_close_def intro!: local_intros)

section \<open>Events of one client\<close>

definition client_output :: "io_event \<Rightarrow> ConnectedClient \<Rightarrow> ConnectedClient option host_io" where
  "client_output ev c = (if flagged ev EPOLLOUT then bind_io (resume_sending c) (\<lambda>c'. ret (Some c')) else ret (Some c))"

definition client_event :: "files \<Rightarrow> io_event \<Rightarrow> ConnectedClient \<Rightarrow> ConnectedClient option host_io" where
  "client_event fs ev c =
     (if flagged ev EPOLLRDHUP then
        then_io (handle_close c) (if flagged ev EPOLLOUT then halt Undefined else ret None)
      else if flagged ev EPOLLIN then bind_io (handle_input fs (ev_junk ev) (ev_recv ev) c) (client_output ev)
      else client_output ev c)"

lemma local_client_event:
  assumes "client_fd c = fd"
  shows "local_op fd (client_event fs ev c)"
proof -
  have out: "local_op (client_fd c) (client_output ev c')" if "client_fd c' = client_fd c" for c'
    using that by (auto simp: client_output_def intro!: local_intros local_resume_sending [THEN local_clientD(1)])
  show ?thesis
    unfolding client_event_def using out assms
    by (auto intro!: local_intros local_handle_close local_op_client [OF local_handle_input])
qed

lemma handle_event_client:
  assumes "clients (ev_fd ev) = Some c" and "ev_fd ev \<noteq> server"
  shows "handle_event env fs server lib ev clients =
    bind_io (client_event fs ev c) (\<lambda>r. ret (clients(ev_fd ev := r)))"
proof -
  have at: "client_at clients (ev_fd ev) = c" "clients(ev_fd ev \<mapsto> c) = clients"
    using assms(1) by (auto simp: client_at_def)
  have hung_up: "resume_sending (client_at (clients(ev_fd ev := None)) (ev_fd ev)) = halt Undefined"
    by (simp add: client_at_def ConnectedClient_default_def resume_sending_def)
  have halt_stays: "bind_io (halt Undefined) f = halt Undefined" for f :: "'x \<Rightarrow> 'y host_io"
    by (simp add: bind_io_def halt_def fun_eq_iff)
  have out: "handle_output ev (clients(ev_fd ev \<mapsto> c')) = bind_io (client_output ev c') (\<lambda>r. ret (clients(ev_fd ev := r)))" for c'
    by (simp add: handle_output_def client_output_def client_at_def bind_io_assoc bind_io_ret_left)
  show ?thesis
  proof (cases "flagged ev EPOLLRDHUP")
    case True
    then show ?thesis
      by (simp add: handle_event_def handle_first_def client_event_def at then_io_def bind_io_assoc bind_io_ret_left
          handle_output_def hung_up halt_stays)
  next
    case False
    with out [of c] out assms(2) show ?thesis
      by (auto simp: handle_event_def handle_first_def client_event_def at bind_io_assoc bind_io_ret_left)
  qed
qed


text \<open>The socket an event is about, and what it does to the client of that socket.\<close>

definition event_socket :: "int \<Rightarrow> io_event \<Rightarrow> int option" where
  "event_socket server ev = (if ev_fd ev = server then ev_accept ev else Some (ev_fd ev))"

definition socket_event :: "host_env \<Rightarrow> files \<Rightarrow> int \<Rightarrow> SongLibrary \<Rightarrow> io_event \<Rightarrow> int \<Rightarrow> ConnectedClient option
    \<Rightarrow> ConnectedClient option host_io" where
  "socket_event env fs server lib ev fd c =
     (if ev_fd ev \<noteq> server then bind_io (of_option c) (client_event fs ev)
      else if flagged ev EPOLLIN then
        then_io (set_non_blocking env fd)
          (then_io (add_socket_to_epoll fd (EPOLLIN OR EPOLLRDHUP)) (ret (Some (ConnectedClient_new fd RECEIVING (Some lib)))))
      else ret c)"

lemma local_socket_event:
  assumes "server_ok server h clients" and "event_socket server ev = Some fd"
  shows "local_op fd (socket_event env fs server lib ev fd (clients fd))"
proof (cases "ev_fd ev = server")
  case True
  then show ?thesis by (auto simp: socket_event_def intro!: local_intros)
next
  case False
  show ?thesis
  proof (cases "clients fd")
    case None
    with False show ?thesis by (simp add: socket_event_def of_option_def bind_io_def halt_def local_op_def)
  next
    case (Some c)
    with server_ok_client [OF assms(1) Some] False show ?thesis
      by (simp add: socket_event_def of_option_def bind_io_ret_left local_client_event)
  qed
qed

lemma handle_event_socket:
  assumes "server_ok server h clients" and "event_ok server h clients ev"
  shows "event_socket server ev = Some fd \<Longrightarrow> handle_event env fs server lib ev clients =
      bind_io (socket_event env fs server lib ev fd (clients fd)) (\<lambda>r. ret (clients(fd := r)))"
    and "event_socket server ev = None \<Longrightarrow> handle_event env fs server lib ev clients k = (Ret cl, k') \<Longrightarrow> cl = clients \<and> k' = k"
proof -
  {
    assume fd: "ev_fd ev \<noteq> server" and "event_socket server ev = Some fd"
    then have fd': "ev_fd ev = fd" by (simp add: event_socket_def)
    from event_client [OF assms fd] obtain c where c: "clients (ev_fd ev) = Some c" by blast
    from handle_event_client [of clients ev c server env fs lib] c fd
    have "handle_event env fs server lib ev clients =
        bind_io (socket_event env fs server lib ev fd (clients fd)) (\<lambda>r. ret (clients(fd := r)))"
      by (simp add: fd' socket_event_def of_option_def bind_io_ret_left)
  } note client = this
  {
    assume fd: "ev_fd ev = server"
    have "handle_output ev = ret" using event_server [OF assms fd] by (simp add: handle_output_def fun_eq_iff)
    then have "handle_event env fs server lib ev clients =
        (if flagged ev EPOLLIN then setup_new_client env (ev_accept ev) clients lib else ret clients)"
      using event_server [OF assms fd] fd by (simp add: handle_event_def handle_first_def bind_io_ret_right)
  } note listening = this
  show "handle_event env fs server lib ev clients =
      bind_io (socket_event env fs server lib ev fd (clients fd)) (\<lambda>r. ret (clients(fd := r)))"
    if "event_socket server ev = Some fd"
  proof (cases "ev_fd ev = server")
    case True
    with that have "ev_accept ev = Some fd" by (simp add: event_socket_def)
    with listening [OF True] True show ?thesis
      by (simp add: socket_event_def setup_new_client_def accept_connection_sys_def bind_io_ret_left then_io_def bind_io_assoc)
  qed (use client that in blast)
  show "cl = clients \<and> k' = k"
    if none: "event_socket server ev = None" and run: "handle_event env fs server lib ev clients k = (Ret cl, k')"
  proof -
    from none have fd: "ev_fd ev = server" and "ev_accept ev = None" by (simp_all add: event_socket_def split: if_splits)
    with run listening [OF fd] show ?thesis
      by (auto simp: setup_new_client_def accept_connection_sys_def bind_io_def halt_def ret_def split: if_splits)
  qed
qed


section \<open>No client sees the others\<close>

text \<open>
  A step of the server: an event, and how much of what is sent for it the kernel takes. \<open>accept\<close> is only
  called for the listening socket. An event that ends the server has no successor.
\<close>

type_synonym host_event = "io_event \<times> send_result list"

definition music_step :: "host_env \<Rightarrow> files \<Rightarrow> int \<Rightarrow> SongLibrary \<Rightarrow> host_event \<Rightarrow> host \<times> clients \<Rightarrow> (host \<times> clients) option" where
  "music_step env fs server lib = (\<lambda>(ev, scr) (h, clients).
     if event_ok server h clients ev \<and> (ev_fd ev \<noteq> server \<longrightarrow> ev_accept ev = None) then
       (case handle_event env fs server lib ev clients (h\<lparr>send_script := scr\<rparr>) of
          (Ret clients', h') \<Rightarrow> Some (h', clients')
        | _ \<Rightarrow> None)
     else None)"

definition same_client :: "int \<Rightarrow> host \<times> clients \<Rightarrow> host \<times> clients \<Rightarrow> bool" where
  "same_client fd = (\<lambda>(h, clients) (k, clients'). same_socket fd h k \<and> clients' fd = clients fd)"

definition concerns :: "int \<Rightarrow> int \<Rightarrow> host_event \<Rightarrow> bool" where
  "concerns server fd e \<longleftrightarrow> event_socket server (fst e) = Some fd"

lemma same_client_pair:
  "same_client fd (h, clients) (k, clients') \<longleftrightarrow> same_socket fd h k \<and> clients' fd = clients fd"
  by (simp add: same_client_def)

lemma same_socket_script [simp]: "same_socket fd (h\<lparr>send_script := a\<rparr>) (k\<lparr>send_script := b\<rparr>) \<longleftrightarrow> same_socket fd h k"
  by (simp add: same_socket_def)

lemma music_stepD:
  assumes "music_step env fs server lib (ev, scr) (h, clients) = Some (h', clients')"
  shows "event_ok server h clients ev" and "ev_fd ev \<noteq> server \<Longrightarrow> ev_accept ev = None"
    and "handle_event env fs server lib ev clients (h\<lparr>send_script := scr\<rparr>) = (Ret clients', h')"
  using assms by (auto simp: music_step_def split: if_splits prod.splits outcome.splits)

lemma music_stepI:
  "event_ok server h clients ev \<Longrightarrow> (ev_fd ev \<noteq> server \<Longrightarrow> ev_accept ev = None) \<Longrightarrow>
     handle_event env fs server lib ev clients (h\<lparr>send_script := scr\<rparr>) = (Ret clients', h') \<Longrightarrow>
     music_step env fs server lib (ev, scr) (h, clients) = Some (h', clients')"
  by (simp add: music_step_def)

lemma music_step_ok:
  assumes "server_ok server h clients" and "music_step env fs server lib (ev, scr) (h, clients) = Some (h', clients')"
  shows "server_ok server h' clients'"
  using handle_event_result [OF _ _ music_stepD(3) [OF assms(2)]] assms(1) music_stepD(1) [OF assms(2)] by simp

text \<open>A step that is about a socket, seen from that socket and from another one.\<close>

lemma music_step_socket:
  assumes "server_ok server h clients" and "music_step env fs server lib (ev, scr) (h, clients) = Some (h', clients')"
    and "event_socket server ev = Some fd"
  obtains r where "socket_event env fs server lib ev fd (clients fd) (h\<lparr>send_script := scr\<rparr>) = (Ret r, h')"
    "clients' = clients(fd := r)"
  using music_stepD(3) [OF assms(2)]
  unfolding handle_event_socket(1) [OF assms(1) music_stepD(1) [OF assms(2)] assms(3)]
  by (auto simp: ret_def elim!: bind_io_RetE)

lemma step_invisible:
  assumes "server_ok server h clients" and "event_socket server ev \<noteq> Some fd"
    and "music_step env fs server lib (ev, scr) (h, clients) = Some (h', clients')"
  shows "same_client fd (h, clients) t \<Longrightarrow> same_client fd (h', clients') t"
proof (cases "event_socket server ev")
  case None
  with handle_event_socket(2) [OF assms(1) music_stepD(1) [OF assms(3)] _ music_stepD(3) [OF assms(3)]]
  show "same_client fd (h, clients) t \<Longrightarrow> same_client fd (h', clients') t"
    by (auto simp: same_client_def same_socket_def)
next
  case (Some x)
  from music_step_socket [OF assms(1,3) Some] obtain r where
    r: "socket_event env fs server lib ev x (clients x) (h\<lparr>send_script := scr\<rparr>) = (Ret r, h')" "clients' = clients(x := r)" .
  note other = local_opD(1) [OF local_socket_event [OF assms(1) Some] r(1)]
  show "same_client fd (h, clients) t \<Longrightarrow> same_client fd (h', clients') t"
    using other r(2) Some assms(2) by (cases t) (auto simp: same_client_def same_socket_def touches_def)
qed

lemma step_consistent:
  assumes "server_ok server h clients" and "server_ok server k cl" and "event_socket server ev = Some fd"
    and same: "same_socket fd h k" "cl fd = clients fd"
    and "music_step env fs server lib (ev, scr) (h, clients) = Some (h', clients')"
  shows "\<exists>t'. music_step env fs server lib (ev, scr) (k, cl) = Some t' \<and> same_client fd (h', clients') t'"
proof -
  have ev: "event_ok server k cl ev"
    using music_stepD(1,2) [OF assms(6)] assms(1-5)
    by (auto simp: event_ok_def event_socket_def server_ok_def same_socket_def split: if_splits)
  from music_step_socket [OF assms(1,6,3)] obtain r where
    r: "socket_event env fs server lib ev fd (clients fd) (h\<lparr>send_script := scr\<rparr>) = (Ret r, h')" "clients' = clients(fd := r)" .
  from local_opD(2) [OF local_socket_event [OF assms(1,3)] r(1), of "k\<lparr>send_script := scr\<rparr>"] same obtain k' where
    k': "socket_event env fs server lib ev fd (clients fd) (k\<lparr>send_script := scr\<rparr>) = (Ret r, k')" "same_socket fd h' k'"
    by auto
  have "handle_event env fs server lib ev cl (k\<lparr>send_script := scr\<rparr>) = (Ret (cl(fd := r)), k')"
    unfolding handle_event_socket(1) [OF assms(2) ev assms(3)] same(2) by (simp add: bind_io_def k'(1) ret_def)
  from music_stepI [OF ev music_stepD(2) [OF assms(6)] this] k'(2) r(2) show ?thesis
    by (auto simp: same_client_def)
qed

interpretation music: unwinding "music_step env fs server lib" "\<lambda>(h, clients). server_ok server h clients"
    same_client "concerns server"
  for env fs server lib
proof
  fix s e s'
  assume "case s of (h, clients) \<Rightarrow> server_ok server h clients" and "music_step env fs server lib e s = Some s'"
  then show "case s' of (h, clients) \<Rightarrow> server_ok server h clients"
    by (cases s; cases e; cases s') (auto dest: music_step_ok)
next
  fix s fd e s' t
  assume "case s of (h, clients) \<Rightarrow> server_ok server h clients" and "\<not> concerns server fd e"
    and "music_step env fs server lib e s = Some s'" and "same_client fd s t"
  then show "same_client fd s' t"
    by (cases s; cases e; cases s') (auto simp: concerns_def intro: step_invisible)
next
  fix s t fd e s'
  assume "case s of (h, clients) \<Rightarrow> server_ok server h clients" and "case t of (h, clients) \<Rightarrow> server_ok server h clients"
    and "concerns server fd e" and "same_client fd s t" and "music_step env fs server lib e s = Some s'"
  then show "\<exists>t'. music_step env fs server lib e t = Some t' \<and> same_client fd s' t'"
    by (cases s; cases t; cases e; cases s')
      (auto simp: concerns_def same_client_pair simp del: split_paired_Ex intro: step_consistent)
qed


text \<open>C22: Whatever the other clients of the server do, a client cannot tell: if the server gets
  through a sequence of events, then it also gets through those of them that are about one socket
  (the connection being accepted included), and that socket has been sent the same bytes, is
  registered for the same events and has a client in the same state.\<close>

theorem client_isolated:
  assumes "run_events (music_step env fs server lib) es (started server, Map.empty) = Some (h, clients)"
  shows "\<exists>k clients'. run_events (music_step env fs server lib) (filter (concerns server fd) es) (started server, Map.empty)
      = Some (k, clients') \<and> sent k fd = sent h fd \<and> interest k fd = interest h fd \<and> clients' fd = clients fd"
proof -
  have ok: "case (started server, Map.empty) of (h, clients) \<Rightarrow> server_ok server h clients"
    by (simp add: server_ok_def started_def)
  have "same_client fd (started server, Map.empty) (started server, Map.empty)"
    by (simp add: same_client_def same_socket_def)
  from music.purged_run [OF assms ok ok this] show ?thesis
    by (auto simp: same_client_def same_socket_def)
qed

theorem client_isolated_witness:
  "\<exists>env fs lib h k clients clients'.
     run_events (music_step env fs 3 lib)
       [(demo_event 3 EPOLLIN Recv_Error (Some 5), []), (demo_event 3 EPOLLIN Recv_Error (Some 6), []),
        (demo_event 6 EPOLLRDHUP Recv_Error None, [])] (started 3, Map.empty) = Some (h, clients)
   \<and> run_events (music_step env fs 3 lib) [(demo_event 3 EPOLLIN Recv_Error (Some 5), [])] (started 3, Map.empty) = Some (k, clients')
   \<and> clients 5 \<noteq> None \<and> clients 6 = None \<and> clients' 5 = clients 5"
proof -
  let ?env = "\<lparr>fcntl_fails = \<lambda>_. False, reuseaddr_fails = False, listen_bind_fails = False, listen_fails = False,
      epoll_create_fails = False, listen_fd = 3\<rparr>"
  let ?e5 = "demo_event 3 EPOLLIN Recv_Error (Some 5)" and ?e6 = "demo_event 3 EPOLLIN Recv_Error (Some 6)"
    and ?e = "demo_event 6 EPOLLRDHUP Recv_Error None"
  note event_defs = handle_event_def handle_first_def handle_output_def flagged_def epoll_defs event_ok_def bind_io_def
    then_io_def ret_def upd_def
  note accept_defs = setup_new_client_def accept_connection_sys_def set_non_blocking_def add_socket_to_epoll_def started_def
  let ?i = "EPOLLIN OR EPOLLRDHUP" and ?c = "\<lambda>fd. ConnectedClient_new fd RECEIVING (Some demo_library)"
  let ?h = "(started 3)\<lparr>interest := [3 \<mapsto> EPOLLIN, 5 \<mapsto> ?i], nonblocking := {5, 3}\<rparr>"
  let ?h6 = "(started 3)\<lparr>interest := [3 \<mapsto> EPOLLIN, 5 \<mapsto> ?i, 6 \<mapsto> ?i], nonblocking := {6, 5, 3}\<rparr>"
  have s5: "music_step ?env (\<lambda>_. None) 3 demo_library (?e5, []) (started 3, Map.empty) = Some (?h, [5 \<mapsto> ?c 5])"
    by (rule music_stepI) (simp_all add: event_defs accept_defs)
  have s6: "music_step ?env (\<lambda>_. None) 3 demo_library (?e6, []) (?h, [5 \<mapsto> ?c 5]) = Some (?h6, [5 \<mapsto> ?c 5, 6 \<mapsto> ?c 6])"
    by (rule music_stepI) (simp_all add: event_defs accept_defs)
  have "\<exists>h. music_step ?env (\<lambda>_. None) 3 demo_library (?e, []) (?h6, [5 \<mapsto> ?c 5, 6 \<mapsto> ?c 6]) = Some (h, [5 \<mapsto> ?c 5, 6 \<mapsto> ?c 6](6 := None))"
    by (rule exI, rule music_stepI)
      (simp_all add: event_defs client_at_def handle_close_def remove_socket_from_epoll_def close_fd_def ConnectedClient_new_def)
  then obtain h where h: "music_step ?env (\<lambda>_. None) 3 demo_library (?e, []) (?h6, [5 \<mapsto> ?c 5, 6 \<mapsto> ?c 6]) =
      Some (h, [5 \<mapsto> ?c 5, 6 \<mapsto> ?c 6](6 := None))" ..
  have run: "run_events (music_step ?env (\<lambda>_. None) 3 demo_library) [(?e5, []), (?e6, []), (?e, [])] (started 3, Map.empty) =
      Some (h, [5 \<mapsto> ?c 5, 6 \<mapsto> ?c 6](6 := None))"
    by (simp only: run_events.simps s5 s6 h option.case)
  have filter: "filter (concerns 3 5) [(?e5, []), (?e6, []), (?e, [])] = [(?e5, [])]"
    by (simp add: concerns_def event_socket_def)
  from client_isolated [OF run, of 5] run show ?thesis
    unfolding filter by fastforce
qed

end
