(* ===== verification/Web_Sockets.thy ===== *)
theory Web_Sockets
  imports Net_Prelude
begin

text \<open>
  The sockets of the web server (\<open>ClientSocket\<close>, \<open>ServerSocket\<close> of project 2). The world is what the kernel
  took over for each socket, which sockets are open (descriptors of files are left out), and \<open>write_script\<close>, the results that the coming
  \<open>send\<close> calls get. One call takes over at most \<open>0x7ffff000\<close> bytes, so its result fits into an \<open>int\<close>. A
  peer that went away makes \<open>send\<close> fail or raise SIGPIPE; an exception that leaves a worker thread ends
  the process.
\<close>

datatype web_exn = System_Error | Fs_Error | Broken_Pipe | Bad_Argument number_error

datatype write_result = is_Wrote: Wrote nat | Write_Failed | Write_Sigpipe

record web =
  write_script :: "write_result list"
  out :: "int \<Rightarrow> bytes"
  open_sockets :: "int set"

type_synonym 'a web_io = "(web, web_exn, 'a) io"

definition write_sys :: "int \<Rightarrow> bytes \<Rightarrow> int web_io" where
  "write_sys fd data = (\<lambda>w. case write_script w of
      [] \<Rightarrow> (Blocked, w)
    | Wrote k # scr \<Rightarrow>
        let n = max 1 (min k (min (length data) 0x7ffff000))
        in (Ret (int n), w\<lparr>write_script := scr, out := (out w)(fd := out w fd @ take n data)\<rparr>)
    | Write_Failed # scr \<Rightarrow> (Ret (- 1), w\<lparr>write_script := scr\<rparr>)
    | Write_Sigpipe # scr \<Rightarrow> (Throw Broken_Pipe, w\<lparr>write_script := scr\<rparr>))"

section \<open>ClientSocket\<close>

record ClientSocket =
  socket_fd :: int

definition ClientSocket_new :: "int \<Rightarrow> ClientSocket" where
  "ClientSocket_new fd = \<lparr>socket_fd = fd\<rparr>"

definition client_close :: "ClientSocket \<Rightarrow> unit web_io" where
  "client_close c = upd (\<lambda>w. w\<lparr>open_sockets := open_sockets w - {socket_fd c}\<rparr>)"

text \<open>The loop of \<open>sendData\<close>: the whole data and the bytes of it that are sent.\<close>

function sendData_from :: "ClientSocket \<Rightarrow> bytes \<Rightarrow> nat \<Rightarrow> web \<Rightarrow> (web_exn, unit) outcome \<times> web" where
  "sendData_from c data total_bytes_sent w =
     (if total_bytes_sent < length data then
        case write_sys (socket_fd c) (drop total_bytes_sent data) w of
          (Ret num_bytes_sent, w') \<Rightarrow>
            if num_bytes_sent = - 1 then (Throw System_Error, w')
            else sendData_from c data (total_bytes_sent + nat num_bytes_sent) w'
        | (q, w') \<Rightarrow> (pass q, w')
      else (Ret (), w))"
  by pat_completeness auto
termination
  by (relation "measure (\<lambda>(c, data, n, w). length (write_script w))")
    (auto simp: write_sys_def Let_def split: list.splits write_result.splits)

declare sendData_from.simps [simp del]

definition sendData :: "ClientSocket \<Rightarrow> bytes \<Rightarrow> unit web_io" where
  "sendData c data = sendData_from c data 0"

text \<open>What \<open>recv\<close> gives; \<open>None\<close> if it fails.\<close>

definition receiveData :: "ClientSocket \<Rightarrow> bytes option \<Rightarrow> nat \<Rightarrow> bytes web_io" where
  "receiveData c r max_size = (case r of None \<Rightarrow> halt (Throw System_Error) | Some data \<Rightarrow> ret (take max_size data))"

section \<open>ServerSocket\<close>

record ServerSocket =
  server_fd :: int
  port_num :: u16

text \<open>The results of the calls: a descriptor below 0 is a failure.\<close>

record web_env =
  new_socket :: int
  setsockopt_fails :: bool
  web_bind_fails :: bool
  web_listen_fails :: bool

definition ServerSocket_new :: "web_env \<Rightarrow> u16 \<Rightarrow> ServerSocket web_io" where
  "ServerSocket_new env port =
     (if new_socket env < 0 then halt Exit_Failure
      else then_io (upd (\<lambda>w. w\<lparr>open_sockets := insert (new_socket env) (open_sockets w)\<rparr>))
        (if setsockopt_fails env then halt Exit_Failure
         else ret \<lparr>server_fd = new_socket env, port_num = port\<rparr>))"

text \<open>The move constructor leaves the port as it happens to be (\<open>junk\<close>); the assignment swaps the descriptors only.\<close>

definition ServerSocket_move :: "u16 \<Rightarrow> ServerSocket \<Rightarrow> ServerSocket \<times> ServerSocket" where
  "ServerSocket_move junk other = (\<lparr>server_fd = server_fd other, port_num = junk\<rparr>, other\<lparr>server_fd := - 1\<rparr>)"

definition ServerSocket_assign :: "ServerSocket \<Rightarrow> ServerSocket \<Rightarrow> ServerSocket \<times> ServerSocket" where
  "ServerSocket_assign s other = (s\<lparr>server_fd := server_fd other\<rparr>, other\<lparr>server_fd := server_fd s\<rparr>)"

definition ServerSocket_delete :: "ServerSocket \<Rightarrow> unit web_io" where
  "ServerSocket_delete s = upd (\<lambda>w. w\<lparr>open_sockets := open_sockets w - {server_fd s}\<rparr>)"

definition startListening :: "web_env \<Rightarrow> ServerSocket \<Rightarrow> unit web_io" where
  "startListening env s =
     (if web_bind_fails env then halt Exit_Failure
      else if web_listen_fails env then halt Exit_Failure
      else ret ())"

definition acceptConnection :: "ServerSocket \<Rightarrow> int \<Rightarrow> ClientSocket web_io" where
  "acceptConnection s sock =
     (if sock < 0 then halt Exit_Failure
      else then_io (upd (\<lambda>w. w\<lparr>open_sockets := insert sock (open_sockets w)\<rparr>)) (ret (ClientSocket_new sock)))"

section \<open>Sending all\<close>

definition writable :: "web \<Rightarrow> nat \<Rightarrow> bool" where
  "writable w n \<longleftrightarrow> list_all is_Wrote (write_script w) \<and> n \<le> length (write_script w)"

text \<open>\<open>written\<close> says that a number of calls, at most one for each byte, has handed the data over.\<close>

definition written :: "int \<Rightarrow> web \<Rightarrow> bytes \<Rightarrow> web \<Rightarrow> bool" where
  "written fd w data w' \<longleftrightarrow> (\<exists>pre scr. write_script w = pre @ scr \<and> length pre \<le> length data
     \<and> w' = w\<lparr>write_script := scr, out := (out w)(fd := out w fd @ data)\<rparr>)"

lemma written_writable: "written fd w data w' \<Longrightarrow> writable w (length data + n) \<Longrightarrow> writable w' n"
  by (auto simp: written_def writable_def)

lemma writable_less: "writable w n \<Longrightarrow> m \<le> n \<Longrightarrow> writable w m"
  by (simp add: writable_def)

lemma written_Nil [simp]: "written fd w [] w"
  by (auto simp: written_def)

lemma written_trans:
  assumes "written fd w a w1" and "written fd w1 b w2"
  shows "written fd w (a @ b) w2"
proof -
  from assms(1) obtain p1 s1 where 1: "write_script w = p1 @ s1" "length p1 \<le> length a"
    "w1 = w\<lparr>write_script := s1, out := (out w)(fd := out w fd @ a)\<rparr>" by (auto simp: written_def)
  with assms(2) obtain p2 s2 where 2: "s1 = p2 @ s2" "length p2 \<le> length b"
    "w2 = w1\<lparr>write_script := s2, out := (out w1)(fd := out w1 fd @ b)\<rparr>" by (auto simp: written_def)
  from 1 2 show ?thesis unfolding written_def by (intro exI [of _ "p1 @ p2"] exI [of _ s2]) simp
qed

lemma write_sys_Wrote:
  assumes "data \<noteq> []" and "write_script w = Wrote k # scr"
  shows "\<exists>n. 0 < n \<and> n \<le> length data \<and> write_sys fd data w =
    (Ret (int n), w\<lparr>write_script := scr, out := (out w)(fd := out w fd @ take n data)\<rparr>)"
proof -
  have "Suc 0 \<le> length data" using assms(1) by (cases data) simp_all
  then show ?thesis
    by (intro exI [of _ "max 1 (min k (min (length data) 0x7ffff000))"]) (auto simp: write_sys_def assms(2) Let_def)
qed

lemma sendData_from_all:
  assumes "writable w (length data - k)" and "k \<le> length data"
  shows "\<exists>w'. sendData_from c data k w = (Ret (), w') \<and> written (socket_fd c) w (drop k data) w'"
  using assms
proof (induction "length data - k" arbitrary: k w rule: less_induct)
  case less
  show ?case
  proof (cases "k = length data")
    case True
    then show ?thesis by (simp add: sendData_from.simps)
  next
    case False
    then have ne: "drop k data \<noteq> []" "k < length data" using less.prems(2) by auto
    from less.prems(1) ne obtain m scr where scr: "write_script w = Wrote m # scr" "list_all is_Wrote scr"
      "length data - k \<le> Suc (length scr)"
      by (cases "write_script w") (auto simp: writable_def is_Wrote_def)
    from write_sys_Wrote [OF ne(1) scr(1)] obtain n where n: "0 < n" "n \<le> length (drop k data)"
      "write_sys (socket_fd c) (drop k data) w = (Ret (int n),
         w\<lparr>write_script := scr, out := (out w)(socket_fd c := out w (socket_fd c) @ take n (drop k data))\<rparr>)" by blast
    let ?w = "w\<lparr>write_script := scr, out := (out w)(socket_fd c := out w (socket_fd c) @ take n (drop k data))\<rparr>"
    have step: "sendData_from c data k w = sendData_from c data (k + n) ?w"
      using ne(2) n(1,3) by (simp add: sendData_from.simps [of c data k])
    have "\<exists>w'. sendData_from c data (k + n) ?w = (Ret (), w') \<and> written (socket_fd c) ?w (drop (k + n) data) w'"
      using n ne(2) scr by (intro less.hyps) (simp_all add: writable_def)
    then obtain w' where w': "sendData_from c data (k + n) ?w = (Ret (), w')" "written (socket_fd c) ?w (drop (k + n) data) w'"
      by blast
    have first: "written (socket_fd c) w (take n (drop k data)) ?w"
      unfolding written_def using scr(1) n by (intro exI [of _ "[Wrote m]"] exI [of _ scr]) (simp add: Suc_le_eq)
    have "drop (k + n) data = drop n (drop k data)" by (simp add: add.commute)
    then have "take n (drop k data) @ drop (k + n) data = drop k data" by (simp only: append_take_drop_id)
    with written_trans [OF first w'(2)] w'(1) show ?thesis unfolding step by (intro exI [of _ w']) simp
  qed
qed

lemma sendData_all:
  "writable w (length data) \<Longrightarrow> \<exists>w'. sendData c data w = (Ret (), w') \<and> written (socket_fd c) w data w'"
  using sendData_from_all [of w data 0 c] by (simp add: sendData_def)

lemma sendData_from_prefix:
  "sendData_from c data k w = (q, w') \<Longrightarrow> k \<le> length data \<Longrightarrow>
     \<exists>m. m \<le> length data - k \<and> out w' = (out w)(socket_fd c := out w (socket_fd c) @ take m (drop k data))
       \<and> open_sockets w' = open_sockets w \<and> q \<noteq> Undefined \<and> (q = Ret () \<longrightarrow> m = length data - k)"
proof (induction "length data - k" arbitrary: k w rule: less_induct)
  case less
  show ?case
  proof (cases "k < length data")
    case False
    with less.prems show ?thesis by (auto simp: sendData_from.simps [of c data k])
  next
    case True
    show ?thesis
    proof (cases "\<exists>j scr. write_script w = Wrote j # scr")
      case False
      with less.prems(1) True show ?thesis
        by (intro exI [of _ 0]) (auto simp: sendData_from.simps [of c data k] write_sys_def
            split: list.splits write_result.splits)
    next
      case wrote: True
      then obtain j scr where scr: "write_script w = Wrote j # scr" by blast
      from True have "drop k data \<noteq> []" by simp
      from write_sys_Wrote [OF this scr] obtain n where n: "0 < n" "n \<le> length (drop k data)"
        "write_sys (socket_fd c) (drop k data) w = (Ret (int n),
           w\<lparr>write_script := scr, out := (out w)(socket_fd c := out w (socket_fd c) @ take n (drop k data))\<rparr>)"
        by blast
      let ?w = "w\<lparr>write_script := scr, out := (out w)(socket_fd c := out w (socket_fd c) @ take n (drop k data))\<rparr>"
      have run: "sendData_from c data (k + n) ?w = (q, w')"
        using less.prems(1) True n(1,3) by (simp add: sendData_from.simps [of c data k])
      have "\<exists>m. m \<le> length data - (k + n) \<and> out w' = (out ?w)(socket_fd c := out ?w (socket_fd c) @ take m (drop (k + n) data))
          \<and> open_sockets w' = open_sockets ?w \<and> q \<noteq> Undefined \<and> (q = Ret () \<longrightarrow> m = length data - (k + n))"
        by (rule less.hyps [OF _ run]) (use n(1,2) True in simp_all)
      then obtain m where m: "m \<le> length data - (k + n)" "open_sockets w' = open_sockets w" "q \<noteq> Undefined"
        "q = Ret () \<longrightarrow> m = length data - (k + n)"
        "out w' = (out ?w)(socket_fd c := out ?w (socket_fd c) @ take m (drop (k + n) data))"
        by (elim exE conjE) (rule that, simp_all)
      have "out w' = (out w)(socket_fd c := out w (socket_fd c) @ take (n + m) (drop k data))"
        unfolding m(5) by (simp add: take_add [of n m "drop k data"] add.commute [of k n])
      with m(1-4) n(2) show ?thesis by (intro exI [of _ "n + m"]) auto
    qed
  qed
qed

text \<open>Whatever the kernel takes over at each call, \<open>sendData\<close> hands over a prefix of the data; it returns
  only if that is all of the data, and it does return if each call takes something.\<close>

lemma sendData_all_or_error:
  assumes "sendData c data w = (q, w')"
  shows "\<exists>m. m \<le> length data \<and> out w' = (out w)(socket_fd c := out w (socket_fd c) @ take m data)
    \<and> (q = Ret () \<longrightarrow> m = length data) \<and> (writable w (length data) \<longrightarrow> q = Ret ())"
proof -
  from sendData_from_prefix [of c data 0 w q w'] assms obtain m where
    "m \<le> length data" "out w' = (out w)(socket_fd c := out w (socket_fd c) @ take m data)"
    "q = Ret () \<longrightarrow> m = length data"
    by (auto simp: sendData_def)
  moreover have "writable w (length data) \<longrightarrow> q = Ret ()" using sendData_all [of w data c] assms by auto
  ultimately show ?thesis by blast
qed

end
