(* ===== verification/Http_Request.thy ===== *)
theory Http_Request
  imports Net_Prelude
begin

text \<open>
  The request line of the web server (\<open>parseRequest\<close> of \<open>torero-serve.cpp\<close>). The regular expression is
  data: a sequence of single characters and of greedy repetitions, which may be captured.
  \<open>regex_match\<close> is the backtracking matcher of the ECMAScript grammar: a repetition takes as many
  characters as it can and gives them back one by one until the rest matches. The matcher is then
  related to what the expression says, a decomposition of the line.
\<close>

section \<open>Regular expressions\<close>

datatype regex_item =
    Single "char \<Rightarrow> bool"
  | Repeat "char \<Rightarrow> bool"
  | Capture "char \<Rightarrow> bool"

fun first_some :: "('a \<Rightarrow> 'b option) \<Rightarrow> 'a list \<Rightarrow> 'b option" where
  "first_some f [] = None"
| "first_some f (x # xs) = (case f x of None \<Rightarrow> first_some f xs | Some y \<Rightarrow> Some y)"

text \<open>The lengths a repetition tries: from the longest possible one down to 1.\<close>

definition repeat_lengths :: "(char \<Rightarrow> bool) \<Rightarrow> string \<Rightarrow> nat list" where
  "repeat_lengths p s = rev [1..<Suc (length (takeWhile p s))]"

primrec regex_match :: "regex_item list \<Rightarrow> string \<Rightarrow> string list option" where
  "regex_match [] s = (if s = [] then Some [] else None)"
| "regex_match (i # is) s = (case i of
      Single p \<Rightarrow> (case s of [] \<Rightarrow> None | c # t \<Rightarrow> if p c then regex_match is t else None)
    | Repeat p \<Rightarrow> first_some (\<lambda>n. regex_match is (drop n s)) (repeat_lengths p s)
    | Capture p \<Rightarrow> first_some (\<lambda>n. map_option ((#) (take n s)) (regex_match is (drop n s))) (repeat_lengths p s))"

definition literal :: "string \<Rightarrow> regex_item list" where
  "literal s = map (\<lambda>c. Single (\<lambda>d. d = c)) s"

definition requestLine_regex :: "regex_item list" where
  "requestLine_regex = literal ''GET'' @ [Repeat is_space, Capture (\<lambda>c. \<not> is_space c), Repeat is_space]
     @ literal ''HTTP/'' @ [Single is_digit, Single (\<lambda>c. c = CHR ''.''), Single is_digit]"

section \<open>The request line\<close>

definition CRLF :: string where
  "CRLF = [CHR 0x0D, CHR 0x0A]"

text \<open>The part of a string before the first \<open>\r\n\<close>, or the whole string if there is none.\<close>

fun before_crlf :: "string \<Rightarrow> string" where
  "before_crlf [] = []"
| "before_crlf (c # s) = (if take 2 (c # s) = CRLF then [] else c # before_crlf s)"

definition parseRequest :: "string \<Rightarrow> string" where
  "parseRequest http_request_message =
     (case regex_match requestLine_regex (before_crlf http_request_message) of
        None \<Rightarrow> []
      | Some groups \<Rightarrow> if Suc (length groups) \<noteq> 2 then [] else hd groups)"

section \<open>What the matcher finds\<close>

text \<open>
  The meaning of a sequence of items: the strings it matches with the captured parts. The matcher
  finds such a match exactly if there is one.
\<close>

inductive matches :: "regex_item list \<Rightarrow> string \<Rightarrow> string list \<Rightarrow> bool" where
  nil: "matches [] [] []"
| single: "p c \<Longrightarrow> matches is s gs \<Longrightarrow> matches (Single p # is) (c # s) gs"
| repeat: "r \<noteq> [] \<Longrightarrow> list_all p r \<Longrightarrow> matches is s gs \<Longrightarrow> matches (Repeat p # is) (r @ s) gs"
| capture: "r \<noteq> [] \<Longrightarrow> list_all p r \<Longrightarrow> matches is s gs \<Longrightarrow> matches (Capture p # is) (r @ s) (r # gs)"

inductive_simps matches_simps:
  "matches [] s gs" "matches (Single p # is) s gs" "matches (Repeat p # is) s gs" "matches (Capture p # is) s gs"

lemma first_some_Some: "first_some f xs = Some y \<Longrightarrow> \<exists>x\<in>set xs. f x = Some y"
  by (induction xs) (auto split: option.splits)

lemma first_some_None: "first_some f xs = None \<longleftrightarrow> (\<forall>x\<in>set xs. f x = None)"
  by (induction xs) (auto split: option.splits)

lemma repeat_lengths_set: "n \<in> set (repeat_lengths p s) \<longleftrightarrow> 0 < n \<and> n \<le> length s \<and> list_all p (take n s)"
proof -
  have "n \<le> length (takeWhile p s) \<longleftrightarrow> n \<le> length s \<and> list_all p (take n s)"
  proof (induction s arbitrary: n)
    case (Cons c s)
    then show ?case by (cases n) auto
  qed simp
  then show ?thesis by (auto simp: repeat_lengths_def)
qed

lemma regex_match_sound: "regex_match is s = Some gs \<Longrightarrow> matches is s gs"
proof (induction "is" arbitrary: s gs)
  case (Cons i "is")
  show ?case
  proof (cases i)
    case (Single p)
    with Cons show ?thesis by (auto split: list.splits if_splits intro: matches.single)
  next
    case (Repeat p)
    with Cons.prems obtain n where n: "n \<in> set (repeat_lengths p s)" "regex_match is (drop n s) = Some gs"
      by (auto dest!: first_some_Some)
    then have "matches (Repeat p # is) (take n s @ drop n s) gs"
      using Cons.IH by (intro matches.repeat) (auto simp: repeat_lengths_set)
    with Repeat show ?thesis by simp
  next
    case (Capture p)
    with Cons.prems obtain n gs' where n: "n \<in> set (repeat_lengths p s)" "regex_match is (drop n s) = Some gs'"
      "gs = take n s # gs'" by (auto dest!: first_some_Some)
    then have "matches (Capture p # is) (take n s @ drop n s) (take n s # gs')"
      using Cons.IH by (intro matches.capture) (auto simp: repeat_lengths_set)
    with Capture n(3) show ?thesis by simp
  qed
qed (auto intro: matches.nil split: if_splits)

lemma regex_match_complete: "matches is s gs \<Longrightarrow> regex_match is s \<noteq> None"
proof (induction rule: matches.induct)
  case (repeat r p "is" s gs)
  then have "length r \<in> set (repeat_lengths p (r @ s))" by (simp add: repeat_lengths_set)
  with repeat.IH have "\<exists>n\<in>set (repeat_lengths p (r @ s)). regex_match is (drop n (r @ s)) \<noteq> None"
    by (intro bexI [of _ "length r"]) simp_all
  then show ?case by (simp add: first_some_None del: not_None_eq)
next
  case (capture r p "is" s gs)
  then have "length r \<in> set (repeat_lengths p (r @ s))" by (simp add: repeat_lengths_set)
  with capture.IH have "\<exists>n\<in>set (repeat_lengths p (r @ s)). regex_match is (drop n (r @ s)) \<noteq> None"
    by (intro bexI [of _ "length r"]) simp_all
  then show ?case by (simp add: first_some_None del: not_None_eq)
qed auto

lemma matches_literal: "matches (literal l @ is) s gs \<longleftrightarrow> (\<exists>t. s = l @ t \<and> matches is t gs)"
  by (induction l arbitrary: s) (auto simp: literal_def matches_simps)

text \<open>The parts of a request line.\<close>

definition request_line :: "string \<Rightarrow> string \<Rightarrow> string \<Rightarrow> char \<Rightarrow> char \<Rightarrow> string" where
  "request_line gap1 resource gap2 major minor =
     ''GET'' @ gap1 @ resource @ gap2 @ ''HTTP/'' @ [major, CHR ''.'', minor]"

definition line_parts_ok :: "string \<Rightarrow> string \<Rightarrow> string \<Rightarrow> char \<Rightarrow> char \<Rightarrow> bool" where
  "line_parts_ok gap1 resource gap2 major minor \<longleftrightarrow>
     gap1 \<noteq> [] \<and> list_all is_space gap1 \<and> resource \<noteq> [] \<and> list_all (\<lambda>c. \<not> is_space c) resource
     \<and> gap2 \<noteq> [] \<and> list_all is_space gap2 \<and> is_digit major \<and> is_digit minor"

lemma matches_request_line:
  "matches requestLine_regex s gs \<longleftrightarrow>
     (\<exists>g1 r g2 a b. line_parts_ok g1 r g2 a b \<and> s = request_line g1 r g2 a b \<and> gs = [r])"
proof
  assume "matches requestLine_regex s gs"
  then obtain t where t: "s = ''GET'' @ t" and "matches ([Repeat is_space, Capture (\<lambda>c. \<not> is_space c), Repeat is_space]
      @ literal ''HTTP/'' @ [Single is_digit, Single (\<lambda>c. c = CHR ''.''), Single is_digit]) t gs"
    by (auto simp only: requestLine_regex_def matches_literal)
  from this(2) obtain g1 r g2 a b where "t = g1 @ r @ g2 @ ''HTTP/'' @ [a, CHR ''.'', b]" and gs: "gs = [r]"
    and "g1 \<noteq> []" "list_all is_space g1" "r \<noteq> []" "list_all (\<lambda>c. \<not> is_space c) r" "g2 \<noteq> []" "list_all is_space g2"
      "is_digit a" "is_digit b"
    by (auto simp: matches_simps matches_literal)
  with t have "line_parts_ok g1 r g2 a b" "s = request_line g1 r g2 a b"
    by (simp_all add: line_parts_ok_def request_line_def)
  with gs show "\<exists>g1 r g2 a b. line_parts_ok g1 r g2 a b \<and> s = request_line g1 r g2 a b \<and> gs = [r]" by blast
next
  assume "\<exists>g1 r g2 a b. line_parts_ok g1 r g2 a b \<and> s = request_line g1 r g2 a b \<and> gs = [r]"
  then obtain g1 r g2 a b where ok: "line_parts_ok g1 r g2 a b" and s: "s = request_line g1 r g2 a b" and gs: "gs = [r]"
    by blast
  from ok have parts: "g1 \<noteq> []" "list_all is_space g1" "r \<noteq> []" "list_all (\<lambda>c. \<not> is_space c) r" "g2 \<noteq> []"
    "list_all is_space g2" "is_digit a" "is_digit b" by (simp_all add: line_parts_ok_def)
  let ?version = "[Single is_digit, Single (\<lambda>c. c = CHR ''.''), Single is_digit]"
  have "matches ?version [a, CHR ''.'', b] []" using parts(7,8) by (auto intro!: matches.intros)
  then have "matches (literal ''HTTP/'' @ ?version) (''HTTP/'' @ [a, CHR ''.'', b]) []"
    by (auto simp only: matches_literal)
  from matches.repeat [OF parts(1,2) matches.capture [OF parts(3,4) matches.repeat [OF parts(5,6) this]]]
  have "matches ([Repeat is_space, Capture (\<lambda>c. \<not> is_space c), Repeat is_space] @ literal ''HTTP/'' @ ?version)
      (g1 @ r @ g2 @ ''HTTP/'' @ [a, CHR ''.'', b]) [r]" by simp
  then show "matches requestLine_regex s gs"
    unfolding requestLine_regex_def s gs request_line_def matches_literal by blast
qed

text \<open>A line has at most one such decomposition.\<close>

lemma span_unique:
  assumes "list_all p a" and "list_all p b" and "list_all (\<lambda>c. \<not> p c) (take 1 s)" and "list_all (\<lambda>c. \<not> p c) (take 1 t)"
    and "s \<noteq> []" and "t \<noteq> []" and "a @ s = b @ t"
  shows "a = b \<and> s = t"
proof -
  have "takeWhile p (a @ s) = a" "takeWhile p (b @ t) = b"
    using assms(1-6) by (auto simp: takeWhile_append list_all_iff neq_Nil_conv)
  with assms(7) show ?thesis by simp
qed

lemma request_line_unique:
  assumes "line_parts_ok g1 r g2 a b" and "line_parts_ok g1' r' g2' a' b'"
    and "request_line g1 r g2 a b = request_line g1' r' g2' a' b'"
  shows "r = r'"
proof -
  have first: "list_all (\<lambda>c. \<not> is_space c) (take 1 (r @ x))" if "line_parts_ok g1 r g2 a b" for g1 r g2 a b x
    using that by (cases r) (auto simp: line_parts_ok_def)
  have second: "list_all (\<lambda>c. is_space c) (take 1 (g2 @ x))" if "line_parts_ok g1 r g2 a b" for g1 r g2 a b x
    using that by (cases g2) (auto simp: line_parts_ok_def)
  from assms(3) have "g1 @ (r @ g2 @ ''HTTP/'' @ [a, CHR ''.'', b]) = g1' @ (r' @ g2' @ ''HTTP/'' @ [a', CHR ''.'', b'])"
    by (simp add: request_line_def)
  from span_unique [of is_space, OF _ _ first [OF assms(1)] first [OF assms(2)] _ _ this] assms(1,2)
  have "r @ (g2 @ ''HTTP/'' @ [a, CHR ''.'', b]) = r' @ (g2' @ ''HTTP/'' @ [a', CHR ''.'', b'])"
    by (simp add: line_parts_ok_def)
  from span_unique [of "\<lambda>c. \<not> is_space c", OF _ _ _ _ _ _ this] assms(1,2)
    second [OF assms(1), of "''HTTP/'' @ [a, CHR ''.'', b]"] second [OF assms(2), of "''HTTP/'' @ [a', CHR ''.'', b']"]
  show ?thesis by (simp add: line_parts_ok_def)
qed

lemma parseRequest_iff:
  "parseRequest msg = resource \<longleftrightarrow>
     (if resource = [] then \<nexists>g1 r g2 a b. line_parts_ok g1 r g2 a b \<and> before_crlf msg = request_line g1 r g2 a b
      else \<exists>g1 g2 a b. line_parts_ok g1 resource g2 a b \<and> before_crlf msg = request_line g1 resource g2 a b)"
proof -
  have found: "parseRequest msg = r" if parts: "line_parts_ok g1 r g2 a b" and line: "before_crlf msg = request_line g1 r g2 a b"
    for g1 r g2 a b
  proof -
    have "matches requestLine_regex (before_crlf msg) [r]" using that matches_request_line by blast
    then obtain gs where gs: "regex_match requestLine_regex (before_crlf msg) = Some gs"
      using regex_match_complete by blast
    with regex_match_sound have "matches requestLine_regex (before_crlf msg) gs" by blast
    then obtain g1' r' g2' a' b' where other: "line_parts_ok g1' r' g2' a' b'"
      "before_crlf msg = request_line g1' r' g2' a' b'" "gs = [r']" using matches_request_line by blast
    with request_line_unique [OF parts other(1)] line have "r' = r" by simp
    with gs other(3) show ?thesis by (simp add: parseRequest_def)
  qed
  have none: "parseRequest msg = []"
    if "\<nexists>g1 r g2 a b. line_parts_ok g1 r g2 a b \<and> before_crlf msg = request_line g1 r g2 a b"
  proof -
    have "regex_match requestLine_regex (before_crlf msg) = None"
      using that regex_match_sound matches_request_line by (metis option.exhaust)
    then show ?thesis by (simp add: parseRequest_def)
  qed
  show ?thesis
  proof (cases "\<exists>g1 r g2 a b. line_parts_ok g1 r g2 a b \<and> before_crlf msg = request_line g1 r g2 a b")
    case True
    then obtain g1 r g2 a b where parts: "line_parts_ok g1 r g2 a b" "before_crlf msg = request_line g1 r g2 a b" by blast
    from found [OF this] have "parseRequest msg = r" .
    moreover have "r \<noteq> []" using parts(1) by (simp add: line_parts_ok_def)
    moreover have "(\<exists>g1 g2 a b. line_parts_ok g1 resource g2 a b \<and> before_crlf msg = request_line g1 resource g2 a b)
        \<longleftrightarrow> r = resource" using parts found calculation(1) by metis
    ultimately show ?thesis using True by simp
  next
    case False
    with none [OF False] show ?thesis by (cases "resource = []") auto
  qed
qed

text \<open>C38: A request gives a resource exactly if its first line is GET, white space, the resource without
  white space in it, white space and the version; otherwise it gives the empty string.\<close>

theorem parseRequest_line:
  "parseRequest msg = resource \<longleftrightarrow>
     (if resource = [] then \<nexists>g1 r g2 a b. line_parts_ok g1 r g2 a b \<and> before_crlf msg = request_line g1 r g2 a b
      else \<exists>g1 g2 a b. line_parts_ok g1 resource g2 a b \<and> before_crlf msg = request_line g1 resource g2 a b)"
  by (rule parseRequest_iff)

lemma before_crlf_line: "CHR 0x0D \<notin> set l \<Longrightarrow> before_crlf (l @ CRLF @ rest) = l"
  by (induction l) (auto simp: CRLF_def)

end
