(* ===== verification/Bounded_Buffer.thy ===== *)
theory Bounded_Buffer
  imports Net_Prelude
begin

text \<open>
  The bounded buffer between the accepting thread and the workers of the web server
  (\<open>BoundedBuffer.hpp\<close>, \<open>BoundedBuffer.cpp\<close> of project 2). A method holds the mutex from its beginning to its
  end or to a wait, which gives it up: what it does in between is one step. \<open>None\<close> says that the
  method goes to sleep on its condition variable. The locale is the contract of a bounded queue; the
  second part runs a producer and workers over the buffer.
\<close>

section \<open>The class\<close>

record 'a BoundedBuffer =
  capacity :: nat
  buffer :: "'a list"

definition BoundedBuffer_new :: "int \<Rightarrow> 'a BoundedBuffer" where
  "BoundedBuffer_new max_size = \<lparr>capacity = unat (word_of_int max_size :: 64 word), buffer = []\<rparr>"

definition getItem :: "'a BoundedBuffer \<Rightarrow> ('a \<times> 'a BoundedBuffer) option" where
  "getItem b = (case buffer b of [] \<Rightarrow> None | item # rest \<Rightarrow> Some (item, b\<lparr>buffer := rest\<rparr>))"

definition putItem :: "'a BoundedBuffer \<Rightarrow> 'a \<Rightarrow> 'a BoundedBuffer option" where
  "putItem b new_item =
     (if length (buffer b) = capacity b then None else Some (b\<lparr>buffer := buffer b @ [new_item]\<rparr>))"

section \<open>The contract of a bounded queue\<close>

locale bounded_queue =
  fixes put :: "'q \<Rightarrow> 'a \<Rightarrow> 'q option"
    and get :: "'q \<Rightarrow> ('a \<times> 'q) option"
    and items :: "'q \<Rightarrow> 'a list"
    and limit :: "'q \<Rightarrow> nat"
    and wf :: "'q \<Rightarrow> bool"
  assumes wf_limit: "wf q \<Longrightarrow> length (items q) \<le> limit q"
    and put_None: "wf q \<Longrightarrow> put q x = None \<longleftrightarrow> length (items q) = limit q"
    and put_Some: "wf q \<Longrightarrow> put q x = Some q' \<Longrightarrow> wf q' \<and> items q' = items q @ [x] \<and> limit q' = limit q"
    and get_None: "wf q \<Longrightarrow> get q = None \<longleftrightarrow> items q = []"
    and get_Some: "wf q \<Longrightarrow> get q = Some (x, q') \<Longrightarrow> wf q' \<and> items q = x # items q' \<and> limit q' = limit q"
begin

text \<open>What goes in comes out in the same order: any sequence of successful operations.\<close>

fun run_ops :: "'a option list \<Rightarrow> 'q \<Rightarrow> ('a list \<times> 'q) option" where
  "run_ops [] q = Some ([], q)"
| "run_ops (Some x # ops) q = (case put q x of None \<Rightarrow> None | Some q' \<Rightarrow> run_ops ops q')"
| "run_ops (None # ops) q = (case get q of
      None \<Rightarrow> None
    | Some (x, q') \<Rightarrow> (case run_ops ops q' of None \<Rightarrow> None | Some (got, q'') \<Rightarrow> Some (x # got, q'')))"

lemma run_ops_fifo:
  "wf q \<Longrightarrow> run_ops ops q = Some (got, q') \<Longrightarrow>
     wf q' \<and> limit q' = limit q \<and> items q @ List.map_filter id ops = got @ items q'"
proof (induction ops q arbitrary: got q' rule: run_ops.induct)
  case (2 x ops q)
  then obtain q1 where q1: "put q x = Some q1" and rest: "run_ops ops q1 = Some (got, q')"
    by (auto split: option.splits)
  note one = put_Some [OF "2.prems"(1) q1]
  with "2.IH" [OF q1 _ rest] show ?case by (simp add: List.map_filter_simps)
next
  case (3 ops q)
  then obtain x q1 got1 where q1: "get q = Some (x, q1)" and rest: "run_ops ops q1 = Some (got1, q')" and got: "got = x # got1"
    by (auto split: option.splits)
  note one = get_Some [OF "3.prems"(1) q1]
  with "3.IH" [OF q1 refl _ rest] show ?case by (simp add: List.map_filter_simps got)
qed (simp add: List.map_filter_simps)

end

definition buffer_ok :: "'a BoundedBuffer \<Rightarrow> bool" where
  "buffer_ok b \<longleftrightarrow> length (buffer b) \<le> capacity b"

interpretation bb: bounded_queue putItem getItem buffer capacity buffer_ok
  by unfold_locales (auto simp: buffer_ok_def putItem_def getItem_def split: if_splits list.splits)

section \<open>A producer and its workers\<close>

text \<open>
  The accepting thread accepts a client, then calls \<open>putItem\<close>, in which it may sleep. A worker is in
  \<open>getItem\<close>, about to look at the buffer or asleep, or handles a client. \<open>putItem\<close> wakes one worker if one
  sleeps; no method wakes the accepting thread. The condition variables may also wake a sleeping
  thread for no reason (\<open>spurious\<close>), which the last two rules say.
\<close>

datatype 'a producer = Accepting | Putting 'a | Put_Asleep 'a

datatype 'a worker = Getting | Get_Asleep | Handling 'a

record 'a pool =
  shared :: "'a BoundedBuffer"
  producer :: "'a producer"
  workers :: "'a worker list"
  accepted :: "'a list"
  taken :: "'a list"

definition wakes :: "'a worker list \<Rightarrow> 'a worker list \<Rightarrow> bool" where
  "wakes ws ws' \<longleftrightarrow>
     (if Get_Asleep \<in> set ws then \<exists>i<length ws. ws ! i = Get_Asleep \<and> ws' = ws[i := Getting] else ws' = ws)"

inductive pool_step :: "bool \<Rightarrow> 'a pool \<Rightarrow> 'a pool \<Rightarrow> bool" for spurious where
  accept: "producer p = Accepting \<Longrightarrow>
    pool_step spurious p (p\<lparr>producer := Putting x, accepted := accepted p @ [x]\<rparr>)"
| put: "producer p = Putting x \<Longrightarrow> putItem (shared p) x = Some b \<Longrightarrow> wakes (workers p) ws \<Longrightarrow>
    pool_step spurious p (p\<lparr>producer := Accepting, shared := b, workers := ws\<rparr>)"
| put_sleep: "producer p = Putting x \<Longrightarrow> putItem (shared p) x = None \<Longrightarrow>
    pool_step spurious p (p\<lparr>producer := Put_Asleep x\<rparr>)"
| get: "i < length (workers p) \<Longrightarrow> workers p ! i = Getting \<Longrightarrow> getItem (shared p) = Some (x, b) \<Longrightarrow>
    pool_step spurious p (p\<lparr>shared := b, workers := (workers p)[i := Handling x], taken := taken p @ [x]\<rparr>)"
| get_sleep: "i < length (workers p) \<Longrightarrow> workers p ! i = Getting \<Longrightarrow> getItem (shared p) = None \<Longrightarrow>
    pool_step spurious p (p\<lparr>workers := (workers p)[i := Get_Asleep]\<rparr>)"
| handled: "i < length (workers p) \<Longrightarrow> workers p ! i = Handling x \<Longrightarrow>
    pool_step spurious p (p\<lparr>workers := (workers p)[i := Getting]\<rparr>)"
| get_wake: "spurious \<Longrightarrow> i < length (workers p) \<Longrightarrow> workers p ! i = Get_Asleep \<Longrightarrow>
    pool_step spurious p (p\<lparr>workers := (workers p)[i := Getting]\<rparr>)"
| put_wake: "spurious \<Longrightarrow> producer p = Put_Asleep x \<Longrightarrow>
    pool_step spurious p (p\<lparr>producer := Putting x\<rparr>)"

inductive_cases pool_stepE: "pool_step spurious p q"

definition pool_new :: "int \<Rightarrow> nat \<Rightarrow> 'a pool" where
  "pool_new max_size n = \<lparr>shared = BoundedBuffer_new max_size, producer = Accepting, workers = replicate n Getting,
     accepted = [], taken = []\<rparr>"

definition pending :: "'a producer \<Rightarrow> 'a list" where
  "pending r = (case r of Accepting \<Rightarrow> [] | Putting x \<Rightarrow> [x] | Put_Asleep x \<Rightarrow> [x])"

definition getting :: "'a worker list \<Rightarrow> nat" where
  "getting ws = length (filter (\<lambda>w. w = Getting) ws)"

text \<open>
  The invariant: the accepted clients are those taken, in the buffer or being put, in this order; and
  as long as a worker sleeps there are as many workers on their way to the buffer as it has items.
\<close>

definition pool_ok :: "'a pool \<Rightarrow> bool" where
  "pool_ok p \<longleftrightarrow> buffer_ok (shared p)
     \<and> accepted p = taken p @ buffer (shared p) @ pending (producer p)
     \<and> (Get_Asleep \<in> set (workers p) \<longrightarrow> length (buffer (shared p)) \<le> getting (workers p))"

lemma getting_update:
  assumes "i < length ws"
  shows "getting (ws[i := w]) + (if ws ! i = Getting then 1 else 0) = getting ws + (if w = Getting then 1 else 0)"
  using assms
proof (induction ws arbitrary: i)
  case (Cons v ws)
  show ?case
  proof (cases i)
    case 0
    then show ?thesis by (simp add: getting_def)
  next
    case (Suc n)
    with Cons.prems Cons.IH [of n] show ?thesis by (auto simp: getting_def)
  qed
qed simp

lemma asleep_update:
  "Get_Asleep \<in> set (ws[i := w]) \<Longrightarrow> w \<noteq> Get_Asleep \<Longrightarrow> Get_Asleep \<in> set ws"
  using set_update_subset_insert [of ws i w] by auto

lemma wakes_getting: "wakes ws ws' \<Longrightarrow> Get_Asleep \<in> set ws' \<Longrightarrow> getting ws' = getting ws + 1 \<and> Get_Asleep \<in> set ws"
  unfolding wakes_def by (auto split: if_splits dest: asleep_update) (use getting_update in fastforce)

lemma wakes_length: "wakes ws ws' \<Longrightarrow> length ws' = length ws"
  by (auto simp: wakes_def split: if_splits)

interpretation pool: step_invariant "pool_step spurious" pool_ok for spurious
proof
  fix p q :: "'a pool"
  assume "pool_step spurious p q" and ok: "pool_ok p"
  then show "pool_ok q"
  proof cases
    case (accept x)
    with ok show ?thesis by (simp add: pool_ok_def pending_def)
  next
    case (put x b ws)
    from ok have "buffer_ok (shared p)" by (simp add: pool_ok_def)
    note b = bb.put_Some [OF this put(3)]
    have "length (buffer b) \<le> getting ws" if "Get_Asleep \<in> set ws"
      using wakes_getting [OF put(4) that] ok b by (simp add: pool_ok_def)
    with ok b put show ?thesis by (simp add: pool_ok_def pending_def)
  next
    case (put_sleep x)
    with ok show ?thesis by (simp add: pool_ok_def pending_def)
  next
    case (get i x b)
    from ok have "buffer_ok (shared p)" by (simp add: pool_ok_def)
    note b = bb.get_Some [OF this get(4)]
    have "length (buffer b) \<le> getting ((workers p)[i := Handling x])"
      if "Get_Asleep \<in> set ((workers p)[i := Handling x])"
      using getting_update [OF get(2), of "Handling x"] asleep_update [OF that] get(3) ok b by (simp add: pool_ok_def)
    with ok b get(1) show ?thesis by (simp add: pool_ok_def)
  next
    case (get_sleep i)
    from ok have "buffer (shared p) = []"
      using bb.get_None [of "shared p"] get_sleep(4) by (simp add: pool_ok_def)
    with ok get_sleep show ?thesis by (simp add: pool_ok_def)
  next
    case (handled i x)
    have "getting (workers p) \<le> getting ((workers p)[i := Getting])"
      using getting_update [OF handled(2), of Getting] handled(3) by simp
    with ok handled(1) show ?thesis
      using asleep_update [of "workers p" i Getting] by (force simp: pool_ok_def)
  next
    case (get_wake i)
    have "getting (workers p) \<le> getting ((workers p)[i := Getting])"
      using getting_update [OF get_wake(3), of Getting] get_wake(4) by simp
    with ok get_wake(1,2) show ?thesis
      using asleep_update [of "workers p" i Getting] by (force simp: pool_ok_def)
  next
    case (put_wake x)
    with ok show ?thesis by (simp add: pool_ok_def pending_def)
  qed
qed

lemma pool_new_ok: "pool_ok (pool_new max_size n)"
  by (simp add: pool_ok_def pool_new_def BoundedBuffer_new_def buffer_ok_def pending_def)

interpretation pool_size: step_invariant "pool_step spurious"
  "\<lambda>p. capacity (shared p) = c \<and> length (workers p) = n" for spurious c n
proof
  fix p q :: "'a pool"
  assume "pool_step spurious p q" and "capacity (shared p) = c \<and> length (workers p) = n"
  then show "capacity (shared q) = c \<and> length (workers q) = n"
    by (elim pool_stepE) (auto simp: putItem_def getItem_def wakes_length split: if_splits list.splits)
qed

lemma reachable_pool:
  assumes "(pool_step spurious)\<^sup>*\<^sup>* (pool_new max_size n) p" and "0 \<le> max_size" and "max_size < 2 ^ 64"
  shows "pool_ok p" and "capacity (shared p) = nat max_size" and "length (workers p) = n"
proof -
  show "pool_ok p" by (rule pool.inv_steps [OF assms(1) pool_new_ok])
  have "capacity (shared (pool_new max_size n)) = nat max_size \<and> length (workers (pool_new max_size n)) = n"
    using assms(2,3) by (simp add: pool_new_def BoundedBuffer_new_def unat_eq_nat_uint uint_word_of_int_eq take_bit_int_eq_self)
  from pool_size.inv_steps [OF assms(1) this]
  show "capacity (shared p) = nat max_size" "length (workers p) = n" by simp_all
qed

text \<open>Whatever the order in which the threads run, the accepted clients are those the workers took, in
  the order in which they were accepted, then those in the buffer, then the one being put; the
  buffer never holds more than its capacity.\<close>

lemma pool_in_order:
  assumes "(pool_step spurious)\<^sup>*\<^sup>* (pool_new max_size n) p" and "0 \<le> max_size" and "max_size < 2 ^ 64"
  shows "accepted p = taken p @ buffer (shared p) @ pending (producer p) \<and> length (buffer (shared p)) \<le> nat max_size"
  using reachable_pool [OF assms] by (simp add: pool_ok_def buffer_ok_def)

text \<open>A client in the buffer is never left with all workers asleep.\<close>

lemma no_lost_wakeup:
  assumes "(pool_step spurious)\<^sup>*\<^sup>* (pool_new max_size n) p" and "0 \<le> max_size" and "max_size < 2 ^ 64"
    and "0 < n" and "buffer (shared p) \<noteq> []"
  shows "\<exists>w\<in>set (workers p). w \<noteq> Get_Asleep"
proof (cases "Get_Asleep \<in> set (workers p)")
  case True
  with reachable_pool(1) [OF assms(1-3)] assms(5) have "getting (workers p) \<noteq> 0"
    by (cases "buffer (shared p)") (auto simp: pool_ok_def)
  then have "\<exists>w\<in>set (workers p). w = Getting" by (auto simp: getting_def filter_empty_conv)
  then show ?thesis by auto
next
  case False
  with assms(4) reachable_pool(3) [OF assms(1-3)] show ?thesis by (cases "workers p") auto
qed

section \<open>The accepting thread sleeps for ever\<close>

lemma two_steps: "r a b \<Longrightarrow> r b c \<Longrightarrow> r\<^sup>*\<^sup>* a c"
  by (rule rtranclp.rtrancl_into_rtrancl [OF r_into_rtranclp])

lemma wakes_exists: "\<exists>ws'. wakes ws ws'"
  by (auto simp: wakes_def in_set_conv_nth)

lemma fills_up:
  assumes "producer p = Accepting" and "length (buffer (shared p)) \<le> capacity (shared p)"
  shows "\<exists>q. (pool_step False)\<^sup>*\<^sup>* p q \<and> (\<exists>x. producer q = Put_Asleep x)"
  using assms
proof (induction "capacity (shared p) - length (buffer (shared p))" arbitrary: p)
  case 0
  fix x :: 'a
  let ?p = "p\<lparr>producer := Putting x, accepted := accepted p @ [x]\<rparr>"
  have "putItem (shared ?p) x = None" using 0 by (simp add: putItem_def)
  then have "pool_step False ?p (?p\<lparr>producer := Put_Asleep x\<rparr>)" by (intro pool_step.put_sleep) simp
  moreover have "pool_step False p ?p" using 0 by (intro pool_step.accept)
  ultimately have "(pool_step False)\<^sup>*\<^sup>* p (?p\<lparr>producer := Put_Asleep x\<rparr>)" by (rule two_steps [rotated])
  then show ?case by (intro exI conjI) (assumption, simp)
next
  case (Suc m)
  fix x :: 'a
  let ?p = "p\<lparr>producer := Putting x, accepted := accepted p @ [x]\<rparr>"
  let ?b = "(shared p)\<lparr>buffer := buffer (shared p) @ [x]\<rparr>"
  obtain ws where ws: "wakes (workers p) ws" using wakes_exists by blast
  let ?q = "?p\<lparr>producer := Accepting, shared := ?b, workers := ws\<rparr>"
  have "putItem (shared ?p) x = Some ?b" using Suc.hyps(2) by (auto simp: putItem_def)
  then have "pool_step False ?p ?q" using ws by (intro pool_step.put) simp_all
  moreover have "pool_step False p ?p" using Suc by (intro pool_step.accept)
  ultimately have "(pool_step False)\<^sup>*\<^sup>* p ?q" by (rule two_steps [rotated])
  moreover have "\<exists>q. (pool_step False)\<^sup>*\<^sup>* ?q q \<and> (\<exists>x. producer q = Put_Asleep x)"
    using Suc.hyps(2) by (intro Suc.hyps(1)) simp_all
  ultimately show ?case by (meson rtranclp_trans)
qed

lemma asleep_step:
  "pool_step False p q \<Longrightarrow> producer p = Put_Asleep x \<Longrightarrow> producer q = Put_Asleep x \<and> accepted q = accepted p"
  by (erule pool_stepE) auto

lemma asleep_steps:
  "(pool_step False)\<^sup>*\<^sup>* p q \<Longrightarrow> producer p = Put_Asleep x \<Longrightarrow> producer q = Put_Asleep x \<and> accepted q = accepted p"
  by (induction rule: rtranclp_induct) (auto dest: asleep_step)

text \<open>The workers can empty the buffer in the meantime.\<close>

lemma takes_one:
  assumes "pool_ok p" and "workers p \<noteq> []" and "buffer (shared p) = x # rest"
  shows "\<exists>q. (pool_step False)\<^sup>*\<^sup>* p q \<and> buffer (shared q) = rest \<and> workers q \<noteq> []"
proof -
  have take_item: "\<exists>q. pool_step False p q \<and> buffer (shared q) = rest \<and> workers q \<noteq> []"
    if "Getting \<in> set (workers p)" "buffer (shared p) = x # rest" "workers p \<noteq> []" for p
  proof -
    from that(1) obtain i where i: "i < length (workers p)" "workers p ! i = Getting" by (auto simp: in_set_conv_nth)
    have "getItem (shared p) = Some (x, (shared p)\<lparr>buffer := rest\<rparr>)" using that(2) by (simp add: getItem_def)
    from pool_step.get [OF i this] that(3) show ?thesis by (intro exI conjI) (assumption, simp_all)
  qed
  show ?thesis
  proof (cases "Getting \<in> set (workers p)")
    case True
    with take_item assms(2,3) show ?thesis by blast
  next
    case False
    then have "getting (workers p) = 0" by (auto simp: getting_def filter_empty_conv)
    with assms(1,3) have "Get_Asleep \<notin> set (workers p)" by (auto simp: pool_ok_def)
    with False assms(2) obtain y where y: "workers p ! 0 = Handling y"
      by (cases "workers p"; cases "hd (workers p)") auto
    let ?p = "p\<lparr>workers := (workers p)[0 := Getting]\<rparr>"
    have "pool_step False p ?p" using y assms(2) by (intro pool_step.handled) auto
    moreover have "\<exists>q. pool_step False ?p q \<and> buffer (shared q) = rest \<and> workers q \<noteq> []"
      using assms(2,3) by (intro take_item) (auto simp: set_update_memI)
    ultimately obtain q where "pool_step False p ?p" "pool_step False ?p q" "buffer (shared q) = rest \<and> workers q \<noteq> []"
      by blast
    then show ?thesis using two_steps [of "pool_step False" p ?p q] by blast
  qed
qed

interpretation drain: progress "pool_step False" "\<lambda>p. pool_ok p \<and> workers p \<noteq> []" "\<lambda>p. buffer (shared p) = []"
    "\<lambda>p. length (buffer (shared p))"
proof
  fix p :: "'a pool"
  assume ok: "pool_ok p \<and> workers p \<noteq> []" and "buffer (shared p) \<noteq> []"
  then obtain x rest where items: "buffer (shared p) = x # rest" by (cases "buffer (shared p)") auto
  from takes_one [OF _ _ this] ok obtain q where
    q: "(pool_step False)\<^sup>*\<^sup>* p q" "buffer (shared q) = rest" "workers q \<noteq> []" by blast
  with pool.inv_steps [OF q(1)] ok items
  show "\<exists>q. (pool_step False)\<^sup>*\<^sup>* p q \<and> (pool_ok q \<and> workers q \<noteq> []) \<and> length (buffer (shared q)) < length (buffer (shared p))"
    by auto
qed

lemma drains:
  "pool_ok p \<Longrightarrow> workers p \<noteq> [] \<Longrightarrow> \<exists>q. (pool_step False)\<^sup>*\<^sup>* p q \<and> buffer (shared q) = []"
  using drain.reaches_goal by blast

text \<open>C39: From every state in which the server accepts it can come to one in which the accepting thread
  sleeps for a full buffer. As no method wakes it, no client is accepted from then on, although
  the workers go on and can empty the buffer.\<close>

theorem full_buffer_stops_accepting:
  assumes "(pool_step False)\<^sup>*\<^sup>* (pool_new max_size n) p" and "0 \<le> max_size" and "max_size < 2 ^ 64" and "0 < n"
    and "producer p = Accepting"
  shows "\<exists>q x. (pool_step False)\<^sup>*\<^sup>* p q \<and> producer q = Put_Asleep x
    \<and> (\<forall>r. (pool_step False)\<^sup>*\<^sup>* q r \<longrightarrow> producer r = Put_Asleep x \<and> accepted r = accepted q)
    \<and> (\<exists>r. (pool_step False)\<^sup>*\<^sup>* q r \<and> buffer (shared r) = [])"
proof -
  have "length (buffer (shared p)) \<le> capacity (shared p)"
    using reachable_pool [OF assms(1-3)] by (simp add: pool_ok_def buffer_ok_def)
  from fills_up [OF assms(5) this] obtain q x where q: "(pool_step False)\<^sup>*\<^sup>* p q" "producer q = Put_Asleep x" by blast
  from rtranclp_trans [OF assms(1) q(1)] have reach: "(pool_step False)\<^sup>*\<^sup>* (pool_new max_size n) q" .
  have "workers q \<noteq> []" using reachable_pool(3) [OF reach assms(2,3)] assms(4) by auto
  note empties = drains [OF reachable_pool(1) [OF reach assms(2,3)] this]
  have asleep: "\<forall>r. (pool_step False)\<^sup>*\<^sup>* q r \<longrightarrow> producer r = Put_Asleep x \<and> accepted r = accepted q"
    by (intro allI impI) (rule asleep_steps [OF _ q(2)])
  show ?thesis by (rule exI [of _ q], rule exI [of _ x]) (intro conjI q asleep empties)
qed

section \<open>Witness\<close>

theorem full_buffer_stops_accepting_witness:
  "\<exists>q x. (pool_step False)\<^sup>*\<^sup>* (pool_new 5 4 :: int pool) q \<and> producer q = Put_Asleep x
    \<and> (\<forall>r. (pool_step False)\<^sup>*\<^sup>* q r \<longrightarrow> accepted r = accepted q) \<and> (\<exists>r. (pool_step False)\<^sup>*\<^sup>* q r \<and> buffer (shared r) = [])"
  using full_buffer_stops_accepting [of 5 4 "pool_new 5 4 :: int pool"] by (simp add: pool_new_def) meson

end
