(* ===== verification/Torero_Serve.thy ===== *)
theory Torero_Serve
  imports Web_Sockets Http_Request Bounded_Buffer Fs_Path
begin

text \<open>
  The web server (\<open>torero-serve.cpp\<close>, \<open>main.cpp\<close> of project 2): what it answers to a request, and the
  threads that do so. The file system is a parameter, a function from paths to what is there; a path
  the process cannot read is a file of its own kind. What the server prints is left out.
\<close>

section \<open>Files\<close>

datatype fs_node = Regular bytes | Unreadable nat | Directory "string list" | Special

type_synonym web_fs = "string \<Rightarrow> fs_node option"

definition is_directory :: "web_fs \<Rightarrow> string \<Rightarrow> bool" where
  "is_directory fs p = (case fs p of Some (Directory _) \<Rightarrow> True | _ \<Rightarrow> False)"

definition is_regular_file :: "web_fs \<Rightarrow> string \<Rightarrow> bool" where
  "is_regular_file fs p = (case fs p of Some (Regular _) \<Rightarrow> True | Some (Unreadable _) \<Rightarrow> True | _ \<Rightarrow> False)"

definition path_exists :: "web_fs \<Rightarrow> string \<Rightarrow> bool" where
  "path_exists fs p \<longleftrightarrow> fs p \<noteq> None"

definition path_file_size :: "web_fs \<Rightarrow> string \<Rightarrow> nat web_io" where
  "path_file_size fs p = (case fs p of
      Some (Regular data) \<Rightarrow> ret (length data)
    | Some (Unreadable n) \<Rightarrow> ret n
    | _ \<Rightarrow> halt (Throw Fs_Error))"

definition open_file :: "web_fs \<Rightarrow> string \<Rightarrow> ifstream" where
  "open_file fs p = (case fs p of
      Some (Regular data) \<Rightarrow> ifstream_open data
    | _ \<Rightarrow> (ifstream_open [])\<lparr>f_fail := True\<rparr>)"

text \<open>The path of an entry of a directory.\<close>

definition path_append :: "string \<Rightarrow> string \<Rightarrow> string" where
  "path_append p name = (if p \<noteq> [] \<and> last p = CHR ''/'' then p @ name else p @ ''/'' @ name)"

section \<open>Responses\<close>

definition getPathExtension :: "string \<Rightarrow> string" where
  "getPathExtension path =
     (let ext = path_extension path in
      if ext = ''.html'' \<or> ext = ''.htm'' then ''text/html''
      else if ext = ''.css'' then ''text/css''
      else if ext = ''.js'' then ''application/javascript''
      else if ext = ''.png'' then ''image/png''
      else if ext = ''.jpg'' \<or> ext = ''.jpeg'' then ''image/jpeg''
      else if ext = ''.gif'' then ''image/gif''
      else if ext = ''.pdf'' then ''application/pdf''
      else if ext = ''.json'' then ''application/json''
      else if ext = ''.txt'' then ''text/plain''
      else ''application/octet-stream'')"

definition LF :: string where
  "LF = [CHR 0x0A]"

definition directory_entry_html :: "web_fs \<Rightarrow> string \<Rightarrow> string \<Rightarrow> string" where
  "directory_entry_html fs full_file_path name =
     (if is_directory fs (path_append full_file_path name)
      then ''<li><a href='' @ [CHR 0x22] @ name @ ''/'' @ [CHR 0x22] @ ''>'' @ name @ ''/</a></li>'' @ LF
      else ''<li><a href='' @ [CHR 0x22] @ name @ [CHR 0x22] @ ''>'' @ name @ ''</a></li>'' @ LF)"

definition generateDirectoryHTML :: "web_fs \<Rightarrow> string \<Rightarrow> string \<Rightarrow> string option" where
  "generateDirectoryHTML fs full_file_path resource = (case fs full_file_path of
      Some (Directory names) \<Rightarrow> Some
        (''<html>'' @ LF @ ''<body>'' @ LF @ ''<h1>Contents of '' @ resource @ '':</h1>'' @ LF
         @ ''<ul id='' @ [CHR 0x22] @ ''fileList'' @ [CHR 0x22] @ ''>'' @ LF
         @ concat (map (directory_entry_html fs full_file_path) names)
         @ ''</ul>'' @ LF @ ''</body>'' @ LF @ ''</html>'' @ LF)
    | _ \<Rightarrow> None)"

definition ok_header :: "string \<Rightarrow> nat \<Rightarrow> string" where
  "ok_header content_type len =
     ''HTTP/1.0 200 OK'' @ CRLF @ ''Content-Type: '' @ content_type @ CRLF
     @ ''Content-Length: '' @ to_string_nat len @ CRLF @ CRLF"

definition sendOKHeader :: "web_fs \<Rightarrow> ClientSocket \<Rightarrow> string \<Rightarrow> unit web_io" where
  "sendOKHeader fs client file_path =
     bind_io (path_file_size fs file_path) (\<lambda>file_size.
       sendData client (text_bytes (ok_header (getPathExtension file_path) file_size)))"

text \<open>
  The loop of \<open>sendFile\<close>. It ends at the end of the file; on a stream that failed to open it never
  ends, which is \<open>None\<close>. Where it is called, not ending is \<open>Blocked\<close>, as for a call that does not return.
\<close>

definition FILE_CHUNK :: nat where
  "FILE_CHUNK = 4096"

partial_function (option) sendFile_loop :: "ClientSocket \<Rightarrow> ifstream \<Rightarrow> web \<Rightarrow> ((web_exn, unit) outcome \<times> web) option" where
  "sendFile_loop client stream w =
     (if f_eof stream then Some (Ret (), w)
      else if fst (stream_read FILE_CHUNK stream) \<noteq> [] then
        if fst (sendData client (fst (stream_read FILE_CHUNK stream)) w) = Ret ()
        then sendFile_loop client (snd (stream_read FILE_CHUNK stream))
               (snd (sendData client (fst (stream_read FILE_CHUNK stream)) w))
        else Some (sendData client (fst (stream_read FILE_CHUNK stream)) w)
      else sendFile_loop client (snd (stream_read FILE_CHUNK stream)) w)"

definition sendFile :: "web_fs \<Rightarrow> ClientSocket \<Rightarrow> string \<Rightarrow> unit web_io" where
  "sendFile fs client file_path = (\<lambda>w. case sendFile_loop client (open_file fs file_path) w of
      None \<Rightarrow> (Blocked, w) | Some r \<Rightarrow> r)"

definition respondWith200 :: "web_fs \<Rightarrow> ClientSocket \<Rightarrow> string \<Rightarrow> string \<Rightarrow> unit web_io" where
  "respondWith200 fs client resource full_file_path =
     (if is_directory fs full_file_path then
        if path_exists fs (full_file_path @ ''/index.html'') then
          then_io (sendOKHeader fs client (full_file_path @ ''/index.html''))
            (sendFile fs client (full_file_path @ ''/index.html''))
        else
          bind_io (case generateDirectoryHTML fs full_file_path resource of
              None \<Rightarrow> halt (Throw Fs_Error) | Some html \<Rightarrow> ret html)
            (\<lambda>html. then_io (sendData client (text_bytes (ok_header ''text/html'' (length html))))
              (sendData client (text_bytes html)))
      else if is_regular_file fs full_file_path then
        then_io (sendOKHeader fs client full_file_path) (sendFile fs client full_file_path)
      else ret ())"

text \<open>The argument is a string literal, whose span includes the terminating zero.\<close>

definition bad_request :: bytes where
  "bad_request = text_bytes (''HTTP/1.0 400 BAD REQUEST'' @ CRLF @ CRLF) @ [0]"

definition respondWith400 :: "ClientSocket \<Rightarrow> unit web_io" where
  "respondWith400 client = sendData client bad_request"

definition not_found_html :: string where
  "not_found_html =
     ''<html>'' @ LF @ ''<head>'' @ LF @ ''<title>Ruh-roh! Page not found!</title>'' @ LF @ ''</head>'' @ LF @ ''<body>'' @ LF
     @ ''404 Page Not Found! :'' @ [CHR 0x27] @ ''( :'' @ [CHR 0x27] @ ''( :'' @ [CHR 0x27] @ ''('' @ LF
     @ ''</body>'' @ LF @ ''</html>'' @ LF"

definition not_found_header :: string where
  "not_found_header =
     ''HTTP/1.0 404 NOT FOUND'' @ CRLF @ ''Content-Type: text/html'' @ CRLF
     @ ''Content-Length: '' @ to_string_nat (length not_found_html) @ CRLF @ CRLF"

definition respondWith404 :: "ClientSocket \<Rightarrow> unit web_io" where
  "respondWith404 client =
     then_io (sendData client (text_bytes not_found_header)) (sendData client (text_bytes not_found_html))"

definition sendResponse :: "web_fs \<Rightarrow> ClientSocket \<Rightarrow> string \<Rightarrow> unit web_io" where
  "sendResponse fs client resource =
     (let full_file_path = ''WWW'' @ resource in
      if resource = [] then respondWith400 client
      else if \<not> path_exists fs full_file_path then respondWith404 client
      else respondWith200 fs client resource full_file_path)"

definition bytes_text :: "bytes \<Rightarrow> string" where
  "bytes_text bs = map (\<lambda>b. char_of (unat b)) bs"

definition handleClient :: "web_fs \<Rightarrow> ClientSocket \<Rightarrow> bytes option \<Rightarrow> unit web_io" where
  "handleClient fs client received =
     bind_io (receiveData client received 2048) (\<lambda>request.
       then_io (sendResponse fs client (parseRequest (bytes_text request))) (client_close client))"

section \<open>The threads\<close>

text \<open>
  \<open>consumeClients\<close> takes clients from the buffer and handles them for ever: here, one after the other
  as long as requests come in. An exception leaves the thread and ends the process.
\<close>

fun consumeClients :: "web_fs \<Rightarrow> (ClientSocket \<times> bytes option) list \<Rightarrow> unit web_io" where
  "consumeClients fs [] = ret ()"
| "consumeClients fs ((client, received) # rest) = then_io (handleClient fs client received) (consumeClients fs rest)"

text \<open>
  The accepting thread: each accepted client goes into the buffer of five, which the pool of four
  workers shares; the steps of the pool are those of the theory of the buffer. The directory given by the user is not used.
\<close>

definition torero_pool :: "ClientSocket pool" where
  "torero_pool = pool_new 5 4"

definition runServer :: "web_env \<Rightarrow> u16 \<Rightarrow> string \<Rightarrow> (ServerSocket \<times> ClientSocket pool) web_io" where
  "runServer env port root_dir =
     bind_io (ServerSocket_new env port) (\<lambda>server.
       then_io (startListening env server) (ret (server, torero_pool)))"

definition torero_main :: "web_env \<Rightarrow> nat \<Rightarrow> string \<Rightarrow> bool \<Rightarrow> string \<Rightarrow> (ServerSocket \<times> ClientSocket pool) web_io" where
  "torero_main env argc port_arg root_is_directory root_dir =
     (if argc \<noteq> 3 then halt Exit_Failure
      else case stoi port_arg of
          Inl Invalid_Argument \<Rightarrow> halt Exit_Failure
        | Inl Out_Of_Range \<Rightarrow> halt (Throw (Bad_Argument Out_Of_Range))
        | Inr v \<Rightarrow>
            let port = word_of_int v :: u16
            in if \<not> root_is_directory then halt Exit_Failure else runServer env port root_dir)"

section \<open>Replies\<close>

text \<open>
  What a client gets for a resource, without sockets and loops. \<open>None\<close>: the server does not complete
  a reply, because a size is asked of something that is not a file, or a file cannot be read.
\<close>

definition file_reply :: "string \<Rightarrow> bytes \<Rightarrow> bytes" where
  "file_reply path data = text_bytes (ok_header (getPathExtension path) (length data)) @ data"

definition http_reply :: "web_fs \<Rightarrow> string \<Rightarrow> bytes option" where
  "http_reply fs resource =
     (if resource = [] then Some bad_request
      else case fs (''WWW'' @ resource) of
          None \<Rightarrow> Some (text_bytes (not_found_header @ not_found_html))
        | Some (Regular data) \<Rightarrow> Some (file_reply (''WWW'' @ resource) data)
        | Some (Directory _) \<Rightarrow> (case fs (''WWW'' @ resource @ ''/index.html'') of
              None \<Rightarrow> map_option (\<lambda>html. text_bytes (ok_header ''text/html'' (length html) @ html))
                (generateDirectoryHTML fs (''WWW'' @ resource) resource)
            | Some (Regular data) \<Rightarrow> Some (file_reply (''WWW'' @ resource @ ''/index.html'') data)
            | _ \<Rightarrow> None)
        | Some Special \<Rightarrow> Some []
        | Some (Unreadable _) \<Rightarrow> None)"

text \<open>A file is sent whole, in blocks of 4096 bytes.\<close>

lemma sendFile_loop_all:
  assumes "\<not> f_eof s" and "\<not> f_fail s" and "f_pos s = int k" and "k \<le> length (f_bytes s)"
    and "writable w (length (f_bytes s) - k)"
  shows "\<exists>w'. sendFile_loop c s w = Some (Ret (), w') \<and> written (socket_fd c) w (drop k (f_bytes s)) w'"
  using assms
proof (induction "length (f_bytes s) - k" arbitrary: k s w rule: less_induct)
  case less
  let ?got = "take FILE_CHUNK (drop k (f_bytes s))"
  let ?n = "min FILE_CHUNK (length (f_bytes s) - k)"
  let ?short = "length (f_bytes s) - k < FILE_CHUNK"
  let ?s = "s\<lparr>f_pos := int (k + ?n), f_eof := ?short, f_fail := ?short\<rparr>"
  have read: "stream_read FILE_CHUNK s = (?got, ?s)"
    using stream_read_good [OF less.prems(1-3)] .
  have "writable w (length ?got)" using less.prems(5) by (rule writable_less) simp
  from sendData_all [OF this, of c] obtain w1 where
    w1: "sendData c ?got w = (Ret (), w1)" "written (socket_fd c) w ?got w1" by blast
  have cont: "sendFile_loop c s w = sendFile_loop c ?s w1"
  proof (cases "?got = []")
    case True
    with w1 have "w1 = w" by (auto simp: sendData_def sendData_from.simps)
    with True show ?thesis
      using less.prems(1) by (simp only: sendFile_loop.simps [of c s] read fst_conv snd_conv) simp
  next
    case False
    then show ?thesis
      using less.prems(1) by (simp only: sendFile_loop.simps [of c s] read fst_conv snd_conv w1(1)) simp
  qed
  show ?case
  proof (cases ?short)
    case True
    then have "?got = drop k (f_bytes s)" by simp
    moreover have "sendFile_loop c ?s w1 = Some (Ret (), w1)"
      by (subst sendFile_loop.simps) (simp add: True)
    ultimately show ?thesis using w1(2) unfolding cont by auto
  next
    case False
    then have n: "?n = FILE_CHUNK" "0 < ?n" "k + ?n \<le> length (f_bytes s)" by (auto simp: FILE_CHUNK_def)
    have "length ?got = ?n" by simp
    then have "writable w1 (length (f_bytes s) - (k + ?n))"
      using less.prems(4,5) n by (intro written_writable [OF w1(2)]) simp
    then have "\<exists>w'. sendFile_loop c ?s w1 = Some (Ret (), w') \<and> written (socket_fd c) w1 (drop (k + ?n) (f_bytes ?s)) w'"
      using False n by (intro less.hyps) simp_all
    then obtain w' where w': "sendFile_loop c ?s w1 = Some (Ret (), w')"
      "written (socket_fd c) w1 (drop (k + ?n) (f_bytes s)) w'" by auto
    have "drop (k + ?n) (f_bytes s) = drop FILE_CHUNK (drop k (f_bytes s))"
      using n(1) by (simp add: add.commute)
    then have "?got @ drop (k + ?n) (f_bytes s) = drop k (f_bytes s)" by (simp only: append_take_drop_id)
    with written_trans [OF w1(2) w'(2)] w'(1) show ?thesis unfolding cont by auto
  qed
qed

lemma sendFile_all:
  assumes "fs p = Some (Regular data)" and "writable w (length data)"
  shows "\<exists>w'. sendFile fs c p w = (Ret (), w') \<and> written (socket_fd c) w data w'"
proof -
  from sendFile_loop_all [of "ifstream_open data" 0 w c] assms(2) obtain w' where
    "sendFile_loop c (ifstream_open data) w = Some (Ret (), w')" "written (socket_fd c) w data w'"
    by (auto simp: ifstream_open_def)
  then show ?thesis by (simp add: sendFile_def open_file_def assms(1))
qed

lemma then_io_written:
  assumes "writable w (length a + length b)"
    and "\<And>w. writable w (length a) \<Longrightarrow> \<exists>w'. m w = (Ret (), w') \<and> written fd w a w'"
    and "\<And>w. writable w (length b) \<Longrightarrow> \<exists>w'. k w = (Ret (), w') \<and> written fd w b w'"
  shows "\<exists>w'. then_io m k w = (Ret (), w') \<and> written fd w (a @ b) w'"
proof -
  from assms(2) [OF writable_less [OF assms(1)]] obtain w1 where w1: "m w = (Ret (), w1)" "written fd w a w1" by auto
  from assms(3) [OF written_writable [OF w1(2) assms(1)]] obtain w2 where
    w2: "k w1 = (Ret (), w2)" "written fd w1 b w2" by blast
  from written_trans [OF w1(2) w2(2)] w1(1) w2(1) show ?thesis by (simp add: then_io_def bind_io_def)
qed

lemma sendOKHeader_eq:
  "fs p = Some (Regular data) \<Longrightarrow> sendOKHeader fs c p = sendData c (text_bytes (ok_header (getPathExtension p) (length data)))"
  by (simp add: sendOKHeader_def path_file_size_def bind_io_ret_left)

lemma file_reply_sent:
  assumes "fs p = Some (Regular data)" and "writable w (length (file_reply p data))"
  shows "\<exists>w'. then_io (sendOKHeader fs c p) (sendFile fs c p) w = (Ret (), w') \<and> written (socket_fd c) w (file_reply p data) w'"
  unfolding file_reply_def
  by (rule then_io_written)
    (use assms sendData_all sendFile_all [where fs = fs and p = p, OF assms(1)] in \<open>simp_all add: sendOKHeader_eq file_reply_def\<close>)

lemma sendData_twice:
  assumes "writable w (length (a @ b))"
  shows "\<exists>w'. then_io (sendData c a) (sendData c b) w = (Ret (), w') \<and> written (socket_fd c) w (a @ b) w'"
  by (rule then_io_written) (use assms sendData_all in simp_all)

lemma text_bytes_append: "text_bytes (a @ b) = text_bytes a @ text_bytes b"
  by (simp add: text_bytes_def)

lemma sendResponse_replies:
  assumes "http_reply fs resource = Some rep" and "writable w (length rep)"
  shows "\<exists>w'. sendResponse fs c resource w = (Ret (), w') \<and> written (socket_fd c) w rep w'"
proof (cases "resource = []")
  case True
  with assms show ?thesis by (simp add: sendResponse_def http_reply_def respondWith400_def sendData_all)
next
  case ne: False
  let ?p = "''WWW'' @ resource"
  have response: "sendResponse fs c resource =
      (if fs ?p = None then respondWith404 c else respondWith200 fs c resource ?p)"
    using ne by (simp add: sendResponse_def path_exists_def Let_def)
  show ?thesis
  proof (cases "fs ?p")
    case None
    have rep: "rep = text_bytes not_found_header @ text_bytes not_found_html"
      using assms(1) ne None by (simp add: http_reply_def text_bytes_append)
    from None sendData_twice [of w "text_bytes not_found_header" "text_bytes not_found_html" c] assms(2)
    show ?thesis by (simp add: response respondWith404_def rep)
  next
    case (Some node)
    then have response: "sendResponse fs c resource = respondWith200 fs c resource ?p" by (simp add: response)
    show ?thesis
    proof (cases node)
      case (Regular data)
      with Some assms ne file_reply_sent [of fs ?p data w c] show ?thesis
        by (simp add: response respondWith200_def http_reply_def is_directory_def is_regular_file_def)
    next
      case (Unreadable n)
      with Some assms(1) ne show ?thesis by (simp add: http_reply_def)
    next
      case (Directory names)
      show ?thesis
      proof (cases "fs (?p @ ''/index.html'')")
        case None
        obtain html where html: "generateDirectoryHTML fs ?p resource = Some html"
          using Some Directory by (simp add: generateDirectoryHTML_def)
        have rep: "rep = text_bytes (ok_header ''text/html'' (length html)) @ text_bytes html"
          using assms(1) ne Some Directory None html by (simp add: http_reply_def text_bytes_append)
        have "sendResponse fs c resource = then_io (sendData c (text_bytes (ok_header ''text/html'' (length html))))
            (sendData c (text_bytes html))"
          using Some Directory None html by (simp add: response respondWith200_def is_directory_def path_exists_def bind_io_ret_left)
        with sendData_twice [of w "text_bytes (ok_header ''text/html'' (length html))" "text_bytes html" c] assms(2)
        show ?thesis by (simp add: rep)
      next
        case (Some node')
        with \<open>fs ?p = Some node\<close> Directory assms(1) ne obtain data where
          data: "node' = Regular data" "rep = file_reply (?p @ ''/index.html'') data"
          by (auto simp: http_reply_def split: fs_node.splits)
        have "sendResponse fs c resource = then_io (sendOKHeader fs c (?p @ ''/index.html'')) (sendFile fs c (?p @ ''/index.html''))"
          using Some \<open>fs ?p = Some node\<close> Directory by (simp add: response respondWith200_def is_directory_def path_exists_def)
        with file_reply_sent [of fs "?p @ ''/index.html''" data w c] Some data assms(2) show ?thesis by simp
      qed
    next
      case Special
      with Some assms ne show ?thesis
        by (simp add: response respondWith200_def http_reply_def is_directory_def is_regular_file_def ret_def)
    qed
  qed
qed

text \<open>C36: A client gets exactly the reply to the resource its request line names, in any pieces, and its
  socket is closed.\<close>

theorem request_served:
  assumes "http_reply fs (parseRequest (bytes_text (take 2048 request))) = Some rep" and "writable w (length rep)"
  shows "\<exists>scr. handleClient fs c (Some request) w =
    (Ret (), w\<lparr>write_script := scr, out := (out w)(socket_fd c := out w (socket_fd c) @ rep),
       open_sockets := open_sockets w - {socket_fd c}\<rparr>)"
proof -
  from sendResponse_replies [OF assms] obtain w' where
    "sendResponse fs c (parseRequest (bytes_text (take 2048 request))) w = (Ret (), w')"
    "written (socket_fd c) w rep w'" by blast
  then show ?thesis
    by (auto simp: handleClient_def receiveData_def then_io_def bind_io_def client_close_def upd_def ret_def written_def)
qed

lemma of_char_byte: "unat (word_of_nat (of_char c) :: u8) = of_char c"
proof -
  have "(of_char c :: nat) < 256" by (rule nat_of_char_less_256)
  then show ?thesis by (simp add: unat_of_nat take_bit_nat_eq_self)
qed

lemma bytes_text_text_bytes [simp]: "bytes_text (text_bytes s) = s"
  by (induction s) (simp_all add: bytes_text_def text_bytes_def of_char_byte)

theorem request_served_witness:
  "\<exists>scr. handleClient (\<lambda>p. if p = ''WWW/a'' then Some (Regular [9]) else None) (ClientSocket_new 4)
      (Some (text_bytes ''GET  /a HTTP/1.1'')) \<lparr>write_script = replicate 200 (Wrote 1), out = \<lambda>_. [], open_sockets = {4}\<rparr> =
    (Ret (), \<lparr>write_script = scr, out = (\<lambda>_. [])(4 := file_reply ''WWW/a'' [9]), open_sockets = {}\<rparr>)"
proof -
  let ?fs = "\<lambda>p. if p = ''WWW/a'' then Some (Regular [9]) else None"
  let ?request = "text_bytes ''GET  /a HTTP/1.1''"
  let ?w = "\<lparr>write_script = replicate 200 (Wrote 1), out = \<lambda>_. [], open_sockets = {4}\<rparr>"
  have line: "before_crlf ''GET  /a HTTP/1.1'' = request_line ''  '' ''/a'' '' '' CHR ''1'' CHR ''1''"
    by (simp add: request_line_def CRLF_def)
  have "line_parts_ok ''  '' ''/a'' '' '' CHR ''1'' CHR ''1''"
    by (simp add: line_parts_ok_def is_space_def is_digit_def)
  then have "parseRequest ''GET  /a HTTP/1.1'' = ''/a''"
    using parseRequest_iff [of "''GET  /a HTTP/1.1''" "''/a''"] line by auto
  then have parse: "parseRequest (bytes_text (take 2048 ?request)) = ''/a''" by simp
  have reply: "http_reply ?fs (parseRequest (bytes_text (take 2048 ?request))) = Some (file_reply ''WWW/a'' [9])"
    unfolding parse by (simp add: http_reply_def)
  have "length (file_reply ''WWW/a'' [9]) \<le> 200"
    by (simp add: file_reply_def ok_header_def CRLF_def getPathExtension_def path_extension_def path_filename_def
        to_string_nat.simps Let_def)
  then have "writable ?w (length (file_reply ''WWW/a'' [9]))" by (simp add: writable_def list_all_iff)
  from request_served [OF reply this, of "ClientSocket_new 4"] show ?thesis
    by (simp add: ClientSocket_new_def)
qed

section \<open>Files that cannot be read\<close>

lemma sendFile_loop_failed:
  assumes "sendFile_loop c s w = Some r"
  shows "f_fail s \<longrightarrow> f_eof s"
  using assms
proof (rule sendFile_loop.raw_induct [where P = "\<lambda>_ s _ _. f_fail s \<longrightarrow> f_eof s", rotated], goal_cases)
  case (1 loop c s w r)
  show ?case
  proof (intro impI, rule ccontr)
    assume s: "f_fail s" "\<not> f_eof s"
    then have "stream_read FILE_CHUNK s = ([], s)" by (simp add: stream_read_def)
    with 1(2) s(2) have "loop c s w = Some r" by simp
    from 1(1) [OF this] s show False by simp
  qed
qed

lemma sendFile_loop_ends:
  assumes "\<not> f_eof s" and "\<not> f_fail s" and "f_pos s = int k" and "k \<le> length (f_bytes s)"
  shows "sendFile_loop c s w \<noteq> None"
  using assms
proof (induction "length (f_bytes s) - k" arbitrary: k s w rule: less_induct)
  case less
  let ?got = "take FILE_CHUNK (drop k (f_bytes s))"
  let ?n = "min FILE_CHUNK (length (f_bytes s) - k)"
  let ?short = "length (f_bytes s) - k < FILE_CHUNK"
  let ?s = "s\<lparr>f_pos := int (k + ?n), f_eof := ?short, f_fail := ?short\<rparr>"
  have read: "stream_read FILE_CHUNK s = (?got, ?s)"
    using stream_read_good [OF less.prems(1-3)] .
  have "sendFile_loop c ?s w' \<noteq> None" for w'
  proof (cases ?short)
    case True
    then show ?thesis by (subst sendFile_loop.simps) simp
  next
    case False
    then have "?n = FILE_CHUNK" "0 < ?n" "k + ?n \<le> length (f_bytes s)" by (auto simp: FILE_CHUNK_def)
    with False show ?thesis by (intro less.hyps [of _ "k + ?n"]) simp_all
  qed
  then show ?case
    by (simp only: sendFile_loop.simps [of c s w] read fst_conv snd_conv) simp
qed

lemma sendFile_terminates_iff:
  "sendFile_loop c (open_file fs p) w = None \<longleftrightarrow> (\<nexists>data. fs p = Some (Regular data))"
proof (cases "\<exists>data. fs p = Some (Regular data)")
  case True
  then obtain data where data: "fs p = Some (Regular data)" by blast
  then have "sendFile_loop c (open_file fs p) w \<noteq> None"
    by (intro sendFile_loop_ends [of _ 0]) (simp_all add: open_file_def ifstream_open_def)
  with data show ?thesis by simp
next
  case False
  then have "f_fail (open_file fs p) \<and> \<not> f_eof (open_file fs p)"
    by (auto simp: open_file_def ifstream_open_def split: option.splits fs_node.splits)
  then have "sendFile_loop c (open_file fs p) w = None"
    using sendFile_loop_failed [of c "open_file fs p" w] by (metis option.exhaust)
  with False show ?thesis by simp
qed

text \<open>C40: Sending a file that can be read always comes to an end, however the calls of \<open>send\<close> go; sending any
  other file never does, since a stream that failed to open is never at its end.\<close>

theorem sendFile_terminates:
  "sendFile_loop c (open_file fs p) w = None \<longleftrightarrow> (\<nexists>data. fs p = Some (Regular data))"
  by (rule sendFile_terminates_iff)

section \<open>Requests the server should refuse\<close>

text \<open>A message that is not a request line gets the status line of a bad request, an empty line and then
  a zero byte, which is the end of the string literal.\<close>

lemma malformed_gets_zero:
  assumes "\<nexists>g1 r g2 a b. line_parts_ok g1 r g2 a b \<and> before_crlf (bytes_text (take 2048 request)) = request_line g1 r g2 a b"
    and "writable w 29"
  shows "\<exists>w'. handleClient fs c (Some request) w = (Ret (), w') \<and> out w' (socket_fd c) = out w (socket_fd c)
    @ text_bytes (''HTTP/1.0 400 BAD REQUEST'' @ CRLF @ CRLF) @ [0]"
proof -
  have "parseRequest (bytes_text (take 2048 request)) = []"
    using assms(1) parseRequest_iff [of "bytes_text (take 2048 request)" "[]"] by simp
  moreover have "http_reply fs [] = Some bad_request" by (simp add: http_reply_def)
  moreover have len: "length bad_request = 29" by (simp add: bad_request_def CRLF_def)
  moreover have "writable w (length bad_request)" using assms(2) unfolding len .
  ultimately obtain w' where "sendResponse fs c (parseRequest (bytes_text (take 2048 request))) w = (Ret (), w')"
    "written (socket_fd c) w bad_request w'" using sendResponse_replies by metis
  then show ?thesis
    by (auto simp: handleClient_def receiveData_def then_io_def bind_io_def client_close_def upd_def ret_def written_def
        bad_request_def)
qed

text \<open>A file outside the served directory is served to whoever asks for its path with two dots.\<close>

lemma path_traversal:
  assumes "fs (''WWW/../'' @ name) = Some (Regular data)" and "list_all (\<lambda>ch. \<not> is_space ch) name" and "length name \<le> 2000"
    and "writable w (length (file_reply (''WWW/../'' @ name) data))"
  shows "\<exists>w'. handleClient fs c (Some (text_bytes (''GET /../'' @ name @ '' HTTP/1.0'' @ CRLF @ rest))) w = (Ret (), w')
    \<and> out w' (socket_fd c) = out w (socket_fd c) @ file_reply (''WWW/../'' @ name) data"
proof -
  let ?line = "''GET /../'' @ name @ '' HTTP/1.0''"
  let ?request = "text_bytes (''GET /../'' @ name @ '' HTTP/1.0'' @ CRLF @ rest)"
  have "bytes_text (take 2048 ?request) = take 2048 (?line @ CRLF @ rest)"
    by (simp add: bytes_text_def take_map [symmetric]) (simp flip: bytes_text_def)
  also have "\<dots> = take 2048 ((?line @ CRLF) @ rest)" by simp
  also have "\<dots> = (?line @ CRLF) @ take (2048 - length (?line @ CRLF)) rest"
  proof -
    have "take 2048 (?line @ CRLF) = ?line @ CRLF" using assms(3) by (intro take_all) (simp add: CRLF_def)
    then show ?thesis by (simp only: take_append [of _ "?line @ CRLF" rest])
  qed
  also have "\<dots> = ?line @ CRLF @ take (2048 - length (?line @ CRLF)) rest" by simp
  finally have request: "bytes_text (take 2048 ?request) = ?line @ CRLF @ take (2048 - length (?line @ CRLF)) rest" .
  have cr: "CHR 0x0D \<notin> set ?line" using assms(2) by (auto simp: list_all_iff is_space_def)
  have line: "before_crlf (bytes_text (take 2048 ?request)) = request_line '' '' (''/../'' @ name) '' '' CHR ''1'' CHR ''0''"
    unfolding request before_crlf_line [OF cr] by (simp add: request_line_def)
  have "line_parts_ok '' '' (''/../'' @ name) '' '' CHR ''1'' CHR ''0''"
    using assms(2) by (simp add: line_parts_ok_def is_space_def is_digit_def)
  then have parse: "parseRequest (bytes_text (take 2048 ?request)) = ''/../'' @ name"
    using parseRequest_iff [of "bytes_text (take 2048 ?request)" "''/../'' @ name"] line by auto
  have "http_reply fs (''/../'' @ name) = Some (file_reply (''WWW/../'' @ name) data)"
    using assms(1) by (simp add: http_reply_def)
  with sendResponse_replies [OF _ assms(4)] obtain w' where
    "sendResponse fs c (parseRequest (bytes_text (take 2048 ?request))) w = (Ret (), w')"
    "written (socket_fd c) w (file_reply (''WWW/../'' @ name) data) w'" unfolding parse by blast
  then show ?thesis
    by (auto simp: handleClient_def receiveData_def then_io_def bind_io_def client_close_def upd_def ret_def written_def)
qed

end
