(* ===== verification/Torero_Jobs.thy ===== *)
theory Torero_Jobs
  imports Torero_Serve
begin

text \<open>
  Handling a client of the web server of project 2, cut into the calls of \<open>send\<close> it makes: a \<open>job\<close> holds
  the locals of \<open>handleClient\<close>, the pieces that are still to be sent and how handling ends after them.
  The steps of one job, run without interruption, are \<open>handleClient\<close>.
\<close>

section \<open>What is sent for a request\<close>

text \<open>
  The data of the calls of \<open>sendData\<close> for a resource, and how \<open>sendResponse\<close> ends if they return: \<open>Blocked\<close> is the
  loop over a file that cannot be read.
\<close>

type_synonym plan = "bytes list \<times> (web_exn, unit) outcome"

function file_blocks :: "bytes \<Rightarrow> bytes list" where
  "file_blocks data = (if data = [] then [] else take FILE_CHUNK data # file_blocks (drop FILE_CHUNK data))"
  by pat_completeness auto
termination
  by (relation "measure length") (auto simp: FILE_CHUNK_def)

declare file_blocks.simps [simp del]

lemma concat_file_blocks [simp]: "concat (file_blocks data) = data"
  by (induction data rule: file_blocks.induct) (subst file_blocks.simps, simp)

definition ok_file_plan :: "web_fs \<Rightarrow> string \<Rightarrow> plan" where
  "ok_file_plan fs p = (case fs p of
      Some (Regular data) \<Rightarrow> (text_bytes (ok_header (getPathExtension p) (length data)) # file_blocks data, Ret ())
    | Some (Unreadable n) \<Rightarrow> ([text_bytes (ok_header (getPathExtension p) n)], Blocked)
    | _ \<Rightarrow> ([], Throw Fs_Error))"

definition directory_plan :: "web_fs \<Rightarrow> string \<Rightarrow> string \<Rightarrow> plan" where
  "directory_plan fs p resource = (case generateDirectoryHTML fs p resource of
      None \<Rightarrow> ([], Throw Fs_Error)
    | Some html \<Rightarrow> ([text_bytes (ok_header ''text/html'' (length html)), text_bytes html], Ret ()))"

definition reply_plan :: "web_fs \<Rightarrow> string \<Rightarrow> plan" where
  "reply_plan fs resource =
     (let p = ''WWW'' @ resource in
      if resource = [] then ([bad_request], Ret ())
      else case fs p of
          None \<Rightarrow> ([text_bytes not_found_header, text_bytes not_found_html], Ret ())
        | Some (Directory _) \<Rightarrow>
            if fs (p @ ''/index.html'') \<noteq> None then ok_file_plan fs (p @ ''/index.html'') else directory_plan fs p resource
        | Some Special \<Rightarrow> ([], Ret ())
        | _ \<Rightarrow> ok_file_plan fs p)"

definition run_plan :: "ClientSocket \<Rightarrow> plan \<Rightarrow> unit web_io" where
  "run_plan c plan = foldr (\<lambda>d m. then_io (sendData c d) m) (fst plan) (halt (snd plan))"

lemma run_plan_simps [simp]:
  "run_plan c ([], e) = halt e" "run_plan c (d # ds, e) = then_io (sendData c d) (run_plan c (ds, e))"
  by (simp_all add: run_plan_def)

lemma pass_same: "\<forall>x. q \<noteq> Ret x \<Longrightarrow> pass q = q"
  by (cases q) simp_all

lemma then_halt_Ret: "then_io m (halt (Ret ())) = m"
proof
  fix s
  obtain q s' where m: "m s = (q, s')" by fastforce
  show "then_io m (halt (Ret ())) s = m s"
    using m by (cases q) (simp_all add: then_io_def bind_io_def halt_def)
qed

lemma sendData_Nil [simp]: "sendData c [] = ret ()"
  by (simp add: sendData_def sendData_from.simps fun_eq_iff ret_def)

lemma sendFile_loop_plan:
  assumes "\<not> f_eof s" and "\<not> f_fail s" and "f_pos s = int k" and "k \<le> length (f_bytes s)"
  shows "sendFile_loop c s w = Some (run_plan c (file_blocks (drop k (f_bytes s)), Ret ()) w)"
  using assms
proof (induction "length (f_bytes s) - k" arbitrary: k s w rule: less_induct)
  case less
  let ?rest = "drop k (f_bytes s)"
  let ?got = "take FILE_CHUNK ?rest"
  let ?n = "min FILE_CHUNK (length (f_bytes s) - k)"
  let ?short = "length (f_bytes s) - k < FILE_CHUNK"
  let ?s = "s\<lparr>f_pos := int (k + ?n), f_eof := ?short, f_fail := ?short\<rparr>"
  note read = stream_read_good [OF less.prems(1-3), of FILE_CHUNK]
  have step: "sendFile_loop c s w = (if ?got = [] then sendFile_loop c ?s w
      else if fst (sendData c ?got w) = Ret () then sendFile_loop c ?s (snd (sendData c ?got w))
      else Some (sendData c ?got w))"
    using less.prems(1) by (simp only: sendFile_loop.simps [of c s w] read fst_conv snd_conv) simp
  have rest: "sendFile_loop c ?s w' = Some (run_plan c (file_blocks (drop FILE_CHUNK ?rest), Ret ()) w')" for w'
  proof (cases ?short)
    case True
    then show ?thesis by (subst sendFile_loop.simps) (simp add: file_blocks.simps halt_def)
  next
    case False
    then have n: "?n = FILE_CHUNK" "0 < ?n" "k + ?n \<le> length (f_bytes s)" by (auto simp: FILE_CHUNK_def)
    have "sendFile_loop c ?s w' = Some (run_plan c (file_blocks (drop (k + ?n) (f_bytes ?s)), Ret ()) w')"
      using False n by (intro less.hyps) simp_all
    then show ?thesis using n(1) by (simp add: add.commute)
  qed
  show ?case
  proof (cases "?rest = []")
    case True
    then show ?thesis unfolding step rest by (simp add: file_blocks.simps)
  next
    case False
    then have got: "?got \<noteq> []" by (simp add: FILE_CHUNK_def)
    have plan: "run_plan c (file_blocks ?rest, Ret ()) = then_io (sendData c ?got) (run_plan c (file_blocks (drop FILE_CHUNK ?rest), Ret ()))"
      using False by (subst file_blocks.simps) simp
    obtain q w1 where sent: "sendData c ?got w = (q, w1)" by fastforce
    show ?thesis
      unfolding step rest plan using got sent
      by (cases q) (simp_all add: then_io_def bind_io_def)
  qed
qed

lemma sendFile_plan:
  "fs p = Some (Regular data) \<Longrightarrow> sendFile fs c p = run_plan c (file_blocks data, Ret ())"
  using sendFile_loop_plan [of "ifstream_open data" 0 c]
  by (simp add: sendFile_def open_file_def ifstream_open_def fun_eq_iff)

lemma sendFile_stuck:
  assumes "\<nexists>data. fs p = Some (Regular data)"
  shows "sendFile fs c p = halt Blocked"
proof
  fix w
  from assms have "sendFile_loop c (open_file fs p) w = None" by (simp only: sendFile_terminates_iff) simp
  then show "sendFile fs c p w = halt Blocked w" by (simp add: sendFile_def halt_def)
qed

lemma ok_file_run: "then_io (sendOKHeader fs c p) (sendFile fs c p) = run_plan c (ok_file_plan fs p)"
proof (cases "\<exists>data. fs p = Some (Regular data)")
  case True
  then show ?thesis by (auto simp: ok_file_plan_def sendOKHeader_eq sendFile_plan)
next
  case False
  note stuck = sendFile_stuck [of fs p c, OF False]
  have throw: "then_io (halt (Throw Fs_Error)) m = halt (Throw Fs_Error)" for m :: "unit web_io"
    by (simp add: then_io_def bind_io_def halt_def fun_eq_iff)
  have throw': "bind_io (halt (Throw Fs_Error)) m = halt (Throw Fs_Error)" for m :: "nat \<Rightarrow> unit web_io"
    by (simp add: bind_io_def halt_def fun_eq_iff)
  show ?thesis
    using False by (auto simp: ok_file_plan_def sendOKHeader_def path_file_size_def stuck bind_io_ret_left throw throw'
        split: option.split fs_node.split)
qed

lemma sendResponse_plan: "sendResponse fs c resource = run_plan c (reply_plan fs resource)"
proof (cases "resource = []")
  case True
  then show ?thesis by (simp add: sendResponse_def reply_plan_def respondWith400_def then_halt_Ret)
next
  case ne: False
  let ?p = "''WWW'' @ resource"
  have throw: "bind_io (halt (Throw Fs_Error)) m = halt (Throw Fs_Error)" for m :: "string \<Rightarrow> unit web_io"
    by (simp add: bind_io_def halt_def fun_eq_iff)
  show ?thesis
  proof (cases "fs ?p")
    case None
    with ne show ?thesis
      by (simp add: sendResponse_def reply_plan_def path_exists_def respondWith404_def then_halt_Ret)
  next
    case (Some node)
    have run: "sendResponse fs c resource = respondWith200 fs c resource ?p"
      using ne Some by (simp add: sendResponse_def path_exists_def)
    show ?thesis
    proof (cases node)
      case (Directory names)
      show ?thesis
      proof (cases "fs (?p @ ''/index.html'') = None")
        case True
        with ne Some Directory show ?thesis
          by (cases "generateDirectoryHTML fs ?p resource")
            (simp_all add: run reply_plan_def respondWith200_def is_directory_def path_exists_def directory_plan_def
              bind_io_ret_left then_halt_Ret throw)
      next
        case False
        with ne Some Directory ok_file_run [of fs c "?p @ ''/index.html''"] show ?thesis
          by (simp add: run reply_plan_def respondWith200_def is_directory_def path_exists_def)
      qed
    next
      case Special
      with ne Some show ?thesis
        by (simp add: run reply_plan_def respondWith200_def is_directory_def is_regular_file_def ret_def halt_def)
    qed (use ne Some ok_file_run [of fs c ?p] in
        \<open>simp_all add: run reply_plan_def respondWith200_def is_directory_def is_regular_file_def\<close>)
  qed
qed

text \<open>A plan that ends normally is the reply.\<close>

lemma reply_plan_ends:
  "snd (reply_plan fs resource) = Ret () \<longleftrightarrow> http_reply fs resource = Some (concat (fst (reply_plan fs resource)))"
  "http_reply fs resource = None \<longleftrightarrow> snd (reply_plan fs resource) \<noteq> Ret ()"
  by (auto simp: reply_plan_def http_reply_def ok_file_plan_def directory_plan_def file_reply_def text_bytes_append
      split: option.splits fs_node.splits)


section \<open>The steps of a worker\<close>

text \<open>
  The locals of a call of \<open>handleClient\<close>: the client, what \<open>receiveData\<close> gave, what is still to be sent
  (the piece that \<open>sendData\<close> is at is the first one, without the bytes that were taken over), and how
  the call ends.
\<close>

record job =
  job_client :: ClientSocket
  job_request :: bytes
  todo :: "bytes list"
  ending :: "(web_exn, unit) outcome"

definition job_start :: "web_fs \<Rightarrow> ClientSocket \<Rightarrow> bytes option \<Rightarrow> job web_io" where
  "job_start fs client received =
     bind_io (receiveData client received 2048) (\<lambda>request.
       let plan = reply_plan fs (parseRequest (bytes_text request))
       in ret \<lparr>job_client = client, job_request = request, todo = fst plan, ending = snd plan\<rparr>)"

text \<open>One step: a call of \<open>send\<close>, the return from \<open>sendData\<close>, or the end with the close of the socket.\<close>

definition job_step :: "job \<Rightarrow> job option web_io" where
  "job_step j = (case todo j of
      [] \<Rightarrow> then_io (halt (ending j)) (then_io (client_close (job_client j)) (ret None))
    | [] # ds \<Rightarrow> ret (Some (j\<lparr>todo := ds\<rparr>))
    | d # ds \<Rightarrow> bind_io (write_sys (socket_fd (job_client j)) d) (\<lambda>n.
        if n = - 1 then halt (Throw System_Error) else ret (Some (j\<lparr>todo := drop (nat n) d # ds\<rparr>))))"

lemma job_step_measure:
  "job_step j w = (Ret (Some j'), w') \<Longrightarrow>
     length (write_script w') < length (write_script w) \<or>
     write_script w' = write_script w \<and> length (todo j') < length (todo j)"
  by (auto simp: job_step_def write_sys_def Let_def then_io_def bind_io_def halt_def ret_def
      split: list.splits write_result.splits outcome.splits if_splits prod.splits)

function run_job :: "job \<Rightarrow> web \<Rightarrow> (web_exn, unit) outcome \<times> web" where
  "run_job j w = (case job_step j w of
      (Ret None, w') \<Rightarrow> (Ret (), w')
    | (Ret (Some j'), w') \<Rightarrow> run_job j' w'
    | (q, w') \<Rightarrow> (pass q, w'))"
  by pat_completeness auto
termination
  by (relation "measures [\<lambda>(j, w). length (write_script w), \<lambda>(j, w). length (todo j)]")
    (auto dest: job_step_measure [OF sym])

declare run_job.simps [simp del]

lemma sendData_from_drop: "k \<le> length data \<Longrightarrow> sendData_from c data k w = sendData_from c (drop k data) 0 w"
proof (induction "length (write_script w)" arbitrary: data k w rule: less_induct)
  case less
  show ?case
  proof (cases "k < length data \<and> (\<exists>m scr. write_script w = Wrote m # scr)")
    case False
    then show ?thesis
      using less.prems by (auto simp: sendData_from.simps [of c data k] sendData_from.simps [of c "drop k data" 0]
          write_sys_def split: list.splits write_result.splits)
  next
    case True
    then obtain m scr where scr: "write_script w = Wrote m # scr" by blast
    from True have "drop k data \<noteq> []" by simp
    from write_sys_Wrote [OF this scr] obtain n where n: "0 < n" "n \<le> length (drop k data)"
      "write_sys (socket_fd c) (drop k data) w = (Ret (int n),
         w\<lparr>write_script := scr, out := (out w)(socket_fd c := out w (socket_fd c) @ take n (drop k data))\<rparr>)" by blast
    let ?w = "w\<lparr>write_script := scr, out := (out w)(socket_fd c := out w (socket_fd c) @ take n (drop k data))\<rparr>"
    have "sendData_from c data k w = sendData_from c data (k + n) ?w"
      using True n(1,3) by (simp add: sendData_from.simps [of c data k])
    also have "\<dots> = sendData_from c (drop (k + n) data) 0 ?w"
      using n(2) True scr by (intro less.hyps) simp_all
    also have "\<dots> = sendData_from c (drop k data) n ?w"
      using n(2) scr by (subst less.hyps [of ?w n "drop k data"]) (simp_all add: add.commute)
    also have "\<dots> = sendData_from c (drop k data) 0 w"
      using True n(1,3) by (simp add: sendData_from.simps [of c "drop k data" 0])
    finally show ?thesis .
  qed
qed

lemma sendData_step:
  assumes "d \<noteq> []"
  shows "sendData c d = bind_io (write_sys (socket_fd c) d) (\<lambda>n.
    if n = - 1 then halt (Throw System_Error) else sendData c (drop (nat n) d))"
proof
  fix w
  obtain q w' where sys: "write_sys (socket_fd c) d w = (q, w')" by fastforce
  have start: "sendData c d w = (case write_sys (socket_fd c) d w of
      (Ret n, w') \<Rightarrow> if n = - 1 then (Throw System_Error, w') else sendData_from c d (0 + nat n) w'
    | (q, w') \<Rightarrow> (pass q, w'))"
    using assms by (simp add: sendData_def sendData_from.simps [of c d 0])
  show "sendData c d w = bind_io (write_sys (socket_fd c) d) (\<lambda>n.
      if n = - 1 then halt (Throw System_Error) else sendData c (drop (nat n) d)) w"
  proof (cases q)
    case (Ret n)
    show ?thesis
    proof (cases "n = - 1")
      case False
      with sys Ret assms have "nat n \<le> length d"
        by (auto simp: write_sys_def Let_def Suc_le_eq split: list.splits write_result.splits)
      with sys Ret False show ?thesis
        unfolding start by (simp add: bind_io_def sendData_def sendData_from_drop [of "nat n" d])
    qed (use sys Ret in \<open>simp add: start bind_io_def halt_def\<close>)
  qed (use sys in \<open>simp_all add: start bind_io_def\<close>)
qed

lemma run_job_plan:
  "run_job j w = then_io (run_plan (job_client j) (todo j, ending j)) (client_close (job_client j)) w"
proof (induction j w rule: run_job.induct)
  case (1 j w)
  let ?c = "job_client j"
  show ?case
  proof (cases "todo j")
    case Nil
    then show ?thesis
      by (cases "ending j") (simp_all add: run_job.simps [of j] job_step_def then_io_def bind_io_def halt_def ret_def
          client_close_def upd_def)
  next
    case (Cons d ds)
    show ?thesis
    proof (cases "d = []")
      case True
      with Cons have step: "job_step j w = (Ret (Some (j\<lparr>todo := ds\<rparr>)), w)" by (simp add: job_step_def ret_def)
      from 1 [OF step [symmetric] refl refl] step Cons True show ?thesis
        by (simp add: run_job.simps [of j] then_io_def bind_io_ret_left)
    next
      case False
      let ?next = "\<lambda>n. if n = - 1 then halt (Throw System_Error) else ret (Some (j\<lparr>todo := drop (nat n) d # ds\<rparr>))"
      have step: "job_step j w = bind_io (write_sys (socket_fd ?c) d) ?next w"
        using Cons False by (cases d) (auto simp: job_step_def)
      have plan: "then_io (run_plan ?c (todo j, ending j)) (client_close ?c) =
          bind_io (write_sys (socket_fd ?c) d) (\<lambda>n. then_io (then_io
            (if n = - 1 then halt (Throw System_Error) else sendData ?c (drop (nat n) d))
            (run_plan ?c (ds, ending j))) (client_close ?c))"
        unfolding Cons run_plan_simps by (subst sendData_step [OF False]) (simp add: then_io_def bind_io_assoc)
      obtain q w' where sys: "write_sys (socket_fd ?c) d w = (q, w')" by fastforce
      show ?thesis
      proof (cases "\<exists>n. q = Ret n \<and> n \<noteq> - 1")
        case True
        then obtain n where n: "q = Ret n" "n \<noteq> - 1" by blast
        with step sys have step': "job_step j w = (Ret (Some (j\<lparr>todo := drop (nat n) d # ds\<rparr>)), w')"
          by (simp add: bind_io_def ret_def)
        from 1 [OF step' [symmetric] refl refl] step' sys n show ?thesis
          unfolding plan by (simp add: run_job.simps [of j w] bind_io_def)
      next
        case False
        then show ?thesis
          unfolding plan using step sys
          by (cases q) (auto simp: run_job.simps [of j w] bind_io_def then_io_def halt_def)
      qed
    qed
  qed
qed

text \<open>C35: The steps of a worker are what \<open>handleClient\<close> does: receiving the request, then running the
  steps of its job one after the other, has the same result and the same effects, errors included.\<close>

theorem handleClient_steps:
  "handleClient fs c received = bind_io (job_start fs c received) run_job"
proof -
  have "run_job \<lparr>job_client = c, job_request = request, todo = fst plan, ending = snd plan\<rparr> =
      then_io (run_plan c plan) (client_close c)" for request plan
    by (simp add: run_job_plan fun_eq_iff)
  then show ?thesis
    by (simp add: handleClient_def job_start_def bind_io_assoc bind_io_ret_left sendResponse_plan Let_def)
qed

end
