(* ===== verification/Torero_Threads.thy ===== *)
theory Torero_Threads
  imports Torero_Jobs
begin

text \<open>
  The whole web server of project 2: the accepting thread, the buffer and the workers, whose jobs interleave.
  What a client gets is the reply to its request, whatever the order of the steps; the buffer sees
  the steps of its own theory; and what requests for a file that cannot be read do to the server.
\<close>

section \<open>The server\<close>

text \<open>
  The state of the process: the pool of the accepting thread and the workers, the job of each worker
  that has received its request, and the sockets. \<open>served\<close> lists the requests whose handling has ended.
  A step is one of: a client is accepted, on a descriptor that was not open; a step of the buffer; a
  worker receives the request of the client it took; a worker makes a step of its job, with any
  result of \<open>send\<close>; a worker ends its job. A step that ends the process has no successor.
\<close>

record web_server =
  web_pool :: "ClientSocket pool"
  jobs :: "nat \<Rightarrow> job option"
  world :: web
  served :: "(ClientSocket \<times> bytes) list"

definition web_start :: "web \<Rightarrow> web_server" where
  "web_start w = \<lparr>web_pool = torero_pool, jobs = Map.empty, world = w, served = []\<rparr>"

inductive web_step :: "web_fs \<Rightarrow> ServerSocket \<Rightarrow> bool \<Rightarrow> web_server \<Rightarrow> web_server \<Rightarrow> bool" for fs server spurious where
  accept_client: "producer (web_pool s) = Accepting \<Longrightarrow> fd \<notin> open_sockets (world s) \<Longrightarrow>
    acceptConnection server fd (world s) = (Ret c, w) \<Longrightarrow>
    web_step fs server spurious s (s\<lparr>web_pool := (web_pool s)\<lparr>producer := Putting c, accepted := accepted (web_pool s) @ [c]\<rparr>,
      world := w\<rparr>)"
| buffer_step: "pool_step spurious (web_pool s) p \<Longrightarrow> accepted p = accepted (web_pool s) \<Longrightarrow>
    (\<forall>i c. i < length (workers (web_pool s)) \<longrightarrow> workers (web_pool s) ! i = Handling c \<longrightarrow> workers p ! i = Handling c) \<Longrightarrow>
    web_step fs server spurious s (s\<lparr>web_pool := p\<rparr>)"
| receive: "i < length (workers (web_pool s)) \<Longrightarrow> workers (web_pool s) ! i = Handling c \<Longrightarrow> jobs s i = None \<Longrightarrow>
    job_start fs c received (world s) = (Ret j, w) \<Longrightarrow>
    web_step fs server spurious s (s\<lparr>jobs := (jobs s)(i \<mapsto> j), world := w\<rparr>)"
| work: "jobs s i = Some j \<Longrightarrow> job_step j ((world s)\<lparr>write_script := [r]\<rparr>) = (Ret (Some j'), w) \<Longrightarrow>
    web_step fs server spurious s (s\<lparr>jobs := (jobs s)(i \<mapsto> j'), world := w\<rparr>)"
| finish: "jobs s i = Some j \<Longrightarrow> job_step j ((world s)\<lparr>write_script := [r]\<rparr>) = (Ret None, w) \<Longrightarrow>
    web_step fs server spurious s (s\<lparr>web_pool := (web_pool s)\<lparr>workers := (workers (web_pool s))[i := Getting]\<rparr>,
      jobs := (jobs s)(i := None), world := w, served := served s @ [(job_client j, job_request j)]\<rparr>)"

inductive_cases web_stepE: "web_step fs server spurious s t"

section \<open>Each connection belongs to one thread\<close>

fun handling :: "'a worker \<Rightarrow> 'a list" where
  "handling (Handling x) = [x]"
| "handling w = []"

definition on_fd :: "int \<Rightarrow> ClientSocket list \<Rightarrow> nat" where
  "on_fd fd cs = length (filter (\<lambda>c. socket_fd c = fd) cs)"

definition held :: "int \<Rightarrow> ClientSocket pool \<Rightarrow> nat" where
  "held fd p = on_fd fd (concat (map handling (workers p))) + on_fd fd (buffer (shared p)) + on_fd fd (pending (producer p))"

lemma on_fd_simps [simp]:
  "on_fd fd [] = 0" "on_fd fd (c # cs) = (if socket_fd c = fd then 1 else 0) + on_fd fd cs"
  "on_fd fd (as @ bs) = on_fd fd as + on_fd fd bs"
  by (simp_all add: on_fd_def)

lemma on_fd_update:
  "i < length ws \<Longrightarrow> on_fd fd (concat (map handling (ws[i := w]))) + on_fd fd (handling (ws ! i)) =
     on_fd fd (concat (map handling ws)) + on_fd fd (handling w)"
proof (induction ws arbitrary: i)
  case (Cons v ws)
  then show ?case by (cases i) auto
qed simp

lemma on_fd_wakes: "wakes ws ws' \<Longrightarrow> on_fd fd (concat (map handling ws')) = on_fd fd (concat (map handling ws))"
  using on_fd_update [of _ ws fd Getting] by (force simp: wakes_def split: if_splits)

lemma handler_held:
  "i < length (workers p) \<Longrightarrow> workers p ! i = Handling c \<Longrightarrow> 0 < held (socket_fd c) p"
  using on_fd_update [of i "workers p" "socket_fd c" Getting] by (simp add: held_def)

lemma two_handlers:
  assumes "i < length (workers p)" and "k < length (workers p)" and "i \<noteq> k"
    and "workers p ! i = Handling c" and "workers p ! k = Handling d" and "socket_fd c = socket_fd d"
  shows "1 < held (socket_fd c) p"
  using on_fd_update [OF assms(1), of "socket_fd c" Getting] assms
    on_fd_update [of k "(workers p)[i := Getting]" "socket_fd c" Getting] by (simp add: held_def)

lemma held_buffer_step:
  assumes "pool_step spurious p q" and "accepted q = accepted p"
    and "\<forall>i c. i < length (workers p) \<longrightarrow> workers p ! i = Handling c \<longrightarrow> workers q ! i = Handling c"
  shows "held fd q = held fd p"
  using assms(1)
proof cases
  case (put x b ws)
  then have "buffer b = buffer (shared p) @ [x]" by (auto simp: putItem_def split: if_splits)
  with put show ?thesis by (simp add: held_def pending_def on_fd_wakes)
next
  case (get i x b)
  then have "buffer (shared p) = x # buffer b" by (auto simp: getItem_def split: list.splits)
  with get on_fd_update [OF get(2), of fd "Handling x"] show ?thesis by (simp add: held_def)
next
  case (get_sleep i)
  with on_fd_update [OF get_sleep(2), of fd Get_Asleep] show ?thesis by (simp add: held_def)
next
  case (get_wake i)
  with on_fd_update [OF get_wake(3), of fd Getting] show ?thesis by (simp add: held_def)
qed (use assms(2,3) in \<open>auto simp: held_def pending_def\<close>)

section \<open>The invariant\<close>

definition request_plan :: "web_fs \<Rightarrow> bytes \<Rightarrow> plan" where
  "request_plan fs request = reply_plan fs (parseRequest (bytes_text request))"

definition sent_before :: "web_fs \<Rightarrow> int \<Rightarrow> (ClientSocket \<times> bytes) list \<Rightarrow> bytes" where
  "sent_before fs fd past = concat (map (\<lambda>(c, request). concat (fst (request_plan fs request)))
     (filter (\<lambda>(c, request). socket_fd c = fd) past))"

definition job_ok :: "web_fs \<Rightarrow> web_server \<Rightarrow> nat \<Rightarrow> job \<Rightarrow> bool" where
  "job_ok fs s i j \<longleftrightarrow> i < length (workers (web_pool s)) \<and> workers (web_pool s) ! i = Handling (job_client j)
     \<and> ending j = snd (request_plan fs (job_request j))
     \<and> (\<exists>part. out (world s) (socket_fd (job_client j)) = sent_before fs (socket_fd (job_client j)) (served s) @ part
          \<and> part @ concat (todo j) = concat (fst (request_plan fs (job_request j))))"

definition web_ok :: "web_fs \<Rightarrow> web_server \<Rightarrow> bool" where
  "web_ok fs s \<longleftrightarrow>
     (\<forall>fd. held fd (web_pool s) \<le> (if fd \<in> open_sockets (world s) then 1 else 0))
     \<and> (\<forall>i j. jobs s i = Some j \<longrightarrow> job_ok fs s i j)
     \<and> (\<forall>fd. (\<forall>i j. jobs s i = Some j \<longrightarrow> socket_fd (job_client j) \<noteq> fd) \<longrightarrow>
          out (world s) fd = sent_before fs fd (served s))
     \<and> (\<forall>(c, request)\<in>set (served s). snd (request_plan fs request) = Ret ())"

lemma sent_before_append [simp]:
  "sent_before fs fd (past @ [(c, request)]) =
     sent_before fs fd past @ (if socket_fd c = fd then concat (fst (request_plan fs request)) else [])"
  by (simp add: sent_before_def)

lemma web_okD:
  assumes "web_ok fs s"
  shows "held fd (web_pool s) \<le> 1" and "fd \<notin> open_sockets (world s) \<Longrightarrow> held fd (web_pool s) = 0"
    and "jobs s i = Some j \<Longrightarrow> job_ok fs s i j"
  using assms unfolding web_ok_def by (auto split: if_splits)

lemma web_ok_idle:
  "web_ok fs s \<Longrightarrow> (\<And>i j. jobs s i = Some j \<Longrightarrow> socket_fd (job_client j) \<noteq> fd) \<Longrightarrow>
     out (world s) fd = sent_before fs fd (served s)"
  by (simp add: web_ok_def)

lemma job_okD:
  assumes "job_ok fs s i j"
  shows "i < length (workers (web_pool s))" and "workers (web_pool s) ! i = Handling (job_client j)"
  using assms by (simp_all add: job_ok_def)

lemma one_handler:
  assumes "web_ok fs s" and "i < length (workers (web_pool s))" and "workers (web_pool s) ! i = Handling c"
    and "jobs s k = Some l" and "i \<noteq> k"
  shows "socket_fd (job_client l) \<noteq> socket_fd c"
proof
  assume same: "socket_fd (job_client l) = socket_fd c"
  note l = job_okD [OF web_okD(3) [OF assms(1,4)]]
  from two_handlers [OF assms(2) l(1) assms(5,3) l(2) same [symmetric]] web_okD(1) [OF assms(1), of "socket_fd c"]
  show False by simp
qed

lemma one_job:
  assumes "web_ok fs s" and "jobs s i = Some j" and "jobs s k = Some l" and "i \<noteq> k"
  shows "socket_fd (job_client l) \<noteq> socket_fd (job_client j)"
  using one_handler [OF assms(1) job_okD [OF web_okD(3) [OF assms(1,2)]] assms(3,4)] .

lemma job_step_work:
  assumes "job_step j w = (Ret (Some j'), w')"
  shows "\<exists>sent. j' = j\<lparr>todo := todo j'\<rparr> \<and> open_sockets w' = open_sockets w \<and> sent @ concat (todo j') = concat (todo j)
    \<and> out w' = (out w)(socket_fd (job_client j) := out w (socket_fd (job_client j)) @ sent)"
proof (cases "todo j = [] \<or> hd (todo j) = []")
  case True
  with assms show ?thesis
    by (intro exI [of _ "[]"]) (cases "todo j"; auto simp: job_step_def then_io_def bind_io_def halt_def ret_def client_close_def
        upd_def split: outcome.splits prod.splits)
next
  case False
  then obtain d ds where j: "todo j = d # ds" "d \<noteq> []" by (cases "todo j") auto
  with assms obtain n where n: "write_sys (socket_fd (job_client j)) d w = (Ret n, w')" "n \<noteq> - 1" "j' = j\<lparr>todo := drop (nat n) d # ds\<rparr>"
    by (cases d) (auto simp: job_step_def ret_def halt_def elim!: bind_io_RetE split: if_splits)
  then have "open_sockets w' = open_sockets w \<and>
      out w' = (out w)(socket_fd (job_client j) := out w (socket_fd (job_client j)) @ take (nat n) d)"
    by (auto simp: write_sys_def Let_def split: list.splits write_result.splits)
  with n(3) j(1) show ?thesis by (intro exI [of _ "take (nat n) d"]) simp
qed

lemma job_step_finish:
  assumes "job_step j w = (Ret None, w')"
  shows "todo j = [] \<and> ending j = Ret () \<and> out w' = out w \<and> open_sockets w' = open_sockets w - {socket_fd (job_client j)}"
proof (cases "todo j")
  case Nil
  with assms show ?thesis
    by (cases "ending j") (auto simp: job_step_def then_io_def bind_io_def halt_def ret_def client_close_def upd_def)
next
  case (Cons d ds)
  with assms show ?thesis
    by (cases d) (auto simp: job_step_def ret_def halt_def elim!: bind_io_RetE split: if_splits)
qed

lemma job_ok_keeps:
  assumes "job_ok fs s i j" and "length (workers (web_pool t)) = length (workers (web_pool s))"
    and "workers (web_pool t) ! i = workers (web_pool s) ! i"
    and "out (world t) (socket_fd (job_client j)) = out (world s) (socket_fd (job_client j))"
    and "sent_before fs (socket_fd (job_client j)) (served t) = sent_before fs (socket_fd (job_client j)) (served s)"
  shows "job_ok fs t i j"
  using assms by (simp add: job_ok_def)


lemma web_okI:
  assumes "\<And>fd. held fd (web_pool s) \<le> (if fd \<in> open_sockets (world s) then 1 else 0)"
    and "\<And>i j. jobs s i = Some j \<Longrightarrow> job_ok fs s i j"
    and "\<And>fd. (\<And>i j. jobs s i = Some j \<Longrightarrow> socket_fd (job_client j) \<noteq> fd) \<Longrightarrow> out (world s) fd = sent_before fs fd (served s)"
    and "\<And>c request. (c, request) \<in> set (served s) \<Longrightarrow> snd (request_plan fs request) = Ret ()"
  shows "web_ok fs s"
  using assms unfolding web_ok_def by blast

lemma web_ok_served: "web_ok fs s \<Longrightarrow> (c, request) \<in> set (served s) \<Longrightarrow> snd (request_plan fs request) = Ret ()"
  unfolding web_ok_def by blast

lemma web_ok_held: "web_ok fs s \<Longrightarrow> held fd (web_pool s) \<le> (if fd \<in> open_sockets (world s) then 1 else 0)"
  unfolding web_ok_def by blast

lemma accept_keeps:
  assumes "web_ok fs s" and "producer (web_pool s) = Accepting" and "fd \<notin> open_sockets (world s)"
    and "acceptConnection server fd (world s) = (Ret c, w)"
  shows "web_ok fs (s\<lparr>web_pool := (web_pool s)\<lparr>producer := Putting c, accepted := accepted (web_pool s) @ [c]\<rparr>, world := w\<rparr>)"
proof -
  from assms(4) have c: "socket_fd c = fd" "out w = out (world s)" "open_sockets w = insert fd (open_sockets (world s))"
    by (auto simp: acceptConnection_def then_io_def bind_io_def upd_def ret_def halt_def ClientSocket_new_def split: if_splits)
  show ?thesis
  proof (rule web_okI, goal_cases)
    case (1 x)
    with web_ok_held [OF assms(1), of x] assms(2,3) c show ?case by (auto simp: held_def pending_def split: if_splits)
  next
    case (2 i j)
    then have "job_ok fs s i j" using web_okD(3) [OF assms(1)] by simp
    then show ?case by (rule job_ok_keeps) (simp_all add: c)
  next
    case (3 x)
    with web_ok_idle [OF assms(1), of x] c show ?case by simp
  next
    case (4 d request)
    with web_ok_served [OF assms(1)] show ?case by simp
  qed
qed

lemma buffer_keeps:
  assumes "web_ok fs s" and "pool_step spurious (web_pool s) p" and "accepted p = accepted (web_pool s)"
    and "\<forall>i c. i < length (workers (web_pool s)) \<longrightarrow> workers (web_pool s) ! i = Handling c \<longrightarrow> workers p ! i = Handling c"
  shows "web_ok fs (s\<lparr>web_pool := p\<rparr>)"
proof -
  have len: "length (workers p) = length (workers (web_pool s))"
    using pool_size.inv_step [OF assms(2), of "capacity (shared (web_pool s))" "length (workers (web_pool s))"] by simp
  show ?thesis
  proof (rule web_okI, goal_cases)
    case (1 x)
    with web_ok_held [OF assms(1), of x] held_buffer_step [OF assms(2-4)] show ?case by simp
  next
    case (2 i j)
    then have ok: "job_ok fs s i j" using web_okD(3) [OF assms(1)] by simp
    then show ?case by (rule job_ok_keeps) (use assms(4) job_okD [OF ok] len in simp_all)
  next
    case (3 x)
    with web_ok_idle [OF assms(1), of x] show ?case by simp
  next
    case (4 d request)
    with web_ok_served [OF assms(1)] show ?case by simp
  qed
qed

lemma receive_keeps:
  assumes "web_ok fs s" and "i < length (workers (web_pool s))" and "workers (web_pool s) ! i = Handling c" and "jobs s i = None"
    and "job_start fs c received (world s) = (Ret j, w)"
  shows "web_ok fs (s\<lparr>jobs := (jobs s)(i \<mapsto> j), world := w\<rparr>)"
proof -
  from assms(5) have j: "w = world s" "job_client j = c" "todo j = fst (request_plan fs (job_request j))"
    "ending j = snd (request_plan fs (job_request j))"
    by (auto simp: job_start_def receiveData_def Let_def ret_def halt_def request_plan_def elim!: bind_io_RetE split: option.splits)
  have "out (world s) (socket_fd c) = sent_before fs (socket_fd c) (served s)"
  proof (rule web_ok_idle [OF assms(1)])
    fix k l
    assume k: "jobs s k = Some l"
    with assms(4) have "i \<noteq> k" by auto
    with one_handler [OF assms(1-3) k] show "socket_fd (job_client l) \<noteq> socket_fd c" .
  qed
  then have new: "job_ok fs (s\<lparr>jobs := (jobs s)(i \<mapsto> j), world := w\<rparr>) i j"
    using assms(2,3) j by (simp add: job_ok_def)
  show ?thesis
  proof (rule web_okI, goal_cases)
    case (1 x)
    with web_ok_held [OF assms(1), of x] j(1) show ?case by simp
  next
    case (2 k l)
    show ?case
    proof (cases "k = i")
      case True
      with 2 new show ?thesis by simp
    next
      case False
      with 2 have "job_ok fs s k l" using web_okD(3) [OF assms(1)] by simp
      then show ?thesis by (rule job_ok_keeps) (simp_all add: j(1))
    qed
  next
    case (3 x)
    have "socket_fd (job_client l) \<noteq> x" if "jobs s k = Some l" for k l
      using 3 [of k l] that assms(4) by (cases "k = i") auto
    with web_ok_idle [OF assms(1), of x] j(1) show ?case by simp
  next
    case (4 d request)
    with web_ok_served [OF assms(1)] show ?case by simp
  qed
qed

lemma work_keeps:
  assumes "web_ok fs s" and "jobs s i = Some j" and "job_step j ((world s)\<lparr>write_script := [r]\<rparr>) = (Ret (Some j'), w)"
  shows "web_ok fs (s\<lparr>jobs := (jobs s)(i \<mapsto> j'), world := w\<rparr>)"
proof -
  let ?fd = "socket_fd (job_client j)"
  from job_step_work [OF assms(3)] obtain sent where sent: "j' = j\<lparr>todo := todo j'\<rparr>" "open_sockets w = open_sockets (world s)"
    "sent @ concat (todo j') = concat (todo j)" "out w = (out (world s))(?fd := out (world s) ?fd @ sent)" by auto
  have j': "job_client j' = job_client j" "job_request j' = job_request j" "ending j' = ending j"
    by (subst sent(1), simp)+
  note ok = web_okD(3) [OF assms(1,2)]
  from ok obtain part where part: "out (world s) ?fd = sent_before fs ?fd (served s) @ part"
    "part @ concat (todo j) = concat (fst (request_plan fs (job_request j)))" by (auto simp: job_ok_def)
  have "out w ?fd = sent_before fs ?fd (served s) @ part @ sent"
    "(part @ sent) @ concat (todo j') = concat (fst (request_plan fs (job_request j)))"
    using sent part by simp_all
  with ok j' have new: "job_ok fs (s\<lparr>jobs := (jobs s)(i \<mapsto> j'), world := w\<rparr>) i j'"
    by (auto simp: job_ok_def)
  show ?thesis
  proof (rule web_okI, goal_cases)
    case (1 x)
    with web_ok_held [OF assms(1), of x] sent(2) show ?case by simp
  next
    case (2 k l)
    show ?case
    proof (cases "k = i")
      case True
      with 2 new show ?thesis by simp
    next
      case False
      with 2 have l: "jobs s k = Some l" by simp
      from False have "i \<noteq> k" by simp
      note other = one_job [OF assms(1,2) l this]
      show ?thesis by (rule job_ok_keeps [OF web_okD(3) [OF assms(1) l]]) (use other sent(4) in simp_all)
    qed
  next
    case (3 x)
    have "socket_fd (job_client l) \<noteq> x" if "jobs s k = Some l" for k l
      using 3 [of k l] 3 [of i j'] that assms(2) j'(1) by (cases "k = i") auto
    with web_ok_idle [OF assms(1), of x] sent(4) assms(2) show ?case by auto
  next
    case (4 d request)
    with web_ok_served [OF assms(1)] show ?case by simp
  qed
qed


lemma finish_keeps:
  assumes "web_ok fs s" and "jobs s i = Some j" and "job_step j ((world s)\<lparr>write_script := [r]\<rparr>) = (Ret None, w)"
  shows "web_ok fs (s\<lparr>web_pool := (web_pool s)\<lparr>workers := (workers (web_pool s))[i := Getting]\<rparr>,
      jobs := (jobs s)(i := None), world := w, served := served s @ [(job_client j, job_request j)]\<rparr>)"
proof -
  let ?fd = "socket_fd (job_client j)"
  from job_step_finish [OF assms(3)] have over: "todo j = []" "ending j = Ret ()" "out w = out (world s)"
    "open_sockets w = open_sockets (world s) - {?fd}" by auto
  note ok = web_okD(3) [OF assms(1,2)]
  note worker = job_okD [OF ok]
  from ok over have plan: "snd (request_plan fs (job_request j)) = Ret ()"
    "out (world s) ?fd = sent_before fs ?fd (served s) @ concat (fst (request_plan fs (job_request j)))"
    by (auto simp: job_ok_def)
  show ?thesis
  proof (rule web_okI, goal_cases)
    case (1 x)
    have "held x ((web_pool s)\<lparr>workers := (workers (web_pool s))[i := Getting]\<rparr>) + (if ?fd = x then 1 else 0) = held x (web_pool s)"
      using on_fd_update [OF worker(1), of x Getting] worker(2) by (simp add: held_def)
    with web_ok_held [OF assms(1), of x] over(4) show ?case by (auto split: if_splits)
  next
    case (2 k l)
    then have l: "jobs s k = Some l" "i \<noteq> k" by (auto split: if_splits)
    note other = one_job [OF assms(1,2) l]
    show ?case by (rule job_ok_keeps [OF web_okD(3) [OF assms(1) l(1)]]) (use other l(2) over(3) in simp_all)
  next
    case (3 x)
    show ?case
    proof (cases "?fd = x")
      case True
      with plan(2) over(3) show ?thesis by simp
    next
      case False
      have "socket_fd (job_client l) \<noteq> x" if "jobs s k = Some l" for k l
        using 3 [of k l] that assms(2) False by (cases "k = i") auto
      with web_ok_idle [OF assms(1), of x] False over(3) show ?thesis by simp
    qed
  next
    case (4 d request)
    with web_ok_served [OF assms(1)] plan(1) show ?case by auto
  qed
qed

interpretation web: step_invariant "web_step fs server spurious" "web_ok fs" for fs server spurious
proof
  fix s t
  assume "web_step fs server spurious s t" and ok: "web_ok fs s"
  then show "web_ok fs t"
  proof cases
    case (accept_client fd c w)
    show ?thesis unfolding accept_client(1) by (rule accept_keeps [OF ok accept_client(2-4)])
  next
    case (buffer_step p)
    show ?thesis unfolding buffer_step(1) by (rule buffer_keeps [OF ok buffer_step(2-4)])
  next
    case (receive i c received j w)
    show ?thesis unfolding receive(1) by (rule receive_keeps [OF ok receive(2-5)])
  next
    case (work i j r j' w)
    show ?thesis unfolding work(1) by (rule work_keeps [OF ok work(2,3)])
  next
    case (finish i j r w)
    show ?thesis unfolding finish(1) by (rule finish_keeps [OF ok finish(2,3)])
  qed
qed

lemma web_start_ok:
  assumes "out w = (\<lambda>_. [])"
  shows "web_ok fs (web_start w)"
  using assms by (auto simp: web_ok_def web_start_def torero_pool_def pool_new_def held_def pending_def sent_before_def
      BoundedBuffer_new_def numeral_eq_Suc)

text \<open>C30: While the workers send at the same time and connections reuse descriptors, no byte goes to
  the wrong client: on every descriptor the server has sent the complete replies to the requests that
  were handled on it, in their order, and then, if a worker is handling one, a part of the reply to it;
  no two workers handle clients on the same descriptor.\<close>

theorem each_client_own_reply:
  assumes "(web_step fs server spurious)\<^sup>*\<^sup>* (web_start w) s" and "out w = (\<lambda>_. [])"
  shows "\<exists>replies. map (\<lambda>(c, request). http_reply fs (parseRequest (bytes_text request)))
        (filter (\<lambda>(c, request). socket_fd c = fd) (served s)) = map Some replies
    \<and> ((\<forall>i j. jobs s i = Some j \<longrightarrow> socket_fd (job_client j) \<noteq> fd) \<longrightarrow> out (world s) fd = concat replies)
    \<and> (\<forall>i j. jobs s i = Some j \<and> socket_fd (job_client j) = fd \<longrightarrow>
        (\<exists>part. out (world s) fd = concat replies @ part
           \<and> (\<forall>reply. http_reply fs (parseRequest (bytes_text (job_request j))) = Some reply \<longrightarrow> prefix part reply))
      \<and> (\<forall>k l. jobs s k = Some l \<and> socket_fd (job_client l) = fd \<longrightarrow> k = i))"
proof -
  note ok = web.inv_steps [OF assms(1) web_start_ok [OF assms(2)]]
  let ?served = "filter (\<lambda>(c, request). socket_fd c = fd) (served s)"
  let ?replies = "map (\<lambda>(c, request). concat (fst (request_plan fs request))) ?served"
  have "map (\<lambda>(c, request). http_reply fs (parseRequest (bytes_text request))) ?served = map Some ?replies"
    using web_ok_served [OF ok] reply_plan_ends(1) by (auto simp: request_plan_def)
  moreover have sent: "sent_before fs fd (served s) = concat ?replies" by (simp add: sent_before_def)
  moreover have "\<exists>part. out (world s) fd = concat ?replies @ part
      \<and> (\<forall>reply. http_reply fs (parseRequest (bytes_text (job_request j))) = Some reply \<longrightarrow> prefix part reply)"
    if job: "jobs s i = Some j" "socket_fd (job_client j) = fd" for i j
  proof -
    from web_okD(3) [OF ok job(1)] job(2) sent obtain part where part: "out (world s) fd = concat ?replies @ part"
      "part @ concat (todo j) = concat (fst (request_plan fs (job_request j)))" by (auto simp: job_ok_def)
    have "prefix part reply" if "http_reply fs (parseRequest (bytes_text (job_request j))) = Some reply" for reply
    proof -
      have "reply = concat (fst (request_plan fs (job_request j)))"
        using that reply_plan_ends [of fs "parseRequest (bytes_text (job_request j))"] by (auto simp: request_plan_def)
      then show ?thesis using part(2) by (metis prefixI)
    qed
    with part(1) show ?thesis by blast
  qed
  moreover have "k = i" if "jobs s i = Some j" "socket_fd (job_client j) = fd" "jobs s k = Some l" "socket_fd (job_client l) = fd"
    for i j k l
    using one_job [OF ok that(1,3)] that(2,4) by auto
  moreover have "out (world s) fd = concat ?replies" if "\<forall>i j. jobs s i = Some j \<longrightarrow> socket_fd (job_client j) \<noteq> fd"
    using web_ok_idle [OF ok, of fd] that sent by auto
  ultimately show ?thesis by blast
qed


section \<open>The buffer in the server\<close>

text \<open>What the threads do with the buffer are steps of the pool, so its theorems hold of the server.\<close>

lemma web_pool_step:
  assumes "web_step fs server spurious s t" and "web_ok fs s"
  shows "web_pool t = web_pool s \<or> pool_step spurious (web_pool s) (web_pool t)"
  using assms(1)
proof cases
  case (accept_client fd c w)
  then show ?thesis using pool_step.accept [of "web_pool s" spurious c] by simp
next
  case (finish i j r w)
  note worker = job_okD [OF web_okD(3) [OF assms(2) finish(2)]]
  from finish(1) pool_step.handled [OF worker, of spurious] show ?thesis by simp
qed auto

lemma web_pool_steps:
  assumes "(web_step fs server spurious)\<^sup>*\<^sup>* (web_start w) s" and "out w = (\<lambda>_. [])"
  shows "(pool_step spurious)\<^sup>*\<^sup>* torero_pool (web_pool s)"
  using assms(1)
proof (induction rule: rtranclp_induct)
  case base
  then show ?case by (simp add: web_start_def)
next
  case (step s t)
  from web_pool_step [OF step(2) web.inv_steps [OF step(1) web_start_ok [OF assms(2)]]] step.IH
  show ?case by (auto intro: rtranclp.rtrancl_into_rtrancl)
qed

text \<open>C31: The whole server refines the pool of the buffer, with the jobs cut into calls of \<open>send\<close>: the accepted
  clients are those the workers took, in the order in which they were accepted, then at most five in
  the buffer, then the one being put; and a client in the buffer is not left with all workers asleep.\<close>

theorem server_in_order:
  assumes "(web_step fs server spurious)\<^sup>*\<^sup>* (web_start w) s" and "out w = (\<lambda>_. [])"
  shows "(pool_step spurious)\<^sup>*\<^sup>* torero_pool (web_pool s)
    \<and> accepted (web_pool s) = taken (web_pool s) @ buffer (shared (web_pool s)) @ pending (producer (web_pool s))
    \<and> length (buffer (shared (web_pool s))) \<le> 5
    \<and> (buffer (shared (web_pool s)) \<noteq> [] \<longrightarrow> (\<exists>v\<in>set (workers (web_pool s)). v \<noteq> Get_Asleep))"
proof -
  note run = web_pool_steps [OF assms]
  note pool = run [unfolded torero_pool_def]
  have "buffer (shared (web_pool s)) \<noteq> [] \<longrightarrow> (\<exists>v\<in>set (workers (web_pool s)). v \<noteq> Get_Asleep)"
    using no_lost_wakeup [OF pool] by simp
  with run pool_in_order [OF pool] show ?thesis by simp
qed

end
