(* ===== verification/Torero_Outage.thy ===== *)
theory Torero_Outage
  imports Torero_Threads
begin

text \<open>
  Runs of the whole web server: how a client gets from the accepting thread to a worker and its reply
  out, and how four requests for a file that cannot be read take the four workers out of service.
\<close>

section \<open>A client is taken and answered\<close>

lemma drain_job:
  assumes "jobs s i = Some j"
  shows "\<exists>w. (web_step fs server spurious)\<^sup>*\<^sup>* s (s\<lparr>jobs := (jobs s)(i \<mapsto> j\<lparr>todo := []\<rparr>), world := w\<rparr>)
    \<and> open_sockets w = open_sockets (world s)
    \<and> out w = (out (world s))(socket_fd (job_client j) := out (world s) (socket_fd (job_client j)) @ concat (todo j))"
  using assms
proof (induction "length (concat (todo j)) + length (todo j)" arbitrary: s j rule: less_induct)
  case less
  let ?fd = "socket_fd (job_client j)" and ?w = "(world s)\<lparr>write_script := [Wrote 1]\<rparr>"
  show ?case
  proof (cases "todo j")
    case Nil
    then have same: "j\<lparr>todo := []\<rparr> = j" by simp
    have jobs: "(jobs s)(i \<mapsto> j) = jobs s" using less.prems by auto
    have "s\<lparr>jobs := (jobs s)(i \<mapsto> j\<lparr>todo := []\<rparr>), world := world s\<rparr> = s" unfolding same jobs by simp
    then show ?thesis using Nil by (intro exI [of _ "world s"]) simp
  next
    case (Cons d ds)
    have "\<exists>j' w. job_step j ?w = (Ret (Some j'), w) \<and> job_client j' = job_client j \<and> j'\<lparr>todo := []\<rparr> = j\<lparr>todo := []\<rparr>
      \<and> open_sockets w = open_sockets (world s)
      \<and> (\<exists>sent. out w = (out (world s))(?fd := out (world s) ?fd @ sent) \<and> sent @ concat (todo j') = concat (todo j))
      \<and> length (concat (todo j')) + length (todo j') < length (concat (todo j)) + length (todo j)"
    proof (cases d)
      case Nil
      with Cons show ?thesis
        by (intro exI [of _ "j\<lparr>todo := ds\<rparr>"] exI [of _ ?w]) (auto simp: job_step_def ret_def intro: exI [of _ "[]"])
    next
      case d: (Cons b bs)
      let ?w' = "?w\<lparr>write_script := [], out := (out (world s))(?fd := out (world s) ?fd @ [b])\<rparr>"
      have "write_sys ?fd d ?w = (Ret 1, ?w')" by (simp add: write_sys_def Let_def d)
      then have "job_step j ?w = (Ret (Some (j\<lparr>todo := bs # ds\<rparr>)), ?w')"
        by (simp add: job_step_def Cons d bind_io_def ret_def)
      then show ?thesis
        by (intro exI [of _ "j\<lparr>todo := bs # ds\<rparr>"] exI [of _ ?w']) (auto simp: Cons d)
    qed
    then obtain j' w sent where step: "job_step j ?w = (Ret (Some j'), w)"
      and j': "job_client j' = job_client j" "j'\<lparr>todo := []\<rparr> = j\<lparr>todo := []\<rparr>" "open_sockets w = open_sockets (world s)"
        "out w = (out (world s))(?fd := out (world s) ?fd @ sent)" "sent @ concat (todo j') = concat (todo j)"
      and less_j': "length (concat (todo j')) + length (todo j') < length (concat (todo j)) + length (todo j)" by blast
    let ?s = "s\<lparr>jobs := (jobs s)(i \<mapsto> j'), world := w\<rparr>"
    have one: "web_step fs server spurious s ?s" by (rule web_step.work [OF less.prems step])
    have "jobs ?s i = Some j'" by simp
    from less.hyps [OF less_j' this] obtain w' where
      run: "(web_step fs server spurious)\<^sup>*\<^sup>* ?s (?s\<lparr>jobs := (jobs ?s)(i \<mapsto> j'\<lparr>todo := []\<rparr>), world := w'\<rparr>)"
      and w': "open_sockets w' = open_sockets (world ?s)"
        "out w' = (out (world ?s))(socket_fd (job_client j') := out (world ?s) (socket_fd (job_client j')) @ concat (todo j'))"
      by blast
    have "(web_step fs server spurious)\<^sup>*\<^sup>* s (s\<lparr>jobs := (jobs s)(i \<mapsto> j\<lparr>todo := []\<rparr>), world := w'\<rparr>)"
      using converse_rtranclp_into_rtranclp [OF one run] by (simp add: j'(2))
    moreover have "out w' = (out (world s))(?fd := out (world s) ?fd @ concat (todo j))"
      using w'(2) j'(1,4) by (simp add: j'(5) [symmetric])
    ultimately show ?thesis using w'(1) j'(3) by (intro exI [of _ w']) simp
  qed
qed

lemma client_taken:
  assumes "producer (web_pool s) = Accepting" and "buffer (shared (web_pool s)) = []" and "0 < capacity (shared (web_pool s))"
    and "Get_Asleep \<notin> set (workers (web_pool s))" and "k < length (workers (web_pool s))"
    and "workers (web_pool s) ! k = Getting" and "jobs s k = None"
    and "fd \<notin> open_sockets (world s)" and "0 \<le> fd"
  shows "\<exists>p j w. (web_step fs server spurious)\<^sup>*\<^sup>* s (s\<lparr>web_pool := p, jobs := (jobs s)(k \<mapsto> j), world := w\<rparr>)
    \<and> producer p = Accepting \<and> shared p = shared (web_pool s)
    \<and> workers p = (workers (web_pool s))[k := Handling (ClientSocket_new fd)]
    \<and> job_client j = ClientSocket_new fd \<and> job_request j = take 2048 request \<and> todo j = []
    \<and> ending j = snd (request_plan fs (take 2048 request)) \<and> open_sockets w = insert fd (open_sockets (world s))
    \<and> out w = (out (world s))(fd := out (world s) fd @ concat (fst (request_plan fs (take 2048 request))))"
proof -
  let ?c = "ClientSocket_new fd" and ?p = "web_pool s" and ?w = "(world s)\<lparr>open_sockets := insert fd (open_sockets (world s))\<rparr>"
  let ?plan = "request_plan fs (take 2048 request)"
  let ?p1 = "?p\<lparr>producer := Putting ?c, accepted := accepted ?p @ [?c]\<rparr>"
  let ?p2 = "?p1\<lparr>producer := Accepting, shared := (shared ?p)\<lparr>buffer := [?c]\<rparr>, workers := workers ?p\<rparr>"
  let ?p3 = "?p2\<lparr>shared := shared ?p, workers := (workers ?p)[k := Handling ?c], taken := taken ?p @ [?c]\<rparr>"
  let ?j = "\<lparr>job_client = ?c, job_request = take 2048 request, todo = fst ?plan, ending = snd ?plan\<rparr>"
  let ?s1 = "s\<lparr>web_pool := ?p1, world := ?w\<rparr>"
  let ?s2 = "?s1\<lparr>web_pool := ?p2\<rparr>"
  let ?s3 = "?s2\<lparr>web_pool := ?p3\<rparr>"
  let ?s4 = "?s3\<lparr>jobs := (jobs ?s3)(k \<mapsto> ?j), world := ?w\<rparr>"
  have same: "(shared ?p)\<lparr>buffer := []\<rparr> = shared ?p" using assms(2) by simp
  have 1: "web_step fs server spurious s ?s1"
    using web_step.accept_client [of s fd server ?c ?w] assms(1,8,9)
    by (simp add: acceptConnection_def then_io_def bind_io_def upd_def ret_def)
  have "pool_step spurious ?p1 ?p2"
    by (rule pool_step.put [where x = ?c and b = "(shared ?p)\<lparr>buffer := [?c]\<rparr>"])
      (use assms(2-4) in \<open>simp_all add: putItem_def wakes_def\<close>)
  then have 2: "web_step fs server spurious ?s1 ?s2"
    by (intro web_step.buffer_step) simp_all
  have "pool_step spurious ?p2 ?p3"
    using pool_step.get [of k ?p2 ?c "shared ?p" spurious] assms(5,6) same by (simp add: getItem_def)
  then have 3: "web_step fs server spurious ?s2 ?s3"
    using assms(5,6) by (intro web_step.buffer_step) (auto simp: nth_list_update)
  have "job_start fs ?c (Some request) ?w = (Ret ?j, ?w)"
    by (simp add: job_start_def receiveData_def bind_io_def Let_def ret_def request_plan_def)
  then have 4: "web_step fs server spurious ?s3 ?s4"
    using assms(5,7) by (intro web_step.receive [where c = ?c and received = "Some request"]) simp_all
  have "jobs ?s4 k = Some ?j" by simp
  from drain_job [OF this] obtain w where
    w: "(web_step fs server spurious)\<^sup>*\<^sup>* ?s4 (?s4\<lparr>jobs := (jobs ?s4)(k \<mapsto> ?j\<lparr>todo := []\<rparr>), world := w\<rparr>)"
      "open_sockets w = open_sockets (world ?s4)"
      "out w = (out (world ?s4))(socket_fd (job_client ?j) := out (world ?s4) (socket_fd (job_client ?j)) @ concat (todo ?j))"
    by blast
  from 1 2 3 4 w(1) have "(web_step fs server spurious)\<^sup>*\<^sup>* s (?s4\<lparr>jobs := (jobs ?s4)(k \<mapsto> ?j\<lparr>todo := []\<rparr>), world := w\<rparr>)"
    by (meson converse_rtranclp_into_rtranclp)
  moreover have "?s4\<lparr>jobs := (jobs ?s4)(k \<mapsto> ?j\<lparr>todo := []\<rparr>), world := w\<rparr> =
      s\<lparr>web_pool := ?p3, jobs := (jobs s)(k \<mapsto> ?j\<lparr>todo := []\<rparr>), world := w\<rparr>" by simp
  ultimately show ?thesis
    using w(2,3) assms(1) by (intro exI [of _ ?p3] exI [of _ "?j\<lparr>todo := []\<rparr>"] exI [of _ w]) (simp add: ClientSocket_new_def)
qed


section \<open>Workers that never come back\<close>

definition stuck :: "bytes \<Rightarrow> web_server \<Rightarrow> nat \<Rightarrow> bool" where
  "stuck request s i \<longleftrightarrow> (\<exists>j. jobs s i = Some j \<and> job_request j = request \<and> todo j = [] \<and> ending j = Blocked)"

lemma stuck_job: "jobs s i = Some j \<Longrightarrow> stuck request s i \<Longrightarrow> job_step j w = (Blocked, w)"
  by (auto simp: stuck_def job_step_def then_io_def bind_io_def halt_def)

lemma all_stuck_step:
  assumes "web_step fs server spurious s t" and "web_ok fs s" and "\<forall>i<length (workers (web_pool s)). stuck request s i"
  shows "jobs t = jobs s \<and> out (world t) = out (world s) \<and> served t = served s
    \<and> length (workers (web_pool t)) = length (workers (web_pool s))"
  using assms(1)
proof cases
  case (accept_client fd c w)
  then show ?thesis by (auto simp: acceptConnection_def then_io_def bind_io_def upd_def ret_def halt_def split: if_splits)
next
  case (buffer_step p)
  then show ?thesis
    using pool_size.inv_step [OF buffer_step(2), of "capacity (shared (web_pool s))" "length (workers (web_pool s))"] by simp
next
  case (receive i c received j w)
  with assms(3) show ?thesis by (auto simp: stuck_def)
next
  case (work i j r j' w)
  with assms(3) job_okD(1) [OF web_okD(3) [OF assms(2) work(2)]] stuck_job [OF work(2), of request] show ?thesis by simp
next
  case (finish i j r w)
  with assms(3) job_okD(1) [OF web_okD(3) [OF assms(2) finish(2)]] stuck_job [OF finish(2), of request] show ?thesis by simp
qed

lemma all_stuck_steps:
  assumes "(web_step fs server spurious)\<^sup>*\<^sup>* s t" and "web_ok fs s" and "\<forall>i<length (workers (web_pool s)). stuck request s i"
  shows "jobs t = jobs s \<and> out (world t) = out (world s) \<and> served t = served s
    \<and> length (workers (web_pool t)) = length (workers (web_pool s))"
  using assms(1)
proof (induction rule: rtranclp_induct)
  case (step t u)
  then have "\<forall>i<length (workers (web_pool t)). stuck request t i" using assms(3) by (simp add: stuck_def)
  from all_stuck_step [OF step(2) web.inv_steps [OF step(1) assms(2)] this] step.IH show ?case by simp
qed simp

text \<open>The state with the first \<open>k\<close> workers stuck and the others waiting for a client.\<close>

definition first_stuck :: "bytes \<Rightarrow> nat \<Rightarrow> web_server \<Rightarrow> bool" where
  "first_stuck request k s \<longleftrightarrow>
     producer (web_pool s) = Accepting \<and> buffer (shared (web_pool s)) = [] \<and> 0 < capacity (shared (web_pool s))
     \<and> Get_Asleep \<notin> set (workers (web_pool s)) \<and> length (workers (web_pool s)) = 4 \<and> finite (open_sockets (world s))
     \<and> (\<forall>i<k. stuck request s i)
     \<and> (\<forall>i. k \<le> i \<longrightarrow> i < 4 \<longrightarrow> workers (web_pool s) ! i = Getting \<and> jobs s i = None)"

lemma one_more_stuck:
  assumes "first_stuck (take 2048 request) k s" and "k < 4" and "snd (request_plan fs (take 2048 request)) = Blocked"
  shows "\<exists>t. (web_step fs server spurious)\<^sup>*\<^sup>* s t \<and> first_stuck (take 2048 request) (Suc k) t"
proof -
  have "infinite ({0..} - open_sockets (world s) :: int set)"
    using assms(1) infinite_Ici by (simp add: first_stuck_def Diff_infinite_finite)
  then have "{0..} - open_sockets (world s) \<noteq> {}" by (metis finite.emptyI)
  then obtain fd where fd: "fd \<notin> open_sockets (world s)" "0 \<le> fd" by auto
  from assms(1,2) have s: "producer (web_pool s) = Accepting" "buffer (shared (web_pool s)) = []"
    "0 < capacity (shared (web_pool s))" "Get_Asleep \<notin> set (workers (web_pool s))" "k < length (workers (web_pool s))"
    "workers (web_pool s) ! k = Getting" "jobs s k = None" by (auto simp: first_stuck_def)
  from client_taken [OF s fd, of fs server spurious request] obtain p j w where
    run: "(web_step fs server spurious)\<^sup>*\<^sup>* s (s\<lparr>web_pool := p, jobs := (jobs s)(k \<mapsto> j), world := w\<rparr>)"
    and t: "producer p = Accepting" "shared p = shared (web_pool s)"
      "workers p = (workers (web_pool s))[k := Handling (ClientSocket_new fd)]" "job_request j = take 2048 request"
      "todo j = []" "ending j = snd (request_plan fs (take 2048 request))" "open_sockets w = insert fd (open_sockets (world s))"
    by blast
  have "Get_Asleep \<notin> set (workers p)" using s(4) t(3) asleep_update by fastforce
  moreover have "stuck (take 2048 request) (s\<lparr>web_pool := p, jobs := (jobs s)(k \<mapsto> j), world := w\<rparr>) i" if "i < Suc k" for i
    using that assms(1,3) t by (cases "i = k") (simp_all add: first_stuck_def stuck_def)
  ultimately have "first_stuck (take 2048 request) (Suc k) (s\<lparr>web_pool := p, jobs := (jobs s)(k \<mapsto> j), world := w\<rparr>)"
    using assms(1,2) t by (simp add: first_stuck_def)
  with run show ?thesis by blast
qed

text \<open>C34: Four requests for a file that exists and cannot be opened stop the server: it can
  get to a state in which each worker loops over such a file, and from then on no request is ever
  served and nothing is sent to anyone.\<close>

theorem unreadable_file_stops_server:
  assumes "parseRequest (bytes_text (take 2048 request)) \<noteq> []"
    and "fs (''WWW'' @ parseRequest (bytes_text (take 2048 request))) = Some (Unreadable n)"
    and "out w = (\<lambda>_. [])" and "finite (open_sockets w)"
  shows "\<exists>s. (web_step fs server spurious)\<^sup>*\<^sup>* (web_start w) s
    \<and> (\<forall>i<4. \<exists>j. jobs s i = Some j \<and> job_request j = take 2048 request)
    \<and> (\<forall>t. (web_step fs server spurious)\<^sup>*\<^sup>* s t \<longrightarrow> served t = served s \<and> out (world t) = out (world s))"
proof -
  have blocked: "snd (request_plan fs (take 2048 request)) = Blocked"
    using assms(1,2) by (simp add: request_plan_def reply_plan_def ok_file_plan_def)
  have "k \<le> 4 \<Longrightarrow> \<exists>s. (web_step fs server spurious)\<^sup>*\<^sup>* (web_start w) s \<and> first_stuck (take 2048 request) k s" for k
  proof (induction k)
    case 0
    have "first_stuck (take 2048 request) 0 (web_start w)"
      using assms(4) by (auto simp: first_stuck_def web_start_def torero_pool_def pool_new_def BoundedBuffer_new_def)
    then show ?case by blast
  next
    case (Suc k)
    then obtain s where s: "(web_step fs server spurious)\<^sup>*\<^sup>* (web_start w) s" "first_stuck (take 2048 request) k s" by auto
    from one_more_stuck [OF s(2) _ blocked] Suc.prems obtain t where
      "(web_step fs server spurious)\<^sup>*\<^sup>* s t" "first_stuck (take 2048 request) (Suc k) t" by auto
    with s(1) show ?case by (meson rtranclp_trans)
  qed
  from this [of 4] obtain s where
    s: "(web_step fs server spurious)\<^sup>*\<^sup>* (web_start w) s" "first_stuck (take 2048 request) 4 s" by auto
  have ok: "web_ok fs s" by (rule web.inv_steps [OF s(1) web_start_ok [OF assms(3)]])
  have all: "\<forall>i<length (workers (web_pool s)). stuck (take 2048 request) s i" using s(2) by (simp add: first_stuck_def)
  have "\<forall>i<4. \<exists>j. jobs s i = Some j \<and> job_request j = take 2048 request"
    using s(2) by (auto simp: first_stuck_def stuck_def)
  with s(1) all_stuck_steps [OF _ ok all] show ?thesis by blast
qed

section \<open>Witnesses\<close>

abbreviation (input) fresh_world :: web where
  "fresh_world \<equiv> \<lparr>write_script = [], out = \<lambda>_. [], open_sockets = {3}\<rparr>"

lemma parse_demo: "parseRequest (bytes_text (take 2048 (text_bytes ''GET /x HTTP/1.0''))) = ''/x''"
proof -
  have line: "before_crlf ''GET /x HTTP/1.0'' = request_line '' '' ''/x'' '' '' CHR ''1'' CHR ''0''"
    by (simp add: request_line_def CRLF_def)
  have "line_parts_ok '' '' ''/x'' '' '' CHR ''1'' CHR ''0''"
    by (simp add: line_parts_ok_def is_space_def is_digit_def)
  then have "parseRequest ''GET /x HTTP/1.0'' = ''/x''"
    using parseRequest_iff [of "''GET /x HTTP/1.0''" "''/x''"] line by auto
  then show ?thesis by simp
qed

theorem unreadable_file_stops_server_witness:
  "\<exists>s. (web_step (\<lambda>p. if p = ''WWW/x'' then Some (Unreadable 7) else None) \<lparr>server_fd = 3, port_num = 80\<rparr> True)\<^sup>*\<^sup>*
      (web_start fresh_world) s
    \<and> (\<forall>i<4. \<exists>j. jobs s i = Some j \<and> job_request j = take 2048 (text_bytes ''GET /x HTTP/1.0''))
    \<and> (\<forall>t. (web_step (\<lambda>p. if p = ''WWW/x'' then Some (Unreadable 7) else None) \<lparr>server_fd = 3, port_num = 80\<rparr> True)\<^sup>*\<^sup>* s t
        \<longrightarrow> served t = served s \<and> out (world t) = out (world s))"
  by (rule unreadable_file_stops_server [where n = 7]) (simp_all only: parse_demo, simp_all)

lemma demo_run:
  "\<exists>s. (web_step (\<lambda>_. None) \<lparr>server_fd = 3, port_num = 80\<rparr> True)\<^sup>*\<^sup>* (web_start fresh_world) s
    \<and> served s = [(ClientSocket_new 4, [65])] \<and> jobs s = Map.empty"
proof -
  let ?s = "web_start fresh_world"
  have s: "producer (web_pool ?s) = Accepting" "buffer (shared (web_pool ?s)) = []"
    "0 < capacity (shared (web_pool ?s))" "Get_Asleep \<notin> set (workers (web_pool ?s))" "0 < length (workers (web_pool ?s))"
    "workers (web_pool ?s) ! 0 = Getting" "jobs ?s 0 = None" "4 \<notin> open_sockets (world ?s)" "(0 :: int) \<le> 4"
    by (simp_all add: web_start_def torero_pool_def pool_new_def BoundedBuffer_new_def)
  from client_taken [OF s, of "\<lambda>_. None" "\<lparr>server_fd = 3, port_num = 80\<rparr>" True "[65]"] obtain p j w where
    run: "(web_step (\<lambda>_. None) \<lparr>server_fd = 3, port_num = 80\<rparr> True)\<^sup>*\<^sup>* ?s (?s\<lparr>web_pool := p, jobs := (jobs ?s)(0 \<mapsto> j), world := w\<rparr>)"
    and j: "job_client j = ClientSocket_new 4" "job_request j = [65]" "todo j = []" "ending j = snd (request_plan (\<lambda>_. None) [65])"
    by auto
  let ?t = "?s\<lparr>web_pool := p, jobs := (jobs ?s)(0 \<mapsto> j), world := w\<rparr>"
  have "ending j = Ret ()" using j(4) by (simp add: request_plan_def reply_plan_def Let_def)
  then obtain w' where "job_step j ((world ?t)\<lparr>write_script := [Wrote 1]\<rparr>) = (Ret None, w')"
    using j(3) by (simp add: job_step_def then_io_def bind_io_def halt_def ret_def client_close_def upd_def)
  then have "\<exists>t. web_step (\<lambda>_. None) \<lparr>server_fd = 3, port_num = 80\<rparr> True ?t t
      \<and> served t = served ?t @ [(job_client j, job_request j)] \<and> jobs t = (jobs ?t)(0 := None)"
    by (intro exI conjI) (rule web_step.finish [of _ 0 j], simp_all)
  then obtain t where t: "web_step (\<lambda>_. None) \<lparr>server_fd = 3, port_num = 80\<rparr> True ?t t"
    "served t = served ?t @ [(job_client j, job_request j)]" "jobs t = (jobs ?t)(0 := None)" by (elim exE conjE)
  have "(web_step (\<lambda>_. None) \<lparr>server_fd = 3, port_num = 80\<rparr> True)\<^sup>*\<^sup>* ?s t"
    by (rule rtranclp.rtrancl_into_rtrancl [OF run]) (rule t(1))
  moreover have "served t = [(ClientSocket_new 4, [65])]" "jobs t = Map.empty"
    using t(2,3) j by (simp_all add: web_start_def)
  ultimately show ?thesis by blast
qed

theorem each_client_own_reply_witness:
  "\<exists>s. (web_step (\<lambda>_. None) \<lparr>server_fd = 3, port_num = 80\<rparr> True)\<^sup>*\<^sup>* (web_start fresh_world) s
    \<and> served s = [(ClientSocket_new 4, [65])] \<and> out (world s) 4 = the (http_reply (\<lambda>_. None) (parseRequest (bytes_text [65])))"
proof -
  from demo_run obtain s where s: "(web_step (\<lambda>_. None) \<lparr>server_fd = 3, port_num = 80\<rparr> True)\<^sup>*\<^sup>* (web_start fresh_world) s"
    "served s = [(ClientSocket_new 4, [65])]" "jobs s = Map.empty" by blast
  have "out fresh_world = (\<lambda>_. [])" by simp
  from each_client_own_reply [OF s(1) this, of 4] s(2,3) have
    "out (world s) 4 = the (http_reply (\<lambda>_. None) (parseRequest (bytes_text [65])))"
    by (auto simp: ClientSocket_new_def)
  with s show ?thesis by blast
qed

theorem server_in_order_witness:
  "\<exists>s. (web_step (\<lambda>_. None) \<lparr>server_fd = 3, port_num = 80\<rparr> True)\<^sup>*\<^sup>* (web_start fresh_world) s
    \<and> served s \<noteq> [] \<and> length (buffer (shared (web_pool s))) \<le> 5"
proof -
  from demo_run obtain s where s: "(web_step (\<lambda>_. None) \<lparr>server_fd = 3, port_num = 80\<rparr> True)\<^sup>*\<^sup>* (web_start fresh_world) s"
    "served s = [(ClientSocket_new 4, [65])]" by blast
  have "out fresh_world = (\<lambda>_. [])" by simp
  from server_in_order [OF s(1) this] s show ?thesis by auto
qed

end
