(* ===== verification/Torero_Service.thy ===== *)
theory Torero_Service
  imports Torero_Outage
begin

text \<open>
  What the whole web server gives its clients as long as a worker is left: a client in the buffer can
  get its reply. And what it takes: the sockets it holds are those of the clients in its threads and
  its buffer, of which there are at most ten.
\<close>

section \<open>A free worker serves the head of the buffer\<close>

lemma job_ends:
  assumes "web_ok fs s" and "jobs s k = Some j" and "ending j = Ret ()"
  shows "\<exists>t. (web_step fs server spurious)\<^sup>*\<^sup>* s t
    \<and> web_pool t = (web_pool s)\<lparr>workers := (workers (web_pool s))[k := Getting]\<rparr>
    \<and> served t = served s @ [(job_client j, job_request j)]
    \<and> out (world t) = (out (world s))(socket_fd (job_client j) := out (world s) (socket_fd (job_client j)) @ concat (todo j))"
proof -
  let ?j = "j\<lparr>todo := []\<rparr>"
  from drain_job [where fs = fs and server = server and spurious = spurious, OF assms(2)] obtain w where
    w: "(web_step fs server spurious)\<^sup>*\<^sup>* s (s\<lparr>jobs := (jobs s)(k \<mapsto> ?j), world := w\<rparr>)"
    "out w = (out (world s))(socket_fd (job_client j) := out (world s) (socket_fd (job_client j)) @ concat (todo j))" by blast
  let ?s = "s\<lparr>jobs := (jobs s)(k \<mapsto> ?j), world := w\<rparr>"
  obtain w' where w': "job_step ?j ((world ?s)\<lparr>write_script := [Wrote 1]\<rparr>) = (Ret None, w')" "out w' = out w"
    using assms(3) by (simp add: job_step_def then_io_def bind_io_def halt_def ret_def client_close_def upd_def)
  have "jobs ?s k = Some ?j" by simp
  note last = web_step.finish [where fs = fs and server = server and spurious = spurious, OF this w'(1)]
  show ?thesis
    by (rule exI, rule conjI, rule rtranclp.rtrancl_into_rtrancl [OF w(1)], rule last) (simp add: w(2) w'(2))
qed

lemma worker_idle:
  assumes "web_ok fs s" and "\<And>c. workers (web_pool s) ! k \<noteq> Handling c"
  shows "jobs s k = None"
  using job_okD(2) [OF web_okD(3) [OF assms(1)]] assms(2) by (cases "jobs s k") auto

lemma receives:
  assumes "k < length (workers (web_pool s))" and "workers (web_pool s) ! k = Handling c" and "jobs s k = None"
  shows "web_step fs server spurious s (s\<lparr>jobs := (jobs s)(k \<mapsto>
    \<lparr>job_client = c, job_request = take 2048 request, todo = fst (request_plan fs (take 2048 request)),
     ending = snd (request_plan fs (take 2048 request))\<rparr>), world := world s\<rparr>)"
  by (rule web_step.receive [OF assms, where received = "Some request"])
    (simp add: job_start_def receiveData_def bind_io_def Let_def ret_def request_plan_def)

text \<open>A worker that handles a client and does not loop for ever gets back to the buffer.\<close>

lemma handler_returns:
  assumes "web_ok fs s" and "k < length (workers (web_pool s))" and "workers (web_pool s) ! k = Handling c"
    and "\<And>j. jobs s k = Some j \<Longrightarrow> ending j = Ret ()" and "snd (request_plan fs (take 2048 request)) = Ret ()"
  shows "\<exists>t. (web_step fs server spurious)\<^sup>*\<^sup>* s t
    \<and> web_pool t = (web_pool s)\<lparr>workers := (workers (web_pool s))[k := Getting]\<rparr>
    \<and> (\<forall>fd. fd \<noteq> socket_fd c \<longrightarrow> out (world t) fd = out (world s) fd)
    \<and> (jobs s k = None \<longrightarrow> served t = served s @ [(c, take 2048 request)]
         \<and> out (world t) (socket_fd c) = out (world s) (socket_fd c) @ concat (fst (request_plan fs (take 2048 request))))"
proof (cases "jobs s k")
  case (Some j)
  then have "job_client j = c" using job_okD(2) [OF web_okD(3) [OF assms(1) Some]] assms(3) by simp
  with job_ends [where server = server and spurious = spurious, OF assms(1) Some assms(4) [OF Some]] Some show ?thesis
    by fastforce
next
  case None
  let ?j = "\<lparr>job_client = c, job_request = take 2048 request, todo = fst (request_plan fs (take 2048 request)),
     ending = snd (request_plan fs (take 2048 request))\<rparr>"
  let ?s = "s\<lparr>jobs := (jobs s)(k \<mapsto> ?j), world := world s\<rparr>"
  have step: "web_step fs server spurious s ?s" by (rule receives [OF assms(2,3) None])
  have "jobs ?s k = Some ?j" "ending ?j = Ret ()" using assms(5) by simp_all
  from job_ends [where server = server and spurious = spurious, OF web.inv_step [OF step assms(1)] this] obtain t where
    t: "(web_step fs server spurious)\<^sup>*\<^sup>* ?s t" "web_pool t = (web_pool s)\<lparr>workers := (workers (web_pool s))[k := Getting]\<rparr>"
      "served t = served s @ [(c, take 2048 request)]"
      "out (world t) = (out (world s))(socket_fd c := out (world s) (socket_fd c) @ concat (fst (request_plan fs (take 2048 request))))"
    by auto
  from converse_rtranclp_into_rtranclp [OF step t(1)] t(2-4) show ?thesis by (intro exI [of _ t]) simp
qed

lemma head_served:
  assumes "web_ok fs s" and "k < length (workers (web_pool s))" and "workers (web_pool s) ! k = Getting"
    and "buffer (shared (web_pool s)) = x # rest" and "snd (request_plan fs (take 2048 request)) = Ret ()"
  shows "\<exists>t. (web_step fs server spurious)\<^sup>*\<^sup>* s t \<and> buffer (shared (web_pool t)) = rest
    \<and> length (workers (web_pool t)) = length (workers (web_pool s)) \<and> workers (web_pool t) ! k = Getting
    \<and> (\<forall>fd. fd \<noteq> socket_fd x \<longrightarrow> out (world t) fd = out (world s) fd)
    \<and> served t = served s @ [(x, take 2048 request)]
    \<and> out (world t) (socket_fd x) = out (world s) (socket_fd x) @ concat (fst (request_plan fs (take 2048 request)))"
proof -
  let ?p = "web_pool s"
  let ?q = "?p\<lparr>shared := (shared ?p)\<lparr>buffer := rest\<rparr>, workers := (workers ?p)[k := Handling x], taken := taken ?p @ [x]\<rparr>"
  let ?s = "s\<lparr>web_pool := ?q\<rparr>"
  have "pool_step spurious ?p ?q"
    by (rule pool_step.get [OF assms(2,3)]) (simp add: getItem_def assms(4))
  then have step: "web_step fs server spurious s ?s"
    by (rule web_step.buffer_step) (use assms(2,3) in \<open>auto simp: nth_list_update\<close>)
  have idle: "jobs s k = None" by (rule worker_idle [OF assms(1)]) (simp add: assms(3))
  have "k < length (workers (web_pool ?s))" "workers (web_pool ?s) ! k = Handling x" using assms(2) by simp_all
  from handler_returns [where server = server and spurious = spurious, OF web.inv_step [OF step assms(1)] this _ assms(5)] idle
  obtain t where t: "(web_step fs server spurious)\<^sup>*\<^sup>* ?s t"
    "web_pool t = ?q\<lparr>workers := (workers ?q)[k := Getting]\<rparr>" "\<forall>fd. fd \<noteq> socket_fd x \<longrightarrow> out (world t) fd = out (world s) fd"
    "served t = served s @ [(x, take 2048 request)]"
    "out (world t) (socket_fd x) = out (world s) (socket_fd x) @ concat (fst (request_plan fs (take 2048 request)))" by auto
  from converse_rtranclp_into_rtranclp [OF step t(1)] t(2-5) assms(2) show ?thesis by (intro exI [of _ t]) simp
qed


section \<open>Every client in the buffer can be served\<close>

lemma in_buffer_held: "c \<in> set (buffer (shared p)) \<Longrightarrow> 0 < on_fd (socket_fd c) (buffer (shared p))"
  by (auto simp: on_fd_def filter_empty_conv)

lemma buffer_fds:
  assumes "web_ok fs s" and "k < length (workers (web_pool s))" and "workers (web_pool s) ! k = Handling d"
    and "c \<in> set (buffer (shared (web_pool s)))"
  shows "socket_fd c \<noteq> socket_fd d"
proof
  assume same: "socket_fd c = socket_fd d"
  have "0 < on_fd (socket_fd d) (concat (map handling (workers (web_pool s))))"
    using on_fd_update [OF assms(2), of "socket_fd d" Getting] assms(3) by simp
  with in_buffer_held [OF assms(4)] same web_okD(1) [OF assms(1), of "socket_fd c"] show False by (simp add: held_def)
qed

lemma head_fds:
  assumes "web_ok fs s" and "buffer (shared (web_pool s)) = x # rest" and "c \<in> set rest"
  shows "socket_fd c \<noteq> socket_fd x"
  using in_buffer_held [of c "\<lparr>shared = \<lparr>capacity = 0, buffer = rest\<rparr>, producer = Accepting, workers = [], accepted = [], taken = []\<rparr>"]
    web_okD(1) [OF assms(1), of "socket_fd c"] assms(2,3) by (auto simp: held_def)

text \<open>A worker is free if it is not in a loop that never ends.\<close>

definition worker_free :: "web_server \<Rightarrow> nat \<Rightarrow> bool" where
  "worker_free s k \<longleftrightarrow> k < length (workers (web_pool s)) \<and> (\<forall>j. jobs s k = Some j \<longrightarrow> ending j = Ret ())"

lemma some_worker_gets:
  assumes "web_ok fs s" and "pool_ok (web_pool s)" and "worker_free s k" and "buffer (shared (web_pool s)) \<noteq> []"
    and "snd (request_plan fs (take 2048 request)) = Ret ()"
  shows "\<exists>t i. (web_step fs server spurious)\<^sup>*\<^sup>* s t \<and> i < length (workers (web_pool t)) \<and> workers (web_pool t) ! i = Getting
    \<and> buffer (shared (web_pool t)) = buffer (shared (web_pool s))
    \<and> (\<forall>c\<in>set (buffer (shared (web_pool s))). out (world t) (socket_fd c) = out (world s) (socket_fd c))"
proof (cases "workers (web_pool s) ! k")
  case Getting
  with assms(3) show ?thesis by (intro exI [of _ s] exI [of _ k]) (simp add: worker_free_def)
next
  case Get_Asleep
  with assms(3) have "Get_Asleep \<in> set (workers (web_pool s))" by (auto simp: worker_free_def in_set_conv_nth)
  with assms(2,4) have "getting (workers (web_pool s)) \<noteq> 0"
    by (cases "buffer (shared (web_pool s))") (auto simp: pool_ok_def)
  then have "Getting \<in> set (workers (web_pool s))" by (auto simp: getting_def filter_empty_conv)
  then obtain i where "i < length (workers (web_pool s))" "workers (web_pool s) ! i = Getting" by (auto simp: in_set_conv_nth)
  then show ?thesis by (intro exI [of _ s] exI [of _ i]) simp
next
  case (Handling c)
  with assms(3) have k: "k < length (workers (web_pool s))" "\<And>j. jobs s k = Some j \<Longrightarrow> ending j = Ret ()"
    by (auto simp: worker_free_def)
  from handler_returns [where server = server and spurious = spurious, OF assms(1) k(1) Handling k(2) assms(5)]
  obtain t where t: "(web_step fs server spurious)\<^sup>*\<^sup>* s t"
    "web_pool t = (web_pool s)\<lparr>workers := (workers (web_pool s))[k := Getting]\<rparr>"
    "\<forall>fd. fd \<noteq> socket_fd c \<longrightarrow> out (world t) fd = out (world s) fd" by blast
  from buffer_fds [OF assms(1) k(1) Handling] t k(1) show ?thesis by (intro exI [of _ t] exI [of _ k]) auto
qed

text \<open>The client waits, a worker is on its way to the buffer, and nothing was sent to the client yet.\<close>

definition waits_for :: "web_fs \<Rightarrow> ClientSocket \<Rightarrow> bytes \<Rightarrow> web_server \<Rightarrow> bool" where
  "waits_for fs c sent s \<longleftrightarrow> web_ok fs s \<and> c \<in> set (buffer (shared (web_pool s)))
     \<and> (\<exists>k<length (workers (web_pool s)). workers (web_pool s) ! k = Getting)
     \<and> out (world s) (socket_fd c) = sent
     \<and> (\<exists>request. snd (request_plan fs (take 2048 request)) = Ret ())"

interpretation service: progress "web_step fs server spurious" "waits_for fs c sent" "\<lambda>s. hd (buffer (shared (web_pool s))) = c"
    "\<lambda>s. length (buffer (shared (web_pool s)))"
  for fs server spurious c sent
proof
  fix s
  assume wait: "waits_for fs c sent s" and "hd (buffer (shared (web_pool s))) \<noteq> c"
  then obtain x rest where items: "buffer (shared (web_pool s)) = x # rest" "c \<in> set rest"
    by (cases "buffer (shared (web_pool s))") (auto simp: waits_for_def)
  from wait obtain k request where ok: "web_ok fs s" "k < length (workers (web_pool s))" "workers (web_pool s) ! k = Getting"
    and request: "snd (request_plan fs (take 2048 request)) = Ret ()" and sent: "out (world s) (socket_fd c) = sent"
    by (auto simp: waits_for_def)
  from head_served [where server = server and spurious = spurious, OF ok items(1) request] obtain t where
    t: "(web_step fs server spurious)\<^sup>*\<^sup>* s t" "buffer (shared (web_pool t)) = rest"
      "length (workers (web_pool t)) = length (workers (web_pool s))" "workers (web_pool t) ! k = Getting"
      "\<forall>fd. fd \<noteq> socket_fd x \<longrightarrow> out (world t) fd = out (world s) fd" by blast
  have "waits_for fs c sent t"
    using web.inv_steps [OF t(1) ok(1)] t(2-5) ok(2) items(2) sent request head_fds [OF ok(1) items]
    by (auto simp: waits_for_def)
  with t(1,2) items(1)
  show "\<exists>t. (web_step fs server spurious)\<^sup>*\<^sup>* s t \<and> waits_for fs c sent t
      \<and> length (buffer (shared (web_pool t))) < length (buffer (shared (web_pool s)))" by auto
qed

text \<open>C32: From every state the server reaches in which one of the four workers is not in a loop that
  never ends, each client in the buffer can be served: whatever it requests, if there is a reply to
  it, the server can get to where it has sent the client exactly that.\<close>

theorem buffered_client_served:
  assumes "(web_step fs server spurious)\<^sup>*\<^sup>* (web_start w) s" and "out w = (\<lambda>_. [])"
    and "k < 4" and "\<forall>j. jobs s k = Some j \<longrightarrow> ending j = Ret ()"
    and "c \<in> set (buffer (shared (web_pool s)))"
    and "http_reply fs (parseRequest (bytes_text (take 2048 request))) = Some reply"
  shows "\<exists>t. (web_step fs server spurious)\<^sup>*\<^sup>* s t \<and> (c, take 2048 request) \<in> set (served t)
    \<and> out (world t) (socket_fd c) = out (world s) (socket_fd c) @ reply"
proof -
  have ok: "web_ok fs s" by (rule web.inv_steps [OF assms(1) web_start_ok [OF assms(2)]])
  note pool = reachable_pool [OF web_pool_steps [OF assms(1,2), unfolded torero_pool_def]]
  have plan: "snd (request_plan fs (take 2048 request)) = Ret ()" "concat (fst (request_plan fs (take 2048 request))) = reply"
    using assms(6) reply_plan_ends [of fs "parseRequest (bytes_text (take 2048 request))"] by (auto simp: request_plan_def)
  have "worker_free s k" using assms(3,4) pool(3) by (simp add: worker_free_def)
  from some_worker_gets [where server = server and spurious = spurious, OF ok _ this _ plan(1)] pool(1) assms(5)
  obtain t i where t: "(web_step fs server spurious)\<^sup>*\<^sup>* s t" "i < length (workers (web_pool t))"
    "workers (web_pool t) ! i = Getting" "buffer (shared (web_pool t)) = buffer (shared (web_pool s))"
    "out (world t) (socket_fd c) = out (world s) (socket_fd c)" by fastforce
  from web.inv_steps [OF t(1) ok] t(2-5) plan(1) assms(5) have "waits_for fs c (out (world s) (socket_fd c)) t"
    by (auto simp: waits_for_def)
  from service.reaches_goal [where server = server and spurious = spurious, OF this] obtain u where
    u: "(web_step fs server spurious)\<^sup>*\<^sup>* t u" "waits_for fs c (out (world s) (socket_fd c)) u"
      "hd (buffer (shared (web_pool u))) = c" by blast
  then obtain m rest where "web_ok fs u" "m < length (workers (web_pool u))" "workers (web_pool u) ! m = Getting"
    "buffer (shared (web_pool u)) = c # rest" "out (world u) (socket_fd c) = out (world s) (socket_fd c)"
    by (cases "buffer (shared (web_pool u))") (auto simp: waits_for_def)
  with head_served [where server = server and spurious = spurious, OF this(1-4) plan(1)] plan(2) obtain v where
    "(web_step fs server spurious)\<^sup>*\<^sup>* u v" "served v = served u @ [(c, take 2048 request)]"
    "out (world v) (socket_fd c) = out (world s) (socket_fd c) @ reply" by auto
  with t(1) u(1) show ?thesis by (intro exI [of _ v]) auto
qed

section \<open>No socket leaks\<close>

text \<open>The clients that the threads and the buffer hold.\<close>

definition connections :: "ClientSocket pool \<Rightarrow> ClientSocket list" where
  "connections p = concat (map handling (workers p)) @ buffer (shared p) @ pending (producer p)"

lemma held_connections: "held fd p = on_fd fd (connections p)"
  by (simp add: held_def connections_def)

lemma on_fd_positive: "0 < on_fd fd cs \<longleftrightarrow> fd \<in> socket_fd ` set cs"
  by (induction cs) auto

lemma on_fd_distinct: "(\<And>fd. on_fd fd cs \<le> 1) \<Longrightarrow> distinct (map socket_fd cs)"
proof (induction cs)
  case (Cons c cs)
  have "on_fd fd cs \<le> 1" for fd using Cons.prems [of fd] by (simp split: if_splits)
  moreover have "on_fd (socket_fd c) cs = 0" using Cons.prems [of "socket_fd c"] by simp
  ultimately show ?case using Cons.IH on_fd_positive [of "socket_fd c" cs] by auto
qed simp

lemma handling_length: "length (concat (map handling ws)) \<le> length ws"
proof (induction ws)
  case (Cons v ws)
  then show ?case by (cases v) auto
qed simp

lemma pending_length: "length (pending q) \<le> 1"
  by (cases q) (simp_all add: pending_def)

definition fds_ok :: "int set \<Rightarrow> web_server \<Rightarrow> bool" where
  "fds_ok fds s \<longleftrightarrow> (\<forall>fd. fd \<in> open_sockets (world s) \<longleftrightarrow> fd \<in> fds \<or> 0 < held fd (web_pool s))
     \<and> (\<forall>fd\<in>fds. held fd (web_pool s) = 0)"

interpretation descriptors: step_invariant "web_step fs server spurious" "\<lambda>s. web_ok fs s \<and> fds_ok fds s"
  for fs server spurious fds
proof
  fix s t
  assume step: "web_step fs server spurious s t" and inv: "web_ok fs s \<and> fds_ok fds s"
  from inv have ok: "web_ok fs s" and fds: "fds_ok fds s" by simp_all
  from step have "fds_ok fds t"
  proof cases
    case (accept_client fd c w)
    then have "socket_fd c = fd" "open_sockets w = insert fd (open_sockets (world s))"
      by (auto simp: acceptConnection_def then_io_def bind_io_def upd_def ret_def halt_def ClientSocket_new_def split: if_splits)
    with fds accept_client show ?thesis by (auto simp: fds_ok_def held_def pending_def)
  next
    case (buffer_step p)
    with fds held_buffer_step [OF buffer_step(2-4)] show ?thesis by (simp add: fds_ok_def)
  next
    case (receive i c received j w)
    then have "w = world s" by (auto simp: job_start_def receiveData_def Let_def ret_def halt_def elim!: bind_io_RetE split: option.splits)
    with fds receive(1) show ?thesis by (simp add: fds_ok_def)
  next
    case (work i j r j' w)
    from job_step_work [OF work(3)] have "open_sockets w = open_sockets (world s)" by auto
    with fds work(1) show ?thesis by (simp add: fds_ok_def)
  next
    case (finish i j r w)
    let ?fd = "socket_fd (job_client j)"
    note worker = job_okD [OF web_okD(3) [OF ok finish(2)]]
    have "held fd (web_pool t) + (if ?fd = fd then 1 else 0) = held fd (web_pool s)" for fd
      using on_fd_update [OF worker(1), of fd Getting] worker(2) finish(1) by (simp add: held_def)
    note held = this
    from job_step_finish [OF finish(3)] finish(1) have "open_sockets (world t) = open_sockets (world s) - {?fd}" by simp
    moreover have "held ?fd (web_pool t) = 0" using held [of ?fd] web_okD(1) [OF ok, of ?fd] by simp
    moreover have "held fd (web_pool t) = held fd (web_pool s)" if "fd \<noteq> ?fd" for fd using held [of fd] that by simp
    moreover have "?fd \<notin> fds" using held [of ?fd] fds by (auto simp: fds_ok_def)
    ultimately show ?thesis using fds unfolding fds_ok_def
      by (metis Diff_iff insertE insertI1 empty_iff less_irrefl)
  qed
  with web.inv_step [OF step ok] show "web_ok fs t \<and> fds_ok fds t" by simp
qed

text \<open>C33: The server leaks no socket: beside the sockets open at the start, exactly those of the
  clients that are being accepted, in the buffer or being handled are open, each once, and these are
  at most ten at any time. (The descriptors of the files and directories it reads are not in the model.)\<close>

theorem no_socket_leak:
  assumes "(web_step fs server spurious)\<^sup>*\<^sup>* (web_start w) s" and "out w = (\<lambda>_. [])"
  shows "open_sockets (world s) = open_sockets w \<union> socket_fd ` set (connections (web_pool s))
    \<and> open_sockets w \<inter> socket_fd ` set (connections (web_pool s)) = {}
    \<and> distinct (map socket_fd (connections (web_pool s))) \<and> length (connections (web_pool s)) \<le> 10"
proof -
  have "fds_ok (open_sockets w) (web_start w)"
    by (simp add: fds_ok_def web_start_def torero_pool_def pool_new_def held_def pending_def BoundedBuffer_new_def numeral_eq_Suc)
  with web_start_ok [OF assms(2)] descriptors.inv_steps [OF assms(1)] have
    ok: "web_ok fs s" "fds_ok (open_sockets w) s" by blast+
  note pool = reachable_pool [OF web_pool_steps [OF assms(1,2), unfolded torero_pool_def]]
  have held: "0 < held fd (web_pool s) \<longleftrightarrow> fd \<in> socket_fd ` set (connections (web_pool s))" for fd
    by (simp only: held_connections on_fd_positive)
  have "open_sockets (world s) = open_sockets w \<union> socket_fd ` set (connections (web_pool s))"
    using ok(2) unfolding fds_ok_def held by blast
  moreover have "open_sockets w \<inter> socket_fd ` set (connections (web_pool s)) = {}"
    using ok(2) held unfolding fds_ok_def by (metis disjoint_iff less_irrefl)
  moreover have "distinct (map socket_fd (connections (web_pool s)))"
    by (rule on_fd_distinct) (simp only: held_connections [symmetric] web_okD(1) [OF ok(1)])
  moreover have "length (connections (web_pool s)) \<le> 10"
    using handling_length [of "workers (web_pool s)"] pending_length [of "producer (web_pool s)"] pool
    by (simp add: connections_def pool_ok_def buffer_ok_def)
  ultimately show ?thesis by blast
qed


section \<open>Witnesses\<close>

text \<open>One client was accepted and put into the buffer.\<close>

lemma demo_waiting:
  "\<exists>s. (web_step (\<lambda>_. None) \<lparr>server_fd = 3, port_num = 80\<rparr> True)\<^sup>*\<^sup>* (web_start fresh_world) s
    \<and> buffer (shared (web_pool s)) = [ClientSocket_new 4] \<and> workers (web_pool s) = replicate 4 Getting
    \<and> producer (web_pool s) = Accepting \<and> jobs s = Map.empty \<and> out (world s) = (\<lambda>_. [])"
proof -
  let ?step = "web_step (\<lambda>_. None) \<lparr>server_fd = 3, port_num = 80\<rparr> True" and ?c = "ClientSocket_new 4"
  let ?s = "web_start fresh_world" and ?w = "fresh_world\<lparr>open_sockets := {4, 3}\<rparr>"
  let ?p = "torero_pool\<lparr>producer := Putting ?c, accepted := [?c]\<rparr>"
  let ?q = "?p\<lparr>producer := Accepting, shared := \<lparr>capacity = 5, buffer = [?c]\<rparr>, workers := workers ?p\<rparr>"
  let ?s1 = "?s\<lparr>web_pool := ?p, world := ?w\<rparr>"
  have "?step ?s ?s1"
    using web_step.accept_client [of ?s 4 "\<lparr>server_fd = 3, port_num = 80\<rparr>" ?c ?w "\<lambda>_. None" True]
    by (simp add: web_start_def torero_pool_def pool_new_def acceptConnection_def then_io_def bind_io_def upd_def ret_def)
  moreover have "pool_step True ?p ?q"
    by (rule pool_step.put) (simp_all add: torero_pool_def pool_new_def BoundedBuffer_new_def putItem_def wakes_def)
  then have "?step ?s1 (?s1\<lparr>web_pool := ?q\<rparr>)" by (intro web_step.buffer_step) simp_all
  ultimately have "?step\<^sup>*\<^sup>* ?s (?s1\<lparr>web_pool := ?q\<rparr>)" by (rule two_steps)
  then show ?thesis
    by (intro exI conjI) (assumption, simp_all add: web_start_def torero_pool_def pool_new_def)
qed

theorem buffered_client_served_witness:
  "\<exists>s t. (web_step (\<lambda>_. None) \<lparr>server_fd = 3, port_num = 80\<rparr> True)\<^sup>*\<^sup>* s t
    \<and> buffer (shared (web_pool s)) = [ClientSocket_new 4] \<and> out (world t) 4 = text_bytes (not_found_header @ not_found_html)"
proof -
  from demo_waiting obtain s where
    s: "(web_step (\<lambda>_. None) \<lparr>server_fd = 3, port_num = 80\<rparr> True)\<^sup>*\<^sup>* (web_start fresh_world) s"
    "buffer (shared (web_pool s)) = [ClientSocket_new 4]" "jobs s = Map.empty" "out (world s) = (\<lambda>_. [])" by blast
  have reply: "http_reply (\<lambda>_. None) (parseRequest (bytes_text (take 2048 (text_bytes ''GET /x HTTP/1.0'')))) =
      Some (text_bytes (not_found_header @ not_found_html))"
    unfolding parse_demo by (simp add: http_reply_def)
  have "out fresh_world = (\<lambda>_. [])" "(0 :: nat) < 4" "\<forall>j. jobs s 0 = Some j \<longrightarrow> ending j = Ret ()"
    "ClientSocket_new 4 \<in> set (buffer (shared (web_pool s)))" using s by simp_all
  from buffered_client_served [OF s(1) this reply] s(2,4) show ?thesis
    by (auto simp: ClientSocket_new_def)
qed

theorem no_socket_leak_witness:
  "\<exists>s. (web_step (\<lambda>_. None) \<lparr>server_fd = 3, port_num = 80\<rparr> True)\<^sup>*\<^sup>* (web_start fresh_world) s \<and> open_sockets (world s) = {3, 4}"
proof -
  from demo_waiting obtain s where
    s: "(web_step (\<lambda>_. None) \<lparr>server_fd = 3, port_num = 80\<rparr> True)\<^sup>*\<^sup>* (web_start fresh_world) s"
    "buffer (shared (web_pool s)) = [ClientSocket_new 4]" "workers (web_pool s) = replicate 4 Getting"
    "producer (web_pool s) = Accepting" by blast
  then have conns: "connections (web_pool s) = [ClientSocket_new 4]"
    by (simp add: connections_def pending_def numeral_eq_Suc)
  have "out fresh_world = (\<lambda>_. [])" by simp
  from no_socket_leak [OF s(1) this] have "open_sockets (world s) = {3} \<union> socket_fd ` set [ClientSocket_new 4]"
    unfolding conns by simp
  with s(1) show ?thesis by (intro exI [of _ s]) (auto simp: ClientSocket_new_def)
qed

end
