(* ===== verification/Sensor_Client.thy ===== *)
theory Sensor_Client
  imports Net_Prelude
begin

text \<open>
  The client of the sensor network (\<open>client.c\<close>, \<open>io_helpers.c\<close> of project 1), a C program: it asks a server
  for a weather station, the station for a reading, and prints it. The world is what is left of the
  input, scripts of the results of \<open>connect\<close>, \<open>send\<close> and \<open>recv\<close>, and what the program did: the text it
  sent to each descriptor, the hosts it connected to, what it closed and displayed. A C string is the
  list of characters before its zero.
\<close>

datatype RequestType = TEMPERATURE | HUMIDITY | WIND_SPEED | QUIT | INVALID

record reading =
  rd_name :: string
  rd_value :: int
  rd_units :: string
  rd_time :: string

text \<open>\<open>None\<close> in a script is a failure of the call.\<close>

record sensor_world =
  stdin :: string
  connects :: "int option list"
  sends :: "nat option list"
  recvs :: "string option list"
  sent_text :: "(int \<times> string) list"
  connected_to :: "(string \<times> string) list"
  closed_fds :: "int list"
  displayed :: "reading list"

datatype sensor_exn = Exit_Success

type_synonym 'a sensor_io = "(sensor_world, sensor_exn, 'a) io"

section \<open>The C library\<close>

definition c_string :: "string \<Rightarrow> string" where
  "c_string s = takeWhile (\<lambda>c. c \<noteq> CHR 0x00) s"

text \<open>\<open>fgets\<close> reads up to and including a newline, at most \<open>n - 1\<close> characters.\<close>

definition fgets_line :: "nat \<Rightarrow> string \<Rightarrow> string" where
  "fgets_line n s =
     (let l = takeWhile (\<lambda>c. c \<noteq> CHR 0x0A) s in take (n - 1) (take (length l + 1) s))"

text \<open>A decimal number with leading white space and a sign, and what follows it.\<close>

definition scan_int :: "string \<Rightarrow> (int \<times> string) option" where
  "scan_int s =
     (let t = dropWhile is_space s;
          negative = (t \<noteq> [] \<and> hd t = CHR ''-'');
          u = (if t \<noteq> [] \<and> (negative \<or> hd t = CHR ''+'') then tl t else t);
          ds = takeWhile is_digit u;
          v = int (digits_value ds)
      in if ds = [] then None else Some (if negative then - v else v, drop (length ds) u))"

definition clamp_long :: "int \<Rightarrow> int" where
  "clamp_long v = max (- (2 ^ 63)) (min (2 ^ 63 - 1) v)"

text \<open>\<open>scan_words n\<close> is \<open>n\<close> conversions \<open>%s\<close>, which stop at the first that finds nothing.\<close>

fun scan_words :: "nat \<Rightarrow> string \<Rightarrow> string list" where
  "scan_words 0 s = []"
| "scan_words (Suc n) s =
     (let t = dropWhile is_space s; w = takeWhile (\<lambda>c. \<not> is_space c) t
      in if w = [] then [] else w # scan_words n (drop (length w) t))"

section \<open>io\_helpers.c\<close>

definition get_text_input :: "nat \<Rightarrow> string sensor_io" where
  "get_text_input buffer_size = (\<lambda>w.
     if stdin w = [] then (Throw Exit_Success, w)
     else let l = fgets_line buffer_size (stdin w)
          in (Ret (c_string l), w\<lparr>stdin := drop (length l) (stdin w)\<rparr>))"

definition connect_to_host :: "string \<Rightarrow> string \<Rightarrow> int sensor_io" where
  "connect_to_host hostname port = (\<lambda>w. case connects w of
      [] \<Rightarrow> (Blocked, w)
    | None # rest \<Rightarrow> (Exit_Failure, w\<lparr>connects := rest\<rparr>)
    | Some fd # rest \<Rightarrow> (Ret fd, w\<lparr>connects := rest, connected_to := connected_to w @ [(hostname, port)]\<rparr>))"

section \<open>client.c\<close>

definition close_sys :: "int \<Rightarrow> unit sensor_io" where
  "close_sys fd = upd (\<lambda>w. w\<lparr>closed_fds := closed_fds w @ [fd]\<rparr>)"

text \<open>A call on descriptor -1 fails. One call of \<open>send\<close> may take over a part of the text only.\<close>

definition send_text :: "int \<Rightarrow> string \<Rightarrow> int sensor_io" where
  "send_text any_fd str = (\<lambda>w.
     if any_fd = - 1 then then_io (close_sys any_fd) (ret (- 1)) w
     else case sends w of
        [] \<Rightarrow> (Blocked, w)
      | None # rest \<Rightarrow> then_io (close_sys any_fd) (ret (- 1)) (w\<lparr>sends := rest\<rparr>)
      | Some k # rest \<Rightarrow>
          let n = min k (length str)
          in (Ret (int n), w\<lparr>sends := rest, sent_text := sent_text w @ [(any_fd, take n str)]\<rparr>))"

text \<open>
  The result of \<open>recv_line\<close> is the string in the buffer; the number of bytes is not used by the callers
  beyond its sign. When \<open>recv\<close> fails, a zero is stored at index -1 of the buffer.
\<close>

definition recv_line :: "int \<Rightarrow> nat \<Rightarrow> string option sensor_io" where
  "recv_line any_fd buffer_length = (\<lambda>w.
     if buffer_length = 0 then (Ret None, w)
     else if any_fd = - 1 then (Undefined, w)
     else case recvs w of
        [] \<Rightarrow> (Blocked, w)
      | None # rest \<Rightarrow> (Undefined, w\<lparr>recvs := rest, closed_fds := closed_fds w @ [any_fd]\<rparr>)
      | Some data # rest \<Rightarrow> (Ret (Some (c_string (take (buffer_length - 1) data))), w\<lparr>recvs := rest\<rparr>))"

definition choose_sensor_command :: "RequestType \<Rightarrow> (string \<times> string) option" where
  "choose_sensor_command request = (case request of
      TEMPERATURE \<Rightarrow> Some (''AIR TEMPERATURE'' @ [CHR 0x0A], ''AIR TEMPERATURE'')
    | HUMIDITY \<Rightarrow> Some (''RELATIVE HUMIDITY'' @ [CHR 0x0A], ''RELATIVE HUMIDITY'')
    | WIND_SPEED \<Rightarrow> Some (''WIND SPEED'' @ [CHR 0x0A], ''WIND SPEED'')
    | _ \<Rightarrow> None)"

definition get_user_request :: "RequestType sensor_io" where
  "get_user_request =
     bind_io (get_text_input 10) (\<lambda>buf.
       let input = takeWhile (\<lambda>c. c \<noteq> CHR 0x0A) buf in
       ret (case scan_int input of
           None \<Rightarrow> INVALID
         | Some (v, end_ptr) \<Rightarrow>
             let selection = clamp_long v in
             if end_ptr \<noteq> [] then INVALID
             else if selection < 1 \<or> 4 < selection then INVALID
             else if selection = 1 then TEMPERATURE else if selection = 2 then HUMIDITY
             else if selection = 3 then WIND_SPEED else QUIT))"

text \<open>\<open>sscanf(buffer, "CONNECT %s %s %s", host, port, pass)\<close>, and the sizes of the three arrays.\<close>

definition scan_connect :: "string \<Rightarrow> string list" where
  "scan_connect buffer = (if take 7 buffer = ''CONNECT'' then scan_words 3 (drop 7 buffer) else [])"

definition fits_arrays :: "string list \<Rightarrow> bool" where
  "fits_arrays ws = list_all (\<lambda>(word, size). length word < size) (zip ws [28, 10, 14 :: nat])"

definition connect_to_weather_station :: "int \<Rightarrow> int sensor_io" where
  "connect_to_weather_station server_socket =
     bind_io (send_text server_socket (''AUTH password123'' @ [CHR 0x0A])) (\<lambda>n.
       if n < 0 then ret (- 1)
       else bind_io (recv_line server_socket 256) (\<lambda>received. case received of
           None \<Rightarrow> ret (- 1)
         | Some buffer \<Rightarrow>
             then_io (close_sys server_socket)
               (let ws = scan_connect buffer in
                if \<not> fits_arrays ws then halt Undefined
                else (case ws of
                    [hostname, port, password] \<Rightarrow>
                      bind_io (connect_to_host hostname port) (\<lambda>weather_station_fd.
                        bind_io (send_text weather_station_fd (take 31 (''AUTH '' @ password @ [CHR 0x0A]))) (\<lambda>n.
                          if n < 0 then ret (- 1)
                          else bind_io (recv_line weather_station_fd 256) (\<lambda>received. case received of
                              None \<Rightarrow> ret (- 1)
                            | Some _ \<Rightarrow> ret weather_station_fd)))
                  | _ \<Rightarrow> ret (- 1)))))"

text \<open>\<open>sscanf(buffer, "%ld %d %9s", ...)\<close>. The program makes the call twice, with the same effect.\<close>

definition scan_reading :: "string \<Rightarrow> (int \<times> int \<times> string) option" where
  "scan_reading buffer = (case scan_int buffer of
      None \<Rightarrow> None
    | Some (timestamp, rest) \<Rightarrow> (case scan_int rest of
        None \<Rightarrow> None
      | Some (sensor_value, rest') \<Rightarrow>
          let units = take 9 (takeWhile (\<lambda>c. \<not> is_space c) (dropWhile is_space rest'))
          in if units = [] then None
             else Some (clamp_long timestamp, narrow_to_int (clamp_long sensor_value), units)))"

text \<open>
  \<open>ctime\<close> is a parameter; it gives a null pointer for a time whose year does not fit, and the next line
  would dereference it. Its last character, a newline, is cut off.
\<close>

definition get_sensor_data :: "(int \<Rightarrow> string option) \<Rightarrow> int \<Rightarrow> RequestType \<Rightarrow> unit sensor_io" where
  "get_sensor_data ctime weather_station_fd request = (case choose_sensor_command request of
      None \<Rightarrow> halt Undefined
    | Some (sensor_command, sensor_name) \<Rightarrow>
        bind_io (send_text weather_station_fd sensor_command) (\<lambda>n.
          if n < 0 then ret ()
          else bind_io (recv_line weather_station_fd 256) (\<lambda>received. case received of
              None \<Rightarrow> ret ()
            | Some buffer \<Rightarrow> (case scan_reading buffer of
                None \<Rightarrow> close_sys weather_station_fd
              | Some (timestamp, sensor_value, units) \<Rightarrow> (case ctime timestamp of
                  None \<Rightarrow> halt Undefined
                | Some time_str \<Rightarrow>
                    then_io (upd (\<lambda>w. w\<lparr>displayed := displayed w @
                        [\<lparr>rd_name = sensor_name, rd_value = sensor_value, rd_units = units, rd_time = butlast time_str\<rparr>]\<rparr>))
                      (bind_io (send_text weather_station_fd (''CLOSE'' @ [CHR 0x0A])) (\<lambda>n.
                        if n < 0 then ret () else close_sys weather_station_fd)))))))"

definition handle_sensor_request :: "(int \<Rightarrow> string option) \<Rightarrow> RequestType \<Rightarrow> int \<Rightarrow> unit sensor_io" where
  "handle_sensor_request ctime request server_socket =
     bind_io (connect_to_weather_station server_socket) (\<lambda>weather_station_fd.
       get_sensor_data ctime weather_station_fd request)"

text \<open>The body of the main loop; \<open>True\<close> says that it was the last one.\<close>

definition main_step :: "(int \<Rightarrow> string option) \<Rightarrow> bool sensor_io" where
  "main_step ctime =
     bind_io get_user_request (\<lambda>selection.
       if selection = TEMPERATURE \<or> selection = HUMIDITY \<or> selection = WIND_SPEED then
         bind_io (connect_to_host ''hopper.sandiego.edu'' ''7030'') (\<lambda>server_fd.
           then_io (handle_sensor_request ctime selection server_fd) (ret False))
       else ret (selection = QUIT))"

section \<open>The main loop ends\<close>

text \<open>Only \<open>get_user_request\<close> reads input, and it reads at least one character or ends the program.\<close>

abbreviation keeps_input :: "'a sensor_io \<Rightarrow> bool" where
  "keeps_input \<equiv> framed (\<lambda>w w'. stdin w' = stdin w)"

interpretation keeps_input: io_frame "\<lambda>w w'. stdin w' = stdin w"
  by unfold_locales simp_all

named_theorems keeps_intros \<open>operations that do not read the input\<close>

lemmas keeps_basic [keeps_intros] = keeps_input.frame_intros

lemma keeps_calls [keeps_intros]:
  "keeps_input (close_sys fd)" "keeps_input (send_text fd str)" "keeps_input (recv_line fd n)"
  "keeps_input (connect_to_host h p)"
  by (auto simp: framed_def close_sys_def upd_def send_text_def then_io_def bind_io_def ret_def recv_line_def
      connect_to_host_def Let_def split: list.splits option.splits)

lemma keeps_station [keeps_intros]: "keeps_input (connect_to_weather_station fd)"
  unfolding connect_to_weather_station_def Let_def
  by (auto intro!: keeps_intros split: option.split list.split)

lemma keeps_display [keeps_intros]: "keeps_input (upd (\<lambda>w. w\<lparr>displayed := f w\<rparr>))"
  by (simp add: framed_def upd_def)

lemma keeps_data [keeps_intros]: "keeps_input (get_sensor_data ctime fd request)"
  unfolding get_sensor_data_def
  by (auto intro!: keeps_intros split: option.split)

lemma get_text_input_reads:
  "get_text_input 10 w = (Ret s, w') \<Longrightarrow> length (stdin w') < length (stdin w)"
  by (cases "stdin w") (auto simp: get_text_input_def fgets_line_def Let_def split: if_splits)

lemma main_step_reads:
  assumes "main_step ctime w = (Ret b, w')"
  shows "length (stdin w') < length (stdin w)"
proof -
  let ?rest = "\<lambda>selection. if selection = TEMPERATURE \<or> selection = HUMIDITY \<or> selection = WIND_SPEED then
      bind_io (connect_to_host ''hopper.sandiego.edu'' ''7030'')
        (\<lambda>server_fd. then_io (handle_sensor_request ctime selection server_fd) (ret False))
    else ret (selection = QUIT)"
  have keeps: "keeps_input (?rest selection)" for selection
    unfolding handle_sensor_request_def by (auto intro!: keeps_intros)
  from assms obtain selection w1 where "get_user_request w = (Ret selection, w1)" and rest: "?rest selection w1 = (Ret b, w')"
    unfolding main_step_def by (elim bind_io_RetE)
  from this(1) have "length (stdin w1) < length (stdin w)"
    unfolding get_user_request_def by (elim bind_io_RetE) (auto simp: Let_def ret_def dest: get_text_input_reads)
  moreover have "stdin w' = stdin w1"
    using keeps [of selection] rest unfolding framed_def by (metis snd_conv)
  ultimately show ?thesis by simp
qed

function main_loop :: "(int \<Rightarrow> string option) \<Rightarrow> sensor_world \<Rightarrow> (sensor_exn, unit) outcome \<times> sensor_world" where
  "main_loop ctime w =
     (case main_step ctime w of
        (Ret done, w') \<Rightarrow> if done then (Ret (), w') else main_loop ctime w'
      | (q, w') \<Rightarrow> (pass q, w'))"
  by pat_completeness auto
termination
  by (relation "measure (\<lambda>(ctime, w). length (stdin w))") (auto dest: main_step_reads [OF sym])

declare main_loop.simps [simp del]

section \<open>A session\<close>

definition word_ok :: "string \<Rightarrow> bool" where
  "word_ok s \<longleftrightarrow> s \<noteq> [] \<and> list_all (\<lambda>c. \<not> is_space c \<and> c \<noteq> CHR 0x00) s"

definition connect_line :: "string \<Rightarrow> string \<Rightarrow> string \<Rightarrow> string" where
  "connect_line hostname port password = ''CONNECT '' @ hostname @ '' '' @ port @ '' '' @ password @ [CHR 0x0A]"

lemma word_span:
  assumes "word_ok s" and "t = [] \<or> is_space (hd t)"
  shows "takeWhile (\<lambda>c. \<not> is_space c) (s @ t) = s" and "dropWhile is_space (CHR '' '' # s @ t) = s @ t"
proof -
  have all: "\<And>c. c \<in> set s \<Longrightarrow> \<not> is_space c" using assms(1) by (auto simp: word_ok_def list_all_iff)
  show "takeWhile (\<lambda>c. \<not> is_space c) (s @ t) = s"
    using all assms(2) by (cases t) (simp_all add: takeWhile_append2)
  obtain c s' where s: "s = c # s'" using assms(1) by (cases s) (auto simp: word_ok_def)
  have "is_space (CHR '' '')" by (simp add: is_space_def)
  with all s show "dropWhile is_space (CHR '' '' # s @ t) = s @ t" by simp
qed

lemma scan_word:
  assumes "word_ok s" and "t = [] \<or> is_space (hd t)"
  shows "scan_words (Suc n) (CHR '' '' # s @ t) = s # scan_words n t"
proof -
  have "s \<noteq> []" using assms(1) by (simp add: word_ok_def)
  with word_span [OF assms] show ?thesis by (simp add: Let_def del: dropWhile.simps)
qed

lemma c_string_all: "CHR 0x00 \<notin> set s \<Longrightarrow> c_string s = s"
  unfolding c_string_def by (rule takeWhile_eq_all_conv [THEN iffD2]) auto

lemma scan_connect_line:
  assumes "word_ok h" and "word_ok p" and "word_ok pw" and "length (connect_line h p pw) \<le> 255"
  shows "scan_connect (c_string (take 255 (connect_line h p pw))) = [h, p, pw]"
proof -
  have "CHR 0x00 \<notin> set (connect_line h p pw)"
    using assms(1-3) by (auto simp: connect_line_def word_ok_def list_all_iff)
  then have line: "c_string (take 255 (connect_line h p pw)) = connect_line h p pw"
    using assms(4) by (simp add: c_string_all)
  have "scan_connect (connect_line h p pw) =
      scan_words (Suc (Suc (Suc 0))) (CHR '' '' # h @ (CHR '' '' # p @ (CHR '' '' # pw @ [CHR 0x0A])))"
    by (simp add: scan_connect_def connect_line_def numeral_3_eq_3)
  also have "\<dots> = [h, p, pw]"
  proof -
    have space: "is_space (CHR '' '')" "is_space (CHR 0x0A)" by (simp_all add: is_space_def)
    have "scan_words (Suc (Suc (Suc 0))) (CHR '' '' # h @ (CHR '' '' # p @ (CHR '' '' # pw @ [CHR 0x0A])))
        = h # scan_words (Suc (Suc 0)) (CHR '' '' # p @ (CHR '' '' # pw @ [CHR 0x0A]))"
      by (rule scan_word [OF assms(1)]) (simp add: space)
    also have "scan_words (Suc (Suc 0)) (CHR '' '' # p @ (CHR '' '' # pw @ [CHR 0x0A]))
        = p # scan_words (Suc 0) (CHR '' '' # pw @ [CHR 0x0A])"
      by (rule scan_word [OF assms(2)]) (simp add: space)
    also have "scan_words (Suc 0) (CHR '' '' # pw @ [CHR 0x0A]) = pw # scan_words 0 [CHR 0x0A]"
      by (rule scan_word [OF assms(3)]) (simp add: space)
    finally show ?thesis by simp
  qed
  finally show ?thesis unfolding line .
qed

definition auth_text :: string where
  "auth_text = ''AUTH password123'' @ [CHR 0x0A]"

definition accepts :: "nat option \<Rightarrow> bool" where
  "accepts k \<longleftrightarrow> (\<exists>n. k = Some n \<and> 32 \<le> n)"

lemma send_text_accepts:
  assumes "fd \<noteq> - 1" and "accepts k" and "sends w = k # rest" and "length str \<le> 32"
  shows "send_text fd str w = (Ret (int (length str)), w\<lparr>sends := rest, sent_text := sent_text w @ [(fd, str)]\<rparr>)"
  using assms by (auto simp: send_text_def accepts_def Let_def min_def)

lemma command_length:
  "choose_sensor_command request = Some (command, name) \<Longrightarrow> length command \<le> 32"
  by (auto simp: choose_sensor_command_def split: RequestType.splits)

text \<open>C37: If the server names a station and the station sends a reading, the client authenticates at both,
  asks for the reading, displays exactly it, says goodbye, and closes both connections.\<close>

theorem session_displays:
  assumes "server_fd \<noteq> - 1" and "station_fd \<noteq> - 1"
    and "word_ok h" and "word_ok p" and "word_ok pw" and "length h < 28" and "length p < 10" and "length pw < 14"
    and "connects w = Some station_fd # conns"
    and "sends w = ka # kb # kc # kd # rest" and "accepts ka" and "accepts kb" and "accepts kc" and "accepts kd"
    and "recvs w = Some (connect_line h p pw) # Some welcome # Some answer # rcvs"
    and "choose_sensor_command request = Some (command, name)"
    and "scan_reading (c_string (take 255 answer)) = Some (timestamp, v, units)" and "ctime timestamp = Some time_str"
  shows "handle_sensor_request ctime request server_fd w =
    (Ret (), w\<lparr>connects := conns, sends := rest, recvs := rcvs,
       sent_text := sent_text w @ [(server_fd, ''AUTH password123'' @ [CHR 0x0A]), (station_fd, ''AUTH '' @ pw @ [CHR 0x0A]),
         (station_fd, command), (station_fd, ''CLOSE'' @ [CHR 0x0A])],
       connected_to := connected_to w @ [(h, p)],
       closed_fds := closed_fds w @ [server_fd, station_fd],
       displayed := displayed w @ [\<lparr>rd_name = name, rd_value = v, rd_units = units, rd_time = butlast time_str\<rparr>]\<rparr>)"
proof -
  have scan: "scan_connect (c_string (take 255 (connect_line h p pw))) = [h, p, pw]"
    using assms(3-8) by (intro scan_connect_line) (simp_all add: connect_line_def)
  have fits: "fits_arrays [h, p, pw]" using assms(6-8) by (simp add: fits_arrays_def)
  have auth: "take 31 (''AUTH '' @ pw @ [CHR 0x0A]) = ''AUTH '' @ pw @ [CHR 0x0A]"
    using assms(8) by (intro take_all) simp
  let ?w = "w\<lparr>connects := conns, sends := kc # kd # rest, recvs := Some answer # rcvs,
       sent_text := sent_text w @ [(server_fd, auth_text), (station_fd, ''AUTH '' @ pw @ [CHR 0x0A])],
       connected_to := connected_to w @ [(h, p)], closed_fds := closed_fds w @ [server_fd]\<rparr>"
  have station: "connect_to_weather_station server_fd w = (Ret station_fd, ?w)"
    using assms(1,2,8-12,15) scan fits
    by (simp add: connect_to_weather_station_def bind_io_def send_text_accepts recv_line_def close_sys_def upd_def
        then_io_def auth connect_to_host_def ret_def auth_text_def)
  show ?thesis
    unfolding handle_sensor_request_def bind_io_Ret [where m = "connect_to_weather_station server_fd", OF station]
    using assms(2,13,14,16-18) command_length [OF assms(16)]
    by (simp add: get_sensor_data_def bind_io_def send_text_accepts recv_line_def upd_def then_io_def close_sys_def ret_def
        auth_text_def)
qed

theorem session_displays_witness:
  "\<exists>w. handle_sensor_request (\<lambda>_. Some (''noon'' @ [CHR 0x0A])) HUMIDITY 3
      \<lparr>stdin = [], connects = [Some 4], sends = replicate 4 (Some 50),
       recvs = [Some (connect_line ''st'' ''70'' ''pw''), Some [], Some ''5 -3 C''],
       sent_text = [], connected_to = [], closed_fds = [], displayed = []\<rparr> = (Ret (), w)
    \<and> displayed w = [\<lparr>rd_name = ''RELATIVE HUMIDITY'', rd_value = - 3, rd_units = ''C'', rd_time = ''noon''\<rparr>]
    \<and> connected_to w = [(''st'', ''70'')] \<and> closed_fds w = [3, 4]"
proof -
  let ?w = "\<lparr>stdin = [], connects = [Some 4], sends = replicate 4 (Some 50),
       recvs = [Some (connect_line ''st'' ''70'' ''pw''), Some [], Some ''5 -3 C''],
       sent_text = [], connected_to = [], closed_fds = [], displayed = []\<rparr> :: sensor_world"
  have reading: "scan_reading (c_string (take 255 ''5 -3 C'')) = Some (5, - 3, ''C'')"
    by (simp add: scan_reading_def scan_int_def is_space_def is_digit_def digits_value_def Let_def c_string_def clamp_long_def
        narrow_to_int_fits int_fits_def)
  have words: "word_ok ''st''" "word_ok ''70''" "word_ok ''pw''" by (simp_all add: word_ok_def is_space_def)
  have "handle_sensor_request (\<lambda>_. Some (''noon'' @ [CHR 0x0A])) HUMIDITY 3 ?w = (Ret (), ?w\<lparr>connects := [], sends := [], recvs := [],
       sent_text := sent_text ?w @ [(3, ''AUTH password123'' @ [CHR 0x0A]), (4, ''AUTH '' @ ''pw'' @ [CHR 0x0A]),
         (4, ''RELATIVE HUMIDITY'' @ [CHR 0x0A]), (4, ''CLOSE'' @ [CHR 0x0A])],
       connected_to := connected_to ?w @ [(''st'', ''70'')],
       closed_fds := closed_fds ?w @ [3, 4],
       displayed := displayed ?w @ [\<lparr>rd_name = ''RELATIVE HUMIDITY'', rd_value = - 3, rd_units = ''C'',
         rd_time = butlast (''noon'' @ [CHR 0x0A])\<rparr>]\<rparr>)"
    using session_displays [of 3 4 "''st''" "''70''" "''pw''" ?w "[]" "Some 50" "Some 50" "Some 50" "Some 50" "[]" "[]"
        "''5 -3 C''" "[]" HUMIDITY _ _ 5 "- 3" "''C''" "\<lambda>_. Some (''noon'' @ [CHR 0x0A])", OF _ _ words _ _ _ _ _ _ _ _ _ _ _ reading]
    by (simp add: accepts_def numeral_eq_Suc choose_sensor_command_def)
  then show ?thesis by simp
qed

text \<open>The client relies on what it is sent: if the server closes with an error instead of answering,
  or names a station whose host, port or password is too long for its array, the program writes
  out of bounds.\<close>

lemma server_reply_unchecked:
  assumes "server_fd \<noteq> - 1" and "sends w = Some k # rest"
    and "recvs w = None # rcvs \<or> word_ok h \<and> word_ok p \<and> word_ok pw \<and> (28 \<le> length h \<or> 10 \<le> length p \<or> 14 \<le> length pw)
      \<and> length (connect_line h p pw) \<le> 255 \<and> recvs w = Some (connect_line h p pw) # rcvs"
  shows "\<exists>w'. connect_to_weather_station server_fd w = (Undefined, w')"
  using assms(3)
proof
  assume "recvs w = None # rcvs"
  with assms(1,2) show ?thesis
    by (simp add: connect_to_weather_station_def bind_io_def send_text_def recv_line_def Let_def)
next
  assume long: "word_ok h \<and> word_ok p \<and> word_ok pw \<and> (28 \<le> length h \<or> 10 \<le> length p \<or> 14 \<le> length pw)
      \<and> length (connect_line h p pw) \<le> 255 \<and> recvs w = Some (connect_line h p pw) # rcvs"
  then have "scan_connect (c_string (take 255 (connect_line h p pw))) = [h, p, pw]" by (intro scan_connect_line) blast+
  moreover have "\<not> fits_arrays [h, p, pw]" using long by (auto simp: fits_arrays_def)
  ultimately show ?thesis
    using assms(1,2) long
    by (simp add: connect_to_weather_station_def bind_io_def send_text_def recv_line_def Let_def close_sys_def upd_def
        then_io_def halt_def)
qed

end
