(* ===== verification/Spec2Isabelle.thy ===== *)
theory Spec2Isabelle
  imports Rdt_Contracts Rdt_Recovery Rdt_Reorder Rdt_Programs Rdt_Typestate Music_Isolation Torero_Service Sensor_Client
begin

text \<open>
  A verification development for the C and C++ programs of a networking course: a client of a sensor
  network (project 1), a web server (project 2), a reliable transport over UDP (project 4) and a
  streaming music server (project 5).

  \<^bold>\<open>Conventions.\<close> A method is a function of the state it works on, of what the system calls give it and of
  its arguments; its result is an \<open>outcome\<close> (a value, an exception, \<open>exit\<close>, undefined behaviour, or a
  call that does not return). Machine integers are words, or integers with an explicit check where
  the type is \<open>int\<close>. What the kernel does is a script of results or an event, over which every theorem
  quantifies. Output to the terminal is left out.

  \<^bold>\<open>Shared.\<close> \<open>Net_Prelude\<close>: results and their sequencing, C integers, byte orders, \<open>stoul\<close> and \<open>stoi\<close>, and four
  contracts: a preorder that operations change their state within (met by the reliable socket and the
  sensor client), a prefix-free byte codec (met by the segments and by the music headers), an invariant
  of a step relation (met by the network, the music server, the thread pool and the whole web server) and
  a goal that a step relation can always come closer to (met by the thread pool and the web server).
  \<open>Fs_Path\<close>: file names and input streams.

  \<^bold>\<open>Reliable transport\<close> (\<open>IReliable Data Transport - p04\<close>).
  \<^item> \<open>Rdt_Segment\<close> (RDTSegment.h, RDTSegment.cpp), \<open>Rdt_Time\<close> (rdt_time.cpp), \<open>Unreliable_Socket\<close>
    (UnreliableSocket.cpp), \<open>Reliable_Socket\<close> (ReliableSocket.cpp): the classes, each method with its
    guards, loops and exceptions.
  \<^item> \<open>Rdt_Process\<close> (sender.cpp, receiver.cpp): the two programs, and the same programs as processes
    that wait in \<open>recv\<close>; the processes compute what the programs compute.
  \<^item> \<open>Rdt_Steps\<close>, \<open>Rdt_Roles\<close>, \<open>Rdt_Network\<close>: what each datagram does to a process; an abstract
    stop-and-wait exchange; the two processes over channels that lose, repeat and delay datagrams, but
    keep their order, refine it. From that: received bytes are a prefix of the file, and a normal end
    means that everything arrived. \<open>Rdt_Reorder\<close>: over channels that change the order this fails; a late
    copy of a block is taken for another one, and both programs end normally with a wrong file.
  \<^item> \<open>Rdt_Progress\<close>: a transfer can complete from the start, for every file of a length that is not a
    multiple of 1394; the cases in which the protocol gets stuck. \<open>Rdt_Recovery\<close>: from every state in
    which both programs wait it still can, whatever was lost, except for the third message of the
    handshake. \<open>Rdt_Rtt\<close>: the estimates and the timeout. \<open>Rdt_Contracts\<close>: segments and file blocks. \<open>Rdt_Data\<close>: the contracts of \<open>send_data\<close> and
    \<open>receive_data\<close>. \<open>Rdt_Programs\<close>: the programs from their command lines and files on, which run the
    programs above when these are in order.
  \<^item> \<open>Rdt_Typestate\<close>: the public methods as a protocol of calls. A socket that any client has used is well
    typed, a call that returns moves the status by a table and never back (an order on the statuses),
    and which exception leaves which method.

  \<^bold>\<open>Music server\<close> (\<open>Streaming Music Protocol - p05/server\<close>).
  \<^item> \<open>Music_Protocol\<close> (protocol.h, protocol.cpp): the header. \<open>Music_Host\<close> (networking.cpp): sockets,
    the epoll interest list. \<open>Song_Library\<close> (SongLibrary.cpp, \<open>find_mp3_files\<close>).
  \<^item> \<open>Chunk_Sender\<close> (ChunkedDataSender.cpp): the senders of arrays and files, under one contract: an
    interrupted transfer holds exactly the rest. The file sender meets it only without a full buffer; what
    both keep is the count of the bytes left.
  \<^item> \<open>Connected_Client\<close> (ConnectedClient.cpp): the methods of a client and its invariant. \<open>Client_Replies\<close>:
    the reply to each request, and what a full buffer and STOP do to it.
  \<^item> \<open>Music_Server\<close> (music-server.cpp): the event loop; an invariant of all clients over every sequence
    of events, and exactly which events are fatal.
  \<^item> \<open>Music_Isolation\<close>: every method of a client is an operation on its own socket; with the locale of an
    unwinding, what a client gets does not depend on the events of the others.

  \<^bold>\<open>Web server\<close> (\<open>ToreroServe (A Lean Web Server) - p02\<close>).
  \<^item> \<open>Web_Sockets\<close> (ClientSocket.cpp, ServerSocket.cpp). \<open>Http_Request\<close>: \<open>parseRequest\<close> with a backtracking
    matcher for the regular expression, which is related to its declarative meaning.
  \<^item> \<open>Bounded_Buffer\<close> (BoundedBuffer.cpp): the buffer under the contract of a bounded queue, and the
    accepting thread and the workers over it as a step relation, with and without spurious wakeups.
  \<^item> \<open>Torero_Serve\<close> (torero-serve.cpp, main.cpp): the responses, the handling of a client, the start.
  \<^item> \<open>Torero_Jobs\<close>: handling a client as a job of single calls of \<open>send\<close>, which run in a row are
    \<open>handleClient\<close>. \<open>Torero_Threads\<close> (\<open>consumeClients\<close>, \<open>runServer\<close>): the accepting thread and the workers over
    the buffer, their jobs interleaved; each client gets the reply to its own request, and the pool of
    the buffer is refined. \<open>Torero_Outage\<close>: runs of the server, and how it stops. \<open>Torero_Service\<close>: as long
    as a worker is left each client in the buffer can be served, and no socket leaks.

  \<^bold>\<open>Sensor client\<close> (\<open>Reverse Engineering a Network Application - p01\<close>).
  \<^item> \<open>Sensor_Client\<close> (client.c, io_helpers.c): the prompt, the session with the server and the weather
    station, and the main loop, which ends because it uses up its input; what a session displays, and
    the replies that make the program write out of bounds.

  \<^bold>\<open>Bounds.\<close> Loops run over finite scripts of kernel results and end when those are used up, which is
  the outcome \<open>Blocked\<close>; no fuel is used. Theorems that say that a call returns ask for a script with
  one result for each byte, which is enough because a successful call takes at least one byte. The
  loops over an input stream (of the sender and the web server) are partial functions, and when they
  end is proved.

  \<^bold>\<open>Conditions.\<close> The guarantees of the reliable transport are for channels that keep the order of the
  datagrams, which the step relation \<open>fifo_step\<close> says in its name. The runs start with sockets that the
  system has created; that it may not is a case of the programs (\<open>ReliableSocket_create\<close>).

  \<^bold>\<open>Not modelled.\<close> Addresses and ports; log lines (except where building one can end the program) and
  transmission rates; the vendored logging library aixlog.hpp and its configuration; the Python test
  network; the Java and Python programs of projects 3 and 5; the
  examples of the course beside the web server. In the web server the file system does not change while
  it runs (and asking it for the kind of a path does not fail), a file that is neither regular nor a
  directory cannot be opened, the descriptors of open files are not counted, and a worker that has thrown an
  exception ends the process, so no step follows. In the reliable transport a call on a descriptor that
  was closed, which the programs never make, is like any other; whether \<open>setsockopt\<close> fails does not
  depend on its argument; the 64 bits of the seconds do not overflow. A socket that its peer has reset
  gives an error of \<open>send\<close> to the music server and the sensor client, not SIGPIPE.
\<close>

end
